(* ===== verification/Prelude.thy ===== *)
theory Prelude
  imports Complex_Main "HOL-Library.AList" "HOL-Library.Char_ord" "HOL-Library.List_Lexorder"
begin

text \<open>
  Shared vocabulary of the development.
  \<^item> Python values: identifiers (UUID and hash strings) are \<^typ>\<open>string\<close>; document text is a
    list of Unicode code points, so that \<open>len\<close>, slicing and offsets count what Python counts.
  \<^item> An insertion-ordered dict is an association list: \<^const>\<open>AList.update\<close> overwrites in place
    or appends, which is the order Python's dict keeps.
  \<^item> A call that may raise and that changes state is an \<open>op\<close>: it returns an error or a value,
    together with the state reached, so that effects made before a raise stay visible.
  \<^item> \<open>triple\<close> is the Hoare triple for such calls, with one postcondition for the normal return
    and one for the raise; the collection \<open>triple_intro\<close> holds its structural rules.
\<close>

named_theorems op_simps \<open>equations of the operation combinators\<close>
named_theorems triple_intro \<open>structural rules of the Hoare triple\<close>
named_theorems table_simps \<open>row-wise facts of table updates\<close>

section \<open>Types of the model\<close>

type_synonym ident = string
type_synonym seconds = int
type_synonym codepoint = nat
type_synonym pytext = "codepoint list"
type_synonym ('s, 'e, 'a) op = "'s \<Rightarrow> ('e + 'a) \<times> 's"

abbreviation ascii :: "string \<Rightarrow> pytext" where
  "ascii s \<equiv> map of_char s"

lemma ascii_inject: "ascii g = ascii h \<longleftrightarrow> g = h"
  by (rule inj_eq) (simp add: inj_map_eq_map inj_of_char)

section \<open>Calls that may raise and change state\<close>

definition return_op :: "'a \<Rightarrow> ('s, 'e, 'a) op" where
  "return_op x = (\<lambda>s. (Inr x, s))"

definition raise_op :: "'e \<Rightarrow> ('s, 'e, 'a) op" where
  "raise_op e = (\<lambda>s. (Inl e, s))"

definition then_op :: "('s, 'e, 'a) op \<Rightarrow> ('a \<Rightarrow> ('s, 'e, 'b) op) \<Rightarrow> ('s, 'e, 'b) op" where
  "then_op m k = (\<lambda>s. case m s of (Inl e, t) \<Rightarrow> (Inl e, t) | (Inr x, t) \<Rightarrow> k x t)"

definition seq_op :: "('s, 'e, 'a) op \<Rightarrow> ('s, 'e, 'b) op \<Rightarrow> ('s, 'e, 'b) op" where
  "seq_op m k = then_op m (\<lambda>_. k)"

definition catch_op :: "('s, 'e, 'a) op \<Rightarrow> ('e \<Rightarrow> ('s, 'e, 'a) op) \<Rightarrow> ('s, 'e, 'a) op" where
  "catch_op m h = (\<lambda>s. case m s of (Inl e, t) \<Rightarrow> h e t | (Inr x, t) \<Rightarrow> (Inr x, t))"

definition modify_op :: "('s \<Rightarrow> 's) \<Rightarrow> ('s, 'e, unit) op" where
  "modify_op f = (\<lambda>s. (Inr (), f s))"

definition gets_op :: "('s \<Rightarrow> 'a) \<Rightarrow> ('s, 'e, 'a) op" where
  "gets_op f = (\<lambda>s. (Inr (f s), s))"

definition guard_op :: "bool \<Rightarrow> 'e \<Rightarrow> ('s, 'e, unit) op" where
  "guard_op b e = (if b then return_op () else raise_op e)"

definition when_op :: "bool \<Rightarrow> ('s, 'e, unit) op \<Rightarrow> ('s, 'e, unit) op" where
  "when_op b m = (if b then m else return_op ())"

lemma return_op_apply [simp, op_simps]: "return_op x s = (Inr x, s)"
  by (simp add: return_op_def)

lemma raise_op_apply [simp, op_simps]: "raise_op e s = (Inl e, s)"
  by (simp add: raise_op_def)

lemma modify_op_apply [simp, op_simps]: "modify_op f s = (Inr (), f s)"
  by (simp add: modify_op_def)

lemma gets_op_apply [simp, op_simps]: "gets_op f s = (Inr (f s), s)"
  by (simp add: gets_op_def)

lemma then_op_apply [op_simps]:
  "then_op m k s = (case m s of (Inl e, t) \<Rightarrow> (Inl e, t) | (Inr x, t) \<Rightarrow> k x t)"
  by (simp add: then_op_def)

lemma seq_op_apply [op_simps]:
  "seq_op m k s = (case m s of (Inl e, t) \<Rightarrow> (Inl e, t) | (Inr x, t) \<Rightarrow> k t)"
  by (simp add: seq_op_def then_op_def)

lemma catch_op_apply [op_simps]:
  "catch_op m h s = (case m s of (Inl e, t) \<Rightarrow> h e t | (Inr x, t) \<Rightarrow> (Inr x, t))"
  by (simp add: catch_op_def)

lemma guard_op_apply [op_simps]: "guard_op b e s = (if b then (Inr (), s) else (Inl e, s))"
  by (simp add: guard_op_def)

lemma when_op_apply [op_simps]: "when_op b m s = (if b then m s else (Inr (), s))"
  by (simp add: when_op_def)

section \<open>Hoare triples with a normal and an exceptional exit\<close>

definition triple ::
  "('s \<Rightarrow> bool) \<Rightarrow> ('s, 'e, 'a) op \<Rightarrow> ('a \<Rightarrow> 's \<Rightarrow> bool) \<Rightarrow> ('e \<Rightarrow> 's \<Rightarrow> bool) \<Rightarrow> bool" where
  "triple P m Q E \<longleftrightarrow>
     (\<forall>s. P s \<longrightarrow> (case m s of (Inr x, t) \<Rightarrow> Q x t | (Inl e, t) \<Rightarrow> E e t))"

definition keeps :: "('s \<Rightarrow> bool) \<Rightarrow> ('s, 'e, 'a) op \<Rightarrow> bool" where
  "keeps P m \<longleftrightarrow> (\<forall>s. P s \<longrightarrow> P (snd (m s)))"

lemma triple_return: "(\<And>s. P s \<Longrightarrow> Q x s) \<Longrightarrow> triple P (return_op x) Q E"
  by (simp add: triple_def)

lemma triple_raise: "(\<And>s. P s \<Longrightarrow> E e s) \<Longrightarrow> triple P (raise_op e) Q E"
  by (simp add: triple_def)

lemma triple_then:
  assumes "triple P m R E" and "\<And>x. triple (R x) (k x) Q E"
  shows "triple P (then_op m k) Q E"
  using assms by (fastforce simp: triple_def then_op_def split: prod.splits sum.splits)

lemma triple_seq:
  assumes "triple P m (\<lambda>_. R) E" and "triple R k Q E"
  shows "triple P (seq_op m k) Q E"
  using assms by (fastforce simp: triple_def seq_op_def then_op_def split: prod.splits sum.splits)

lemma triple_catch:
  assumes "triple P m Q R" and "\<And>e. triple (R e) (h e) Q E"
  shows "triple P (catch_op m h) Q E"
  using assms by (fastforce simp: triple_def catch_op_def split: prod.splits sum.splits)

lemma triple_modify: "(\<And>s. P s \<Longrightarrow> Q () (f s)) \<Longrightarrow> triple P (modify_op f) Q E"
  by (simp add: triple_def)

lemma triple_gets: "(\<And>s. P s \<Longrightarrow> Q (f s) s) \<Longrightarrow> triple P (gets_op f) Q E"
  by (simp add: triple_def)

lemma triple_guard:
  "(\<And>s. P s \<Longrightarrow> b \<Longrightarrow> Q () s) \<Longrightarrow> (\<And>s. P s \<Longrightarrow> \<not> b \<Longrightarrow> E e s) \<Longrightarrow> triple P (guard_op b e) Q E"
  by (simp add: triple_def guard_op_def)

lemma triple_weaken:
  assumes "triple P' m Q' E'" and "\<And>s. P s \<Longrightarrow> P' s"
    and "\<And>x s. Q' x s \<Longrightarrow> Q x s" and "\<And>e s. E' e s \<Longrightarrow> E e s"
  shows "triple P m Q E"
  using assms by (fastforce simp: triple_def split: prod.splits sum.splits)

lemma triple_noted: "(\<And>s. P s \<Longrightarrow> P (f s)) \<Longrightarrow> triple P m Q E \<Longrightarrow> triple P (seq_op (modify_op f) m) Q E"
  by (rule triple_seq [OF triple_modify])

lemma triple_fact: "(A \<Longrightarrow> triple P m Q E) \<Longrightarrow> triple (\<lambda>s. P s \<and> A) m Q E"
  by (auto simp: triple_def)

lemma tripleD:
  "triple P m Q E \<Longrightarrow> P s \<Longrightarrow> m s = (r, t) \<Longrightarrow> (case r of Inr x \<Rightarrow> Q x t | Inl e \<Rightarrow> E e t)"
  by (fastforce simp: triple_def split: sum.splits)

lemma keeps_return [triple_intro]: "keeps P (return_op x)"
  by (simp add: keeps_def)

lemma keeps_raise [triple_intro]: "keeps P (raise_op e)"
  by (simp add: keeps_def)

lemma keeps_gets [triple_intro]: "keeps P (gets_op f)"
  by (simp add: keeps_def)

lemma keeps_modify [triple_intro]: "(\<And>s. P s \<Longrightarrow> P (f s)) \<Longrightarrow> keeps P (modify_op f)"
  by (simp add: keeps_def)

lemma keeps_guard [triple_intro]: "keeps P (guard_op b e)"
  by (simp add: keeps_def guard_op_def)

lemma keeps_when [triple_intro]: "keeps P m \<Longrightarrow> keeps P (when_op b m)"
  by (simp add: keeps_def when_op_def)

lemma keeps_then [triple_intro]:
  "keeps P m \<Longrightarrow> (\<And>x. keeps P (k x)) \<Longrightarrow> keeps P (then_op m k)"
  by (fastforce simp: keeps_def then_op_def split: prod.splits sum.splits)

lemma keeps_seq [triple_intro]: "keeps P m \<Longrightarrow> keeps P k \<Longrightarrow> keeps P (seq_op m k)"
  by (fastforce simp: keeps_def seq_op_def then_op_def split: prod.splits sum.splits)

lemma keeps_catch [triple_intro]:
  "keeps P m \<Longrightarrow> (\<And>e. keeps P (h e)) \<Longrightarrow> keeps P (catch_op m h)"
  by (fastforce simp: keeps_def catch_op_def split: prod.splits sum.splits)

lemma keeps_if [triple_intro]: "keeps P m \<Longrightarrow> keeps P k \<Longrightarrow> keeps P (if b then m else k)"
  by simp

lemma keepsD: "keeps P m \<Longrightarrow> P s \<Longrightarrow> m s = (r, t) \<Longrightarrow> P t"
  by (fastforce simp: keeps_def)

section \<open>Insertion-ordered dicts\<close>

definition od_setdefault :: "'k \<Rightarrow> 'v \<Rightarrow> ('k \<times> 'v) list \<Rightarrow> ('k \<times> 'v) list" where
  "od_setdefault k v d = (if map_of d k = None then d @ [(k, v)] else d)"

definition od_append :: "'k \<Rightarrow> 'v \<Rightarrow> ('k \<times> 'v list) list \<Rightarrow> ('k \<times> 'v list) list" where
  "od_append k v d = AList.update k ((case map_of d k of None \<Rightarrow> [] | Some vs \<Rightarrow> vs) @ [v]) d"

lemma map_of_None_keys: "map_of d k = None \<longleftrightarrow> k \<notin> set (map fst d)"
  by (induction d) auto

lemma od_setdefault_distinct:
  "distinct (map fst d) \<Longrightarrow> distinct (map fst (od_setdefault k v d))"
  by (simp add: od_setdefault_def map_of_None_keys)

lemma od_setdefault_keys: "set (map fst (od_setdefault k v d)) = insert k (set (map fst d))"
  by (auto simp: od_setdefault_def map_of_None_keys)

lemma od_setdefault_map_of:
  "map_of (od_setdefault k v d) = (if map_of d k = None then (map_of d)(k \<mapsto> v) else map_of d)"
  by (auto simp: od_setdefault_def map_add_def split: option.splits)

lemma od_append_distinct:
  "distinct (map fst d) \<Longrightarrow> distinct (map fst (od_append k v d))"
  by (simp add: od_append_def distinct_update)

lemma od_append_map_of:
  "map_of (od_append k v d) =
     (map_of d)(k \<mapsto> (case map_of d k of None \<Rightarrow> [] | Some vs \<Rightarrow> vs) @ [v])"
  by (simp add: od_append_def update_conv')

lemma od_append_mem:
  "map_of (od_append k v m) k' = Some xs \<Longrightarrow> x \<in> set xs \<Longrightarrow>
     x = v \<and> k' = k \<or> (\<exists>ys. map_of m k' = Some ys \<and> x \<in> set ys)"
  by (cases "map_of m k") (auto simp: od_append_map_of split: if_splits)

lemma od_setdefault_mem:
  "map_of (od_setdefault k v m) k' = Some x \<Longrightarrow> x = v \<and> k' = k \<or> map_of m k' = Some x"
  by (simp add: od_setdefault_map_of split: if_splits)

section \<open>First occurrences\<close>

fun dedupe :: "'a list \<Rightarrow> 'a list" where
  "dedupe [] = []"
| "dedupe (x # xs) = x # filter (\<lambda>y. y \<noteq> x) (dedupe xs)"

lemma set_dedupe [simp]: "set (dedupe xs) = set xs"
  by (induction xs) auto

lemma distinct_dedupe [simp]: "distinct (dedupe xs)"
  by (induction xs) auto

lemma length_dedupe: "length (dedupe xs) = card (set xs)"
  using distinct_card [OF distinct_dedupe, of xs] by simp

section \<open>Tables: rows updated where a predicate holds\<close>

definition update_where :: "('r \<Rightarrow> bool) \<Rightarrow> ('r \<Rightarrow> 'r) \<Rightarrow> 'r list \<Rightarrow> 'r list" where
  "update_where P f rows = map (\<lambda>r. if P r then f r else r) rows"

definition count_where :: "('r \<Rightarrow> bool) \<Rightarrow> 'r list \<Rightarrow> nat" where
  "count_where P rows = length (filter P rows)"

lemma length_update_where [simp]: "length (update_where P f rows) = length rows"
  by (simp add: update_where_def)

lemma set_update_where [table_simps]:
  "set (update_where P f rows) = (\<lambda>r. if P r then f r else r) ` set rows"
  by (simp add: update_where_def)

lemma map_update_where [table_simps]:
  "(\<And>r. key (f r) = key r) \<Longrightarrow> map key (update_where P f rows) = map key rows"
  by (simp add: update_where_def)

lemma filter_update_where:
  "filter Q (update_where P f rows) = update_where P f (filter (\<lambda>r. if P r then Q (f r) else Q r) rows)"
  by (induction rows) (auto simp: update_where_def)

lemma update_where_none: "(\<And>r. r \<in> set rows \<Longrightarrow> \<not> P r) \<Longrightarrow> update_where P f rows = rows"
  by (induction rows) (auto simp: update_where_def)

lemma update_where_Nil [simp]: "update_where P f [] = []"
  by (simp add: update_where_def)

lemma update_where_Cons [simp]:
  "update_where P f (r # rs) = (if P r then f r else r) # update_where P f rs"
  by (simp add: update_where_def)

lemma count_where_0: "count_where P rows = 0 \<longleftrightarrow> (\<forall>r \<in> set rows. \<not> P r)"
  by (auto simp: count_where_def filter_empty_conv)

lemma find_map_key:
  assumes "\<And>r. key (f r) = key r"
  shows "find (\<lambda>r. key r = k) (map f rows) = map_option f (find (\<lambda>r. key r = k) rows)"
  by (induction rows) (auto simp: assms)

lemma find_update_where [table_simps]:
  assumes "\<And>r. key (f r) = key r"
  shows "find (\<lambda>r. key r = k) (update_where P f rows) =
    map_option (\<lambda>r. if P r then f r else r) (find (\<lambda>r. key r = k) rows)"
  unfolding update_where_def by (rule find_map_key) (simp add: assms)

lemma find_SomeD: "find P xs = Some x \<Longrightarrow> P x \<and> x \<in> set xs"
  by (metis find_Some_iff nth_mem)

lemma find_distinct_key:
  assumes "distinct (map key rows)" and "r \<in> set rows"
  shows "find (\<lambda>x. key x = key r) rows = Some r"
  using assms by (induction rows) auto

section \<open>Invariants of a transition system\<close>

text \<open>
  The components with a life cycle (the job queue, the control channel, the chat turns) are
  functions from a state and an action to the next state. An invariant that every action keeps
  holds after every run; the lemma is proved once here and each component interprets it.
\<close>

locale transition_invariant =
  fixes step :: "'s \<Rightarrow> 'a \<Rightarrow> 's" and inv :: "'s \<Rightarrow> bool"
  assumes step_inv: "inv s \<Longrightarrow> inv (step s a)"
begin

lemma run_inv: "inv s \<Longrightarrow> inv (foldl step s as)"
  by (induction as arbitrary: s) (auto intro: step_inv)

lemma prefix_inv: "inv s \<Longrightarrow> inv (foldl step s (take n as))"
  by (rule run_inv)

end

section \<open>Results that may be errors\<close>

definition and_then :: "'e + 'a \<Rightarrow> ('a \<Rightarrow> 'e + 'b) \<Rightarrow> 'e + 'b" where
  "and_then r f = (case r of Inl e \<Rightarrow> Inl e | Inr x \<Rightarrow> f x)"

lemma and_then_simps [simp]: "and_then (Inl e) f = Inl e" "and_then (Inr x) f = f x"
  by (simp_all add: and_then_def)

lemma and_then_Inr: "and_then r f = Inr y \<longleftrightarrow> (\<exists>x. r = Inr x \<and> f x = Inr y)"
  by (cases r) auto

lemma and_then_Inl: "and_then r f = Inl e \<longleftrightarrow> r = Inl e \<or> (\<exists>x. r = Inr x \<and> f x = Inl e)"
  by (cases r) auto

lemma and_then_cong [fundef_cong]:
  "r = r' \<Longrightarrow> (\<And>x. r' = Inr x \<Longrightarrow> f x = g x) \<Longrightarrow> and_then r f = and_then r' g"
  by (cases r') auto

text \<open>Collecting the lists a loop appends, until one of its steps raises.\<close>

fun collect_results :: "('a \<Rightarrow> 'e + 'b list) \<Rightarrow> 'a list \<Rightarrow> 'e + 'b list" where
  "collect_results f [] = Inr []"
| "collect_results f (x # xs) =
     and_then (f x) (\<lambda>ys. and_then (collect_results f xs) (\<lambda>zs. Inr (ys @ zs)))"

lemma collect_results_Inr:
  "collect_results f xs = Inr ys \<Longrightarrow>
     \<exists>yss. list_all2 (\<lambda>x zs. f x = Inr zs) xs yss \<and> ys = concat yss"
proof (induction xs arbitrary: ys)
  case Nil
  then show ?case by simp
next
  case (Cons x xs)
  then obtain zs zss where "f x = Inr zs" "collect_results f xs = Inr zss" "ys = zs @ zss"
    by (auto simp: and_then_Inr)
  moreover from this Cons.IH obtain yss where "list_all2 (\<lambda>x zs. f x = Inr zs) xs yss" "zss = concat yss"
    by blast
  ultimately show ?case by (intro exI [of _ "zs # yss"]) simp
qed

lemma collect_results_Inl:
  "collect_results f xs = Inl e \<Longrightarrow> \<exists>x \<in> set xs. f x = Inl e"
  by (induction xs) (auto simp: and_then_Inl)

section \<open>Slices\<close>

text \<open>\<open>xs[a:b]\<close> for bounds that are not negative.\<close>

definition slice :: "nat \<Rightarrow> nat \<Rightarrow> 'a list \<Rightarrow> 'a list" where
  "slice a b xs = drop a (take b xs)"

lemma length_slice [simp]: "length (slice a b xs) = min b (length xs) - a"
  by (simp add: slice_def)

lemma nth_slice: "a + i < b \<Longrightarrow> b \<le> length xs \<Longrightarrow> slice a b xs ! i = xs ! (a + i)"
  by (simp add: slice_def)

lemma slice_slice: "b \<le> e - s \<Longrightarrow> slice a b (slice s e xs) = slice (s + a) (s + b) xs"
  by (cases "b = 0") (simp_all add: slice_def take_drop add.commute min_absorb1)

lemma slice_all [simp]: "slice 0 (length xs) xs = xs"
  by (simp add: slice_def)

lemma slice_empty [simp]: "b \<le> a \<Longrightarrow> slice a b xs = []"
  by (simp add: slice_def)

section \<open>A store that accepts a key once\<close>

text \<open>
  Two components keep used tokens until a deadline: the consumed platform grants of the catalog
  and the request nonces of a browser session. What their clients rely on is the same contract:
  an accepted key is remembered, and it is forgotten only when its deadline is no longer live.
\<close>

locale once_store =
  fixes accept :: "'s \<Rightarrow> 'k \<Rightarrow> int \<Rightarrow> int \<Rightarrow> bool \<times> 's"
    and holds :: "'s \<Rightarrow> 'k \<Rightarrow> int \<Rightarrow> bool"
    and live :: "int \<Rightarrow> int \<Rightarrow> bool"
  assumes accept_holds: "accept s k e n = (True, t) \<Longrightarrow> holds t k e"
    and accept_keeps: "accept s k' e' n = (b, t) \<Longrightarrow> holds s k e \<Longrightarrow> live e n \<Longrightarrow> holds t k e"
    and accept_refuses: "holds s k e \<Longrightarrow> live e n \<Longrightarrow> fst (accept s k e' n) = False"
    and live_antimono: "live e n \<Longrightarrow> m \<le> n \<Longrightarrow> live e m"
begin

definition attempt :: "'s \<Rightarrow> 'k \<times> int \<times> int \<Rightarrow> 's" where
  "attempt s a = (case a of (k, e, n) \<Rightarrow> snd (accept s k e n))"

lemma attempts_keep:
  assumes "holds s k e" and "\<forall>(k', e', n) \<in> set as. live e n"
  shows "holds (foldl attempt s as) k e"
  using assms
proof (induction as arbitrary: s)
  case Nil
  then show ?case by simp
next
  case (Cons a as)
  obtain k' e' n where a: "a = (k', e', n)" by (cases a)
  obtain b t where t: "accept s k' e' n = (b, t)" by (cases "accept s k' e' n")
  have "holds t k e"
    using accept_keeps [OF t Cons.prems(1)] Cons.prems(2) a by simp
  then show ?case
    using Cons.IH [of t] Cons.prems(2) a t by (simp add: attempt_def)
qed

lemma accepted_once:
  assumes "accept s k e n = (True, t)" and "\<forall>(k', e', m) \<in> set as. live e m" and "live e n'"
  shows "fst (accept (foldl attempt t as) k e' n') = False"
  using accept_refuses [OF attempts_keep [OF accept_holds [OF assms(1)] assms(2)] assms(3)] .

end

end
