(* ===== verification/PyText.thy ===== *)
theory PyText
  imports Prelude
begin

text \<open>
  The part of Python's \<open>str\<close>, \<open>int\<close>, \<open>json\<close> and \<open>hmac.compare_digest\<close> that the program uses.
  Header and identifier strings are \<^typ>\<open>string\<close> (code points below 256: HTTP headers are decoded
  as Latin-1); document text is \<^typ>\<open>pytext\<close>.
\<close>

section \<open>White space, strip, split, join\<close>

text \<open>\<open>str.isspace\<close>; the class \<open>\s\<close> of \<open>re\<close> on \<open>str\<close> patterns is the same set.\<close>

definition py_space :: "nat \<Rightarrow> bool" where
  "py_space n \<longleftrightarrow> (9 \<le> n \<and> n \<le> 13) \<or> (28 \<le> n \<and> n \<le> 32) \<or> n = 133 \<or> n = 160 \<or> n = 5760
     \<or> (8192 \<le> n \<and> n \<le> 8202) \<or> n = 8232 \<or> n = 8233 \<or> n = 8239 \<or> n = 8287 \<or> n = 12288"

definition strip_by :: "('a \<Rightarrow> bool) \<Rightarrow> 'a list \<Rightarrow> 'a list" where
  "strip_by p xs = rev (dropWhile p (rev (dropWhile p xs)))"

abbreviation py_strip :: "pytext \<Rightarrow> pytext" where
  "py_strip \<equiv> strip_by py_space"

abbreviation str_strip :: "string \<Rightarrow> string" where
  "str_strip \<equiv> strip_by (\<lambda>c. py_space (of_char c))"

fun split_on :: "'a \<Rightarrow> 'a list \<Rightarrow> 'a list list" where
  "split_on x [] = [[]]"
| "split_on x (y # ys) = (case split_on x ys of
      [] \<Rightarrow> [[y]]
    | p # ps \<Rightarrow> if y = x then [] # p # ps else (y # p) # ps)"

fun split_once :: "'a \<Rightarrow> 'a list \<Rightarrow> ('a list \<times> 'a list) option" where
  "split_once x [] = None"
| "split_once x (y # ys) = (if y = x then Some ([], ys)
     else map_option (\<lambda>(a, b). (y # a, b)) (split_once x ys))"

fun join_with :: "'a list \<Rightarrow> 'a list list \<Rightarrow> 'a list" where
  "join_with sep [] = []"
| "join_with sep [x] = x"
| "join_with sep (x # y # ys) = x @ sep @ join_with sep (y # ys)"

definition to_upper :: "char \<Rightarrow> char" where
  "to_upper c = (let n = (of_char c :: nat) in
     if 97 \<le> n \<and> n \<le> 122 then char_of (n - 32) else c)"

definition starts_with :: "'a list \<Rightarrow> 'a list \<Rightarrow> bool" where
  "starts_with p xs \<longleftrightarrow> take (length p) xs = p"

definition ends_with :: "'a list \<Rightarrow> 'a list \<Rightarrow> bool" where
  "ends_with p xs \<longleftrightarrow> length p \<le> length xs \<and> drop (length xs - length p) xs = p"

lemma split_on_nonempty [simp]: "split_on x ys \<noteq> []"
  by (induction ys) (auto split: list.splits)

lemma join_split_on: "join_with [x] (split_on x ys) = ys"
proof (induction ys)
  case Nil
  then show ?case by simp
next
  case (Cons y ys)
  obtain p ps where p: "split_on x ys = p # ps" by (cases "split_on x ys") auto
  with Cons show ?case by (cases ps) auto
qed

lemma split_on_no_sep: "x \<notin> set ys \<Longrightarrow> split_on x ys = [ys]"
  by (induction ys) auto

lemma split_on_append_sep: "x \<notin> set ys \<Longrightarrow> split_on x (ys @ x # zs) = ys # split_on x zs"
  by (induction ys) (auto split: list.splits)

lemma split_once_Some: "split_once x zs = Some (a, b) \<Longrightarrow> zs = a @ x # b \<and> x \<notin> set a"
  by (induction zs arbitrary: a) (auto split: if_splits)

lemma split_once_append: "x \<notin> set ys \<Longrightarrow> split_once x (ys @ x # zs) = Some (ys, zs)"
  by (induction ys) auto

section \<open>Integers\<close>

text \<open>\<open>str(n)\<close> of a natural number.\<close>

fun nat_str :: "nat \<Rightarrow> string" where
  "nat_str n = (if n < 10 then [char_of (48 + n)] else nat_str (n div 10) @ [char_of (48 + n mod 10)])"

declare nat_str.simps [simp del]

definition str_nat :: "string \<Rightarrow> nat" where
  "str_nat s = foldl (\<lambda>a c. 10 * a + (of_char c - 48)) 0 s"

lemma str_nat_inverse [simp]: "str_nat (nat_str n) = n"
proof (induction n rule: nat_str.induct)
  case (1 n)
  then show ?case
    by (subst nat_str.simps) (auto simp: str_nat_def of_char_of)
qed

lemma nat_str_inject [simp]: "nat_str m = nat_str n \<longleftrightarrow> m = n"
  by (metis str_nat_inverse)

definition digit_value :: "char \<Rightarrow> int option" where
  "digit_value c = (let n = (of_char c :: int) in if 48 \<le> n \<and> n \<le> 57 then Some (n - 48) else None)"

fun digits_value :: "bool \<Rightarrow> int \<Rightarrow> string \<Rightarrow> int option" where
  "digits_value after_digit acc [] = (if after_digit then Some acc else None)"
| "digits_value after_digit acc (c # cs) =
     (if c = CHR ''_'' then (if after_digit then digits_value False acc cs else None)
      else case digit_value c of None \<Rightarrow> None | Some d \<Rightarrow> digits_value True (10 * acc + d) cs)"

text \<open>
  \<open>int(s)\<close> for a Latin-1 string: surrounding white space, one sign, decimal digits with single
  underscores between them, at most 4300 digits; \<open>None\<close> is \<open>ValueError\<close>.
\<close>

definition py_int :: "string \<Rightarrow> int option" where
  "py_int s = (let t = str_strip s in
     if 4300 < length (filter (\<lambda>c. digit_value c \<noteq> None) t) then None
     else case t of
       [] \<Rightarrow> None
     | c # cs \<Rightarrow> if c = CHR ''-'' then map_option uminus (digits_value False 0 cs)
         else if c = CHR ''+'' then digits_value False 0 cs
         else digits_value False 0 (c # cs))"

lemma py_int_example: "py_int '' 1725000000 '' = Some 1725000000" "py_int ''12x'' = None"
  by code_simp+

section \<open>Constant-time comparison\<close>

text \<open>\<open>hmac.compare_digest\<close> on two \<open>str\<close>: TypeError (\<open>None\<close>) unless both are ASCII.\<close>

definition is_ascii :: "string \<Rightarrow> bool" where
  "is_ascii s \<longleftrightarrow> list_all (\<lambda>c. (of_char c :: nat) < 128) s"

definition compare_digest :: "string \<Rightarrow> string \<Rightarrow> bool option" where
  "compare_digest a b = (if is_ascii a \<and> is_ascii b then Some (a = b) else None)"

section \<open>JSON values\<close>

datatype json =
    JNull
  | JBool bool
  | JInt int
  | JFloat rat
  | JStr string
  | JArray "json list"
  | JObject "(string \<times> json) list"

text \<open>\<open>obj[k]\<close> and \<open>obj.get(k)\<close>: the last value of a repeated key wins in \<open>json.loads\<close>.\<close>

definition json_get :: "(string \<times> json) list \<Rightarrow> string \<Rightarrow> json option" where
  "json_get kv k = map_of (rev kv) k"

text \<open>
  \<open>int(v)\<close> of a JSON value; a float truncates towards zero, null and containers raise TypeError.
\<close>

definition json_int :: "json \<Rightarrow> int option" where
  "json_int v = (case v of
       JInt i \<Rightarrow> Some i
     | JBool b \<Rightarrow> Some (if b then 1 else 0)
     | JFloat q \<Rightarrow> Some (if 0 \<le> q then floor q else ceiling q)
     | JStr s \<Rightarrow> py_int s
     | _ \<Rightarrow> None)"

text \<open>\<open>str(v)\<close>: a string is itself; \<open>repr\<close> of the other values is a parameter.\<close>

definition json_str :: "(json \<Rightarrow> string) \<Rightarrow> json \<Rightarrow> string" where
  "json_str repr v = (case v of JStr s \<Rightarrow> s | _ \<Rightarrow> repr v)"

definition json_hashable :: "json \<Rightarrow> bool" where
  "json_hashable v = (case v of JArray _ \<Rightarrow> False | JObject _ \<Rightarrow> False | _ \<Rightarrow> True)"

text \<open>
  \<open>frozenset(v)\<close>: an array of hashable elements, the characters of a string, the keys of an
  object; everything else raises TypeError. The elements are listed, repetitions included.
\<close>

definition json_frozenset :: "json \<Rightarrow> json list option" where
  "json_frozenset v = (case v of
       JArray xs \<Rightarrow> if list_all json_hashable xs then Some xs else None
     | JStr s \<Rightarrow> Some (map (\<lambda>c. JStr [c]) s)
     | JObject kv \<Rightarrow> Some (map (\<lambda>p. JStr (fst p)) kv)
     | _ \<Rightarrow> None)"

end
