(* ===== verification/Errors.thy ===== *)
theory Errors
  imports PyText
begin

text \<open>
  The stable error codes of the local compute service (\<open>app/local_compute/errors.py\<close>):
  \<open>LocalComputeErrorCode\<close>, its HTTP status table and the exception \<open>LocalComputeError\<close>
  with its default public message. An error value carries the code and the optional durable
  diagnostic code; the free-text message is a function of the code unless the raise gives one,
  and no control flow of the program reads it, so the model keeps only its default.
\<close>

section \<open>Codes, values and statuses\<close>

datatype error_code =
    NOT_PAIRED
  | SESSION_EXPIRED
  | ORIGIN_NOT_ALLOWED
  | AUTH_REQUIRED
  | AUTH_INVALID
  | REPLAY_DETECTED
  | UPDATE_REQUIRED
  | CAPABILITY_UNAVAILABLE
  | INVALID_REQUEST
  | PAYLOAD_TOO_LARGE
  | INTERNAL_COMPUTE_ERROR
  | INVALID_PDF
  | UNSUPPORTED_TEXTLESS_PDF
  | DOCUMENT_CONFLICT
  | DOCUMENT_NOT_FOUND
  | JOB_NOT_FOUND
  | JOB_CANCELLED
  | MODEL_ARTIFACT_UNAVAILABLE
  | MODEL_UNAVAILABLE
  | MODEL_LOADING
  | GENERATION_UNAVAILABLE
  | GENERATION_TIMEOUT
  | GENERATION_FAILED
  | INVALID_GENERATION_RESPONSE
  | UNKNOWN_CITATION
  | PROVIDER_NOT_SUPPORTED
  | PLATFORM_CLOUD_DISABLED
  | USER_CLOUD_NOT_CONFIGURED
  | CREDENTIAL_UNAVAILABLE
  | CREDENTIAL_STORE_UNAVAILABLE
  | USER_CLOUD_UNREACHABLE
  | USER_CLOUD_AUTH_FAILED
  | USER_CLOUD_RATE_LIMITED
  | USER_CLOUD_MODEL_UNAVAILABLE
  | PREPARATION_FAILED
  | CONTROL_CHANNEL_UNAVAILABLE
  | DEVICE_REVOKED
  | CREDENTIAL_EPOCH_MISMATCH
  | PROTOCOL_VERSION_UNSUPPORTED
  | MANIFEST_INVALID
  | FORBIDDEN_MANIFEST_CONTENT
  | GRANT_INVALID
  | GRANT_SIGNATURE_INVALID
  | GRANT_EXPIRED
  | GRANT_ALREADY_CONSUMED
  | GRANT_DEVICE_MISMATCH
  | GRANT_EPOCH_MISMATCH
  | ENDPOINT_GENERATION_MISMATCH
  | BROWSER_NONCE_MISMATCH
  | GRANT_OPERATION_INVALID
  | PLATFORM_VERIFICATION_KEY_UNAVAILABLE
  | SESSION_ESTABLISHMENT_FAILED
  | OPERATION_NOT_ALLOWED
  | SESSION_BINDING_INVALID

fun code_value :: "error_code \<Rightarrow> string" where
  "code_value NOT_PAIRED = ''NOT_PAIRED''"
| "code_value SESSION_EXPIRED = ''SESSION_EXPIRED''"
| "code_value ORIGIN_NOT_ALLOWED = ''ORIGIN_NOT_ALLOWED''"
| "code_value AUTH_REQUIRED = ''AUTH_REQUIRED''"
| "code_value AUTH_INVALID = ''AUTH_INVALID''"
| "code_value REPLAY_DETECTED = ''REPLAY_DETECTED''"
| "code_value UPDATE_REQUIRED = ''UPDATE_REQUIRED''"
| "code_value CAPABILITY_UNAVAILABLE = ''CAPABILITY_UNAVAILABLE''"
| "code_value INVALID_REQUEST = ''INVALID_REQUEST''"
| "code_value PAYLOAD_TOO_LARGE = ''PAYLOAD_TOO_LARGE''"
| "code_value INTERNAL_COMPUTE_ERROR = ''INTERNAL_COMPUTE_ERROR''"
| "code_value INVALID_PDF = ''INVALID_PDF''"
| "code_value UNSUPPORTED_TEXTLESS_PDF = ''UNSUPPORTED_TEXTLESS_PDF''"
| "code_value DOCUMENT_CONFLICT = ''DOCUMENT_CONFLICT''"
| "code_value DOCUMENT_NOT_FOUND = ''DOCUMENT_NOT_FOUND''"
| "code_value JOB_NOT_FOUND = ''JOB_NOT_FOUND''"
| "code_value JOB_CANCELLED = ''JOB_CANCELLED''"
| "code_value MODEL_ARTIFACT_UNAVAILABLE = ''MODEL_ARTIFACT_UNAVAILABLE''"
| "code_value MODEL_UNAVAILABLE = ''MODEL_UNAVAILABLE''"
| "code_value MODEL_LOADING = ''MODEL_LOADING''"
| "code_value GENERATION_UNAVAILABLE = ''GENERATION_UNAVAILABLE''"
| "code_value GENERATION_TIMEOUT = ''GENERATION_TIMEOUT''"
| "code_value GENERATION_FAILED = ''GENERATION_FAILED''"
| "code_value INVALID_GENERATION_RESPONSE = ''INVALID_GENERATION_RESPONSE''"
| "code_value UNKNOWN_CITATION = ''UNKNOWN_CITATION''"
| "code_value PROVIDER_NOT_SUPPORTED = ''PROVIDER_NOT_SUPPORTED''"
| "code_value PLATFORM_CLOUD_DISABLED = ''PLATFORM_CLOUD_DISABLED''"
| "code_value USER_CLOUD_NOT_CONFIGURED = ''USER_CLOUD_NOT_CONFIGURED''"
| "code_value CREDENTIAL_UNAVAILABLE = ''CREDENTIAL_UNAVAILABLE''"
| "code_value CREDENTIAL_STORE_UNAVAILABLE = ''CREDENTIAL_STORE_UNAVAILABLE''"
| "code_value USER_CLOUD_UNREACHABLE = ''USER_CLOUD_UNREACHABLE''"
| "code_value USER_CLOUD_AUTH_FAILED = ''USER_CLOUD_AUTH_FAILED''"
| "code_value USER_CLOUD_RATE_LIMITED = ''USER_CLOUD_RATE_LIMITED''"
| "code_value USER_CLOUD_MODEL_UNAVAILABLE = ''USER_CLOUD_MODEL_UNAVAILABLE''"
| "code_value PREPARATION_FAILED = ''PREPARATION_FAILED''"
| "code_value CONTROL_CHANNEL_UNAVAILABLE = ''CONTROL_CHANNEL_UNAVAILABLE''"
| "code_value DEVICE_REVOKED = ''DEVICE_REVOKED''"
| "code_value CREDENTIAL_EPOCH_MISMATCH = ''CREDENTIAL_EPOCH_MISMATCH''"
| "code_value PROTOCOL_VERSION_UNSUPPORTED = ''PROTOCOL_VERSION_UNSUPPORTED''"
| "code_value MANIFEST_INVALID = ''MANIFEST_INVALID''"
| "code_value FORBIDDEN_MANIFEST_CONTENT = ''FORBIDDEN_MANIFEST_CONTENT''"
| "code_value GRANT_INVALID = ''GRANT_INVALID''"
| "code_value GRANT_SIGNATURE_INVALID = ''GRANT_SIGNATURE_INVALID''"
| "code_value GRANT_EXPIRED = ''GRANT_EXPIRED''"
| "code_value GRANT_ALREADY_CONSUMED = ''GRANT_ALREADY_CONSUMED''"
| "code_value GRANT_DEVICE_MISMATCH = ''GRANT_DEVICE_MISMATCH''"
| "code_value GRANT_EPOCH_MISMATCH = ''GRANT_EPOCH_MISMATCH''"
| "code_value ENDPOINT_GENERATION_MISMATCH = ''ENDPOINT_GENERATION_MISMATCH''"
| "code_value BROWSER_NONCE_MISMATCH = ''BROWSER_NONCE_MISMATCH''"
| "code_value GRANT_OPERATION_INVALID = ''GRANT_OPERATION_INVALID''"
| "code_value PLATFORM_VERIFICATION_KEY_UNAVAILABLE = ''PLATFORM_VERIFICATION_KEY_UNAVAILABLE''"
| "code_value SESSION_ESTABLISHMENT_FAILED = ''SESSION_ESTABLISHMENT_FAILED''"
| "code_value OPERATION_NOT_ALLOWED = ''OPERATION_NOT_ALLOWED''"
| "code_value SESSION_BINDING_INVALID = ''SESSION_BINDING_INVALID''"

fun status_of :: "error_code \<Rightarrow> int" where
  "status_of NOT_PAIRED = 503"
| "status_of SESSION_EXPIRED = 401"
| "status_of ORIGIN_NOT_ALLOWED = 403"
| "status_of AUTH_REQUIRED = 401"
| "status_of AUTH_INVALID = 401"
| "status_of REPLAY_DETECTED = 409"
| "status_of UPDATE_REQUIRED = 426"
| "status_of CAPABILITY_UNAVAILABLE = 503"
| "status_of INVALID_REQUEST = 400"
| "status_of PAYLOAD_TOO_LARGE = 413"
| "status_of INTERNAL_COMPUTE_ERROR = 500"
| "status_of INVALID_PDF = 400"
| "status_of UNSUPPORTED_TEXTLESS_PDF = 422"
| "status_of DOCUMENT_CONFLICT = 409"
| "status_of DOCUMENT_NOT_FOUND = 404"
| "status_of JOB_NOT_FOUND = 404"
| "status_of JOB_CANCELLED = 409"
| "status_of MODEL_ARTIFACT_UNAVAILABLE = 503"
| "status_of MODEL_UNAVAILABLE = 503"
| "status_of MODEL_LOADING = 503"
| "status_of GENERATION_UNAVAILABLE = 503"
| "status_of GENERATION_TIMEOUT = 504"
| "status_of GENERATION_FAILED = 502"
| "status_of INVALID_GENERATION_RESPONSE = 502"
| "status_of UNKNOWN_CITATION = 422"
| "status_of PROVIDER_NOT_SUPPORTED = 503"
| "status_of PLATFORM_CLOUD_DISABLED = 503"
| "status_of USER_CLOUD_NOT_CONFIGURED = 503"
| "status_of CREDENTIAL_UNAVAILABLE = 503"
| "status_of CREDENTIAL_STORE_UNAVAILABLE = 503"
| "status_of USER_CLOUD_UNREACHABLE = 503"
| "status_of USER_CLOUD_AUTH_FAILED = 502"
| "status_of USER_CLOUD_RATE_LIMITED = 429"
| "status_of USER_CLOUD_MODEL_UNAVAILABLE = 503"
| "status_of PREPARATION_FAILED = 422"
| "status_of CONTROL_CHANNEL_UNAVAILABLE = 503"
| "status_of DEVICE_REVOKED = 403"
| "status_of CREDENTIAL_EPOCH_MISMATCH = 403"
| "status_of PROTOCOL_VERSION_UNSUPPORTED = 426"
| "status_of MANIFEST_INVALID = 400"
| "status_of FORBIDDEN_MANIFEST_CONTENT = 400"
| "status_of GRANT_INVALID = 401"
| "status_of GRANT_SIGNATURE_INVALID = 401"
| "status_of GRANT_EXPIRED = 401"
| "status_of GRANT_ALREADY_CONSUMED = 409"
| "status_of GRANT_DEVICE_MISMATCH = 403"
| "status_of GRANT_EPOCH_MISMATCH = 403"
| "status_of ENDPOINT_GENERATION_MISMATCH = 409"
| "status_of BROWSER_NONCE_MISMATCH = 401"
| "status_of GRANT_OPERATION_INVALID = 403"
| "status_of PLATFORM_VERIFICATION_KEY_UNAVAILABLE = 503"
| "status_of SESSION_ESTABLISHMENT_FAILED = 503"
| "status_of OPERATION_NOT_ALLOWED = 403"
| "status_of SESSION_BINDING_INVALID = 401"

text \<open>
  \<open>LocalComputeError(code, message, diagnostic_code=...)\<close>. The default message replaces
  underscores by spaces and applies \<open>str.title\<close>: a letter is upper case exactly when the
  character before it is not a letter.
\<close>

record compute_error =
  err_code :: error_code
  err_diagnostic :: "string option"

definition compute_error :: "error_code \<Rightarrow> compute_error" where
  "compute_error c = \<lparr>err_code = c, err_diagnostic = None\<rparr>"

definition diagnosed_error :: "error_code \<Rightarrow> string \<Rightarrow> compute_error" where
  "diagnosed_error c d = \<lparr>err_code = c, err_diagnostic = Some d\<rparr>"

definition to_lower :: "char \<Rightarrow> char" where
  "to_lower c = (if 65 \<le> (of_char c :: nat) \<and> (of_char c :: nat) \<le> 90
     then char_of ((of_char c :: nat) + 32) else c)"

definition ascii_letter :: "char \<Rightarrow> bool" where
  "ascii_letter c =
     (let n = (of_char c :: nat) in (65 \<le> n \<and> n \<le> 90) \<or> (97 \<le> n \<and> n \<le> 122))"

fun title_case :: "bool \<Rightarrow> string \<Rightarrow> string" where
  "title_case after_letter [] = []"
| "title_case after_letter (c # cs) =
     (if after_letter then to_lower c else c) # title_case (ascii_letter c) cs"

definition default_message :: "error_code \<Rightarrow> string" where
  "default_message c =
     title_case False (map (\<lambda>x. if x = CHR ''_'' then CHR '' '' else x) (code_value c))"

definition status_code :: "compute_error \<Rightarrow> int" where
  "status_code e = status_of (err_code e)"

text \<open>The Python idiom \<open>exc.diagnostic_code or exc.code.value\<close>: an empty string is falsy.\<close>

definition durable_code :: "compute_error \<Rightarrow> string" where
  "durable_code e = (case err_diagnostic e of
     Some d \<Rightarrow> (if d = [] then code_value (err_code e) else d)
   | None \<Rightarrow> code_value (err_code e))"

text \<open>
  What a call can raise: the typed error, or one of Python's own exceptions, which the code tells
  apart (\<open>except LocalComputeError\<close> before \<open>except Exception\<close>).
\<close>

datatype py_exn =
    Compute compute_error
  | TypeError
  | ValueError
  | IntegrityError
  | OSError
  | OtherException

definition compute_exn :: "error_code \<Rightarrow> py_exn" where
  "compute_exn c = Compute (compute_error c)"

section \<open>Facts\<close>

lemma compute_exn_inject [simp]: "compute_exn a = compute_exn b \<longleftrightarrow> a = b"
  by (simp add: compute_exn_def compute_error_def)

lemma err_code_compute_error [simp]: "err_code (compute_error c) = c"
  by (simp add: compute_error_def)

lemma err_code_diagnosed_error [simp]: "err_code (diagnosed_error c d) = c"
  by (simp add: diagnosed_error_def)

lemma durable_code_plain [simp]: "durable_code (compute_error c) = code_value c"
  by (simp add: durable_code_def compute_error_def)

lemma status_range: "400 \<le> status_of c \<and> status_of c < 600"
  by (cases c) simp_all

lemma code_value_nonempty [simp]: "code_value c \<noteq> []"
  by (cases c) simp_all

lemma durable_code_nonempty: "durable_code e \<noteq> []"
  by (simp add: durable_code_def split: option.splits)

lemma default_message_example: "default_message JOB_CANCELLED = ''Job Cancelled''"
  by code_simp

end
