(* ===== verification/Catalog.thy ===== *)
theory Catalog
  imports Errors
begin

text \<open>
  The versioned SQLite catalog of the local runtime (\<open>app/local_compute/catalog.py\<close>): schema
  migrations, the paired-device singleton, the manifest outbox and the consumed-grant table, with
  the row types of \<open>local_jobs\<close>, \<open>local_documents\<close> and \<open>local_artifacts\<close> that the other
  components read and write. A table is the list of its rows in insertion (rowid) order; a
  \<open>with self.catalog._connect()\<close> block is one transaction, hence one step of the model. SQLite
  itself (durability, locking, type affinity) is relied on as documented.
\<close>

section \<open>Schema migrations\<close>

text \<open>
  \<open>schema_versions\<close> is \<open>schema_migrations\<close>; \<open>schema_tables\<close> maps a table to its columns.
  \<open>CREATE TABLE\<close> and \<open>ALTER TABLE ADD COLUMN\<close> raise on a table or column that exists (or, for
  the second, on a missing table), so a migration is a partial step.
\<close>

record schema =
  schema_versions :: "int list"
  schema_tables :: "(string \<times> string list) list"

definition catalog_schema_version :: int where
  "catalog_schema_version = 4"

definition create_table :: "string \<Rightarrow> string list \<Rightarrow> schema \<Rightarrow> schema option" where
  "create_table t cols s =
     (if map_of (schema_tables s) t \<noteq> None then None
      else Some (s\<lparr>schema_tables := schema_tables s @ [(t, cols)]\<rparr>))"

definition add_column :: "string \<Rightarrow> string \<Rightarrow> schema \<Rightarrow> schema option" where
  "add_column t c s = (case map_of (schema_tables s) t of
     None \<Rightarrow> None
   | Some cols \<Rightarrow> (if c \<in> set cols then None
       else Some (s\<lparr>schema_tables := AList.update t (cols @ [c]) (schema_tables s)\<rparr>)))"

definition record_version :: "int \<Rightarrow> schema \<Rightarrow> schema option" where
  "record_version v s =
     (if v \<in> set (schema_versions s) then None
      else Some (s\<lparr>schema_versions := schema_versions s @ [v]\<rparr>))"

fun run_statements :: "(schema \<Rightarrow> schema option) list \<Rightarrow> schema \<Rightarrow> schema option" where
  "run_statements [] s = Some s"
| "run_statements (f # fs) s = Option.bind (f s) (run_statements fs)"

definition apply_v1 :: "schema \<Rightarrow> schema option" where
  "apply_v1 = run_statements
    [create_table ''runtime_metadata'' [''key'', ''value''],
     create_table ''local_jobs''
       [''job_id'', ''state'', ''operation'', ''created_at'', ''updated_at''],
     record_version 1]"

definition apply_v2 :: "schema \<Rightarrow> schema option" where
  "apply_v2 = run_statements
    [create_table ''local_documents''
       [''document_id'', ''content_sha256'', ''original_filename'', ''mime_type'', ''byte_size'',
        ''source_relative_path'', ''preparation_state'', ''active_artifact_id'',
        ''last_error_code'', ''created_at'', ''updated_at''],
     create_table ''local_artifacts''
       [''artifact_id'', ''document_id'', ''profile_id'', ''profile_fingerprint'',
        ''relative_path'', ''state'', ''integrity_hash'', ''page_count'', ''chunk_count'',
        ''created_at'', ''promoted_at''],
     add_column ''local_jobs'' ''document_id'',
     add_column ''local_jobs'' ''artifact_id'',
     add_column ''local_jobs'' ''stage'',
     add_column ''local_jobs'' ''progress'',
     add_column ''local_jobs'' ''error_code'',
     add_column ''local_jobs'' ''cancellation_requested'',
     create_table ''manifest_outbox''
       [''event_id'', ''event_type'', ''document_id'', ''artifact_id'', ''payload_metadata'',
        ''created_at'', ''acknowledged_at''],
     record_version 2]"

definition apply_v3 :: "schema \<Rightarrow> schema option" where
  "apply_v3 = run_statements
    [create_table ''paired_device_state''
       [''singleton'', ''device_id'', ''owner_user_id'', ''credential_epoch'',
        ''platform_base_url'', ''protocol_version'', ''pairing_state'', ''revocation_state'',
        ''updated_at''],
     create_table ''control_manifest_outbox''
       [''document_id'', ''payload_metadata'', ''revision'', ''created_at'', ''updated_at'',
        ''attempts'', ''delivered_at'', ''terminal_error''],
     record_version 3]"

definition apply_v4 :: "schema \<Rightarrow> schema option" where
  "apply_v4 = run_statements
    [create_table ''consumed_local_grants'' [''grant_id_hash'', ''consumed_at'', ''expires_at''],
     record_version 4]"

text \<open>\<open>SELECT MAX(version)\<close>: NULL on an empty table.\<close>

definition current_version :: "schema \<Rightarrow> int option" where
  "current_version s =
     (if schema_versions s = [] then None
      else Some (fold max (tl (schema_versions s)) (hd (schema_versions s))))"

definition migrate_from ::
  "int \<Rightarrow> (schema \<Rightarrow> schema option) \<Rightarrow> int option \<times> schema \<Rightarrow> (int option \<times> schema) option" where
  "migrate_from v f cs = (if fst cs = Some v
     then map_option (\<lambda>s. (Some (v + 1), s)) (f (snd cs)) else Some cs)"

text \<open>
  \<open>LocalCatalog.initialize\<close>: the chain of \<open>if current ...\<close> tests, the last of which rejects a
  catalog whose version is unknown. \<open>None\<close> is a raise (a failing statement, or
  \<open>LOCAL_CATALOG_SCHEMA_UNSUPPORTED\<close>).
\<close>

definition initialize :: "schema \<Rightarrow> schema option" where
  "initialize s =
     Option.bind
       (case current_version s of
          None \<Rightarrow> map_option (\<lambda>t. (Some 1, t)) (apply_v1 s)
        | Some v \<Rightarrow> Some (Some v, s)) (\<lambda>c1.
     Option.bind (migrate_from 1 apply_v2 c1) (\<lambda>c2.
     Option.bind (migrate_from 2 apply_v3 c2) (\<lambda>c3.
     Option.bind (migrate_from 3 apply_v4 c3) (\<lambda>c4.
       if fst c4 = Some catalog_schema_version then Some (snd c4) else None))))"

definition empty_schema :: schema where
  "empty_schema = \<lparr>schema_versions = [], schema_tables = []\<rparr>"

section \<open>Rows\<close>

datatype job_state =
  QUEUED | RUNNING | SUCCEEDED | FAILED | CANCEL_REQUESTED | CANCELLED

record local_job =
  job_id :: ident
  job_state :: job_state
  job_operation :: string
  job_document :: "ident option"
  job_artifact :: "ident option"
  job_stage :: "string option"
  job_progress :: int
  job_error :: "string option"
  job_cancel :: bool
  job_created :: seconds
  job_updated :: seconds

datatype preparation_state =
  DOC_ACCEPTED | DOC_PROCESSING | DOC_CHUNKING | DOC_VALIDATING | DOC_PREPARED_NOT_INDEXED
  | DOC_INDEXING | DOC_INDEX_READY | DOC_FAILED

record local_document =
  doc_id :: ident
  doc_sha256 :: string
  doc_filename :: pytext
  doc_mime :: string
  doc_size :: int
  doc_source_path :: string
  doc_state :: preparation_state
  doc_artifact :: "ident option"
  doc_error :: "string option"
  doc_created :: seconds
  doc_updated :: seconds

datatype artifact_state = ART_PREPARED_NOT_INDEXED | ART_INDEX_READY

text \<open>The relative path \<open>artifacts/<document>/<artifact>\<close> of an artifact is kept as that pair.\<close>

record local_artifact =
  art_id :: ident
  art_document :: ident
  art_profile_id :: string
  art_fingerprint :: string
  art_path :: "ident \<times> ident"
  art_state :: artifact_state
  art_integrity :: "string option"
  art_page_count :: int
  art_chunk_count :: int
  art_created :: seconds
  art_promoted :: "seconds option"

record paired_device =
  pd_device_id :: ident
  pd_owner_user_id :: "ident option"
  pd_credential_epoch :: int
  pd_platform_base_url :: string
  pd_protocol_version :: string
  pd_pairing_state :: string
  pd_revocation_state :: string

text \<open>A manifest payload is a JSON object.\<close>

type_synonym payload = "(string \<times> json) list"

record outbox_row =
  ob_document :: ident
  ob_payload :: payload
  ob_revision :: int
  ob_created :: seconds
  ob_updated :: seconds
  ob_attempts :: int
  ob_delivered :: "seconds option"
  ob_terminal :: "string option"

record consumed_grant =
  cg_hash :: string
  cg_consumed :: seconds
  cg_expires :: seconds

record catalog =
  cat_metadata :: "(string \<times> string) list"
  cat_jobs :: "local_job list"
  cat_documents :: "local_document list"
  cat_artifacts :: "local_artifact list"
  cat_paired :: "paired_device option"
  cat_outbox :: "outbox_row list"
  cat_grants :: "consumed_grant list"

definition empty_catalog :: catalog where
  "empty_catalog = \<lparr>cat_metadata = [], cat_jobs = [], cat_documents = [], cat_artifacts = [],
     cat_paired = None, cat_outbox = [], cat_grants = []\<rparr>"

section \<open>Metadata and the paired-device singleton\<close>

definition set_metadata :: "string \<Rightarrow> string \<Rightarrow> catalog \<Rightarrow> catalog" where
  "set_metadata k v c = c\<lparr>cat_metadata := AList.update k v (cat_metadata c)\<rparr>"

definition get_metadata :: "catalog \<Rightarrow> string \<Rightarrow> string option" where
  "get_metadata c k = map_of (cat_metadata c) k"

definition set_paired_device_state :: "paired_device \<Rightarrow> catalog \<Rightarrow> catalog" where
  "set_paired_device_state p c = c\<lparr>cat_paired := Some p\<rparr>"

definition get_paired_device_state :: "catalog \<Rightarrow> paired_device option" where
  "get_paired_device_state c = cat_paired c"

section \<open>The control-manifest outbox\<close>

text \<open>
  \<open>enqueue_control_manifest\<close> is an upsert keyed by document: a new row has revision 1, a later
  payload for the same document bumps the revision and clears the delivery mark and the terminal
  error, keeping \<open>created_at\<close> and \<open>attempts\<close>. The payload is stored with sorted keys.
\<close>

definition enqueue_control_manifest :: "ident \<Rightarrow> payload \<Rightarrow> seconds \<Rightarrow> catalog \<Rightarrow> catalog" where
  "enqueue_control_manifest d p now c =
     (let raw = sort_key fst p in
      if d \<in> set (map ob_document (cat_outbox c))
      then c\<lparr>cat_outbox := update_where (\<lambda>r. ob_document r = d)
             (\<lambda>r. r\<lparr>ob_payload := raw, ob_revision := ob_revision r + 1, ob_updated := now,
                    ob_delivered := None, ob_terminal := None\<rparr>) (cat_outbox c)\<rparr>
      else c\<lparr>cat_outbox := cat_outbox c @
             [\<lparr>ob_document = d, ob_payload = raw, ob_revision = 1, ob_created = now,
               ob_updated = now, ob_attempts = 0, ob_delivered = None, ob_terminal = None\<rparr>]\<rparr>)"

definition pending_control_manifests :: "catalog \<Rightarrow> outbox_row list" where
  "pending_control_manifests c =
     sort_key ob_updated (sort_key ob_revision
       (filter (\<lambda>r. ob_delivered r = None \<and> ob_terminal r = None) (cat_outbox c)))"

definition mark_control_manifest_delivered :: "ident \<Rightarrow> seconds \<Rightarrow> catalog \<Rightarrow> catalog" where
  "mark_control_manifest_delivered d now c =
     c\<lparr>cat_outbox := update_where (\<lambda>r. ob_document r = d)
        (\<lambda>r. r\<lparr>ob_delivered := Some now, ob_attempts := ob_attempts r + 1\<rparr>) (cat_outbox c)\<rparr>"

section \<open>One-time grants\<close>

text \<open>
  \<open>consume_local_grant\<close>: expired rows (\<open>expires_at < now\<close>) are deleted first; the insert then
  fails on the primary key when the hash is still there. The deletion is committed either way.
\<close>

definition consume_local_grant :: "string \<Rightarrow> seconds \<Rightarrow> seconds \<Rightarrow> catalog \<Rightarrow> bool \<times> catalog" where
  "consume_local_grant h expires now c =
     (let kept = filter (\<lambda>g. \<not> cg_expires g < now) (cat_grants c) in
      if h \<in> set (map cg_hash kept) then (False, c\<lparr>cat_grants := kept\<rparr>)
      else (True, c\<lparr>cat_grants := kept @
              [\<lparr>cg_hash = h, cg_consumed = now, cg_expires = expires\<rparr>]\<rparr>))"

definition grant_held :: "catalog \<Rightarrow> string \<Rightarrow> seconds \<Rightarrow> bool" where
  "grant_held c h e \<longleftrightarrow> (\<exists>g \<in> set (cat_grants c). cg_hash g = h \<and> cg_expires g = e)"

interpretation consumed_grants: once_store
  "\<lambda>c h e n. consume_local_grant h e n c" grant_held "\<lambda>e n. \<not> e < n"
  by unfold_locales
    (auto simp: consume_local_grant_def grant_held_def Let_def split: if_splits)

section \<open>Facts\<close>

lemma consume_local_grant_frame:
  assumes "consume_local_grant h e n c = (b, c')"
  shows "cat_jobs c' = cat_jobs c" and "cat_documents c' = cat_documents c"
    and "cat_paired c' = cat_paired c" and "cat_outbox c' = cat_outbox c"
  using assms by (auto simp: consume_local_grant_def Let_def split: if_splits)

lemma consume_local_grant_keys:
  assumes "distinct (map cg_hash (cat_grants c))" and "consume_local_grant h e n c = (b, c')"
  shows "distinct (map cg_hash (cat_grants c'))"
  using assms by (auto simp: consume_local_grant_def Let_def distinct_map_filter split: if_splits)

lemma outbox_documents_enqueue:
  "map ob_document (cat_outbox (enqueue_control_manifest d p now c)) =
     map ob_document (cat_outbox c) @
       (if d \<in> set (map ob_document (cat_outbox c)) then [] else [d])"
  by (simp add: enqueue_control_manifest_def Let_def map_update_where)

lemma outbox_documents_mark:
  "map ob_document (cat_outbox (mark_control_manifest_delivered d now c)) =
     map ob_document (cat_outbox c)"
  by (simp add: mark_control_manifest_delivered_def map_update_where)

lemma set_pending:
  "set (pending_control_manifests c) =
     {r \<in> set (cat_outbox c). ob_delivered r = None \<and> ob_terminal r = None}"
  by (simp add: pending_control_manifests_def)

text \<open>
  Schema upgrade. A fresh catalog, and a catalog left at any of the versions 1 to 4 by an older
  release, are brought by \<open>initialize\<close> to one and the same schema, whose recorded version is the
  supported one; running it again changes nothing, and no statement of a migration raises.
\<close>

theorem initialize_converges:
  "let s1 = apply_v1 empty_schema; s2 = Option.bind s1 apply_v2;
       s3 = Option.bind s2 apply_v3; s4 = Option.bind s3 apply_v4
   in s4 \<noteq> None \<and> initialize empty_schema = s4 \<and> Option.bind s1 initialize = s4
    \<and> Option.bind s2 initialize = s4 \<and> Option.bind s3 initialize = s4
    \<and> Option.bind s4 initialize = s4
    \<and> Option.bind s4 current_version = Some catalog_schema_version"
  by code_simp

text \<open>
  A catalog whose recorded version is newer than the supported one is refused: \<open>initialize\<close>
  raises instead of touching a schema it does not know.
\<close>

theorem initialize_rejects_newer:
  "current_version s = Some v \<Longrightarrow> catalog_schema_version < v \<Longrightarrow> initialize s = None"
  by (simp add: initialize_def migrate_from_def catalog_schema_version_def)

theorem initialize_rejects_newer_witness:
  "initialize \<lparr>schema_versions = [1, 2, 3, 4, 5], schema_tables = []\<rparr> = None"
  by (rule initialize_rejects_newer [where v = 5])
    (simp_all add: current_version_def catalog_schema_version_def)

end
