(* ===== verification/Jobs.thy ===== *)
theory Jobs
  imports Catalog
begin

text \<open>
  The durable job queue of the local runtime (\<open>app/local_compute/jobs.py\<close>, class
  \<open>LocalJobStore\<close>). The queue is the table \<open>local_jobs\<close> of the catalog. Each method is one
  transaction, hence one function on the catalog. The wall clock (\<open>int(time.time())\<close>) and the
  UUID the method draws are arguments; an insert whose id is taken raises \<open>IntegrityError\<close>, rolls
  back, and is \<open>None\<close>. Where SQL leaves the order of equal keys open, the model takes rowid order.
\<close>

section \<open>Operations\<close>

definition process_document :: string where
  "process_document = ''PROCESS_DOCUMENT''"

definition prepare_document :: string where
  "prepare_document = ''PREPARE_DOCUMENT''"

definition index_document_op :: string where
  "index_document_op = ''INDEX_DOCUMENT''"

definition active_state :: "job_state \<Rightarrow> bool" where
  "active_state st \<longleftrightarrow> st \<in> {QUEUED, RUNNING, CANCEL_REQUESTED}"

definition active_pipeline :: "ident \<Rightarrow> local_job \<Rightarrow> bool" where
  "active_pipeline d j \<longleftrightarrow>
     job_document j = Some d \<and> job_operation j = process_document \<and> active_state (job_state j)"

definition insert_job :: "local_job \<Rightarrow> catalog \<Rightarrow> catalog option" where
  "insert_job j c = (if job_id j \<in> set (map job_id (cat_jobs c)) then None
     else Some (c\<lparr>cat_jobs := cat_jobs c @ [j]\<rparr>))"

definition update_jobs :: "(local_job \<Rightarrow> bool) \<Rightarrow> (local_job \<Rightarrow> local_job) \<Rightarrow> catalog \<Rightarrow> catalog" where
  "update_jobs P f c = c\<lparr>cat_jobs := update_where P f (cat_jobs c)\<rparr>"

text \<open>\<open>ORDER BY created_at DESC LIMIT 1\<close> over the rows that satisfy a condition.\<close>

definition latest_job :: "(local_job \<Rightarrow> bool) \<Rightarrow> catalog \<Rightarrow> local_job option" where
  "latest_job P c = (case sort_key (\<lambda>j. - job_created j) (filter P (cat_jobs c)) of
     [] \<Rightarrow> None | j # _ \<Rightarrow> Some j)"

definition enqueue_pipeline ::
  "ident \<Rightarrow> seconds \<Rightarrow> ident \<Rightarrow> catalog \<Rightarrow> (ident \<times> catalog) option" where
  "enqueue_pipeline d now fresh c = (case latest_job (active_pipeline d) c of
     Some j \<Rightarrow> Some (job_id j, c)
   | None \<Rightarrow> map_option (\<lambda>c'. (fresh, c')) (insert_job
       \<lparr>job_id = fresh, job_state = QUEUED, job_operation = process_document,
        job_document = Some d, job_artifact = None, job_stage = Some ''ACCEPTED'',
        job_progress = 0, job_error = None, job_cancel = False, job_created = now,
        job_updated = now\<rparr> c))"

definition enqueue_preparation ::
  "ident \<Rightarrow> ident \<Rightarrow> seconds \<Rightarrow> ident \<Rightarrow> catalog \<Rightarrow> (ident \<times> catalog) option" where
  "enqueue_preparation d a now fresh c = map_option (\<lambda>c'. (fresh, c')) (insert_job
     \<lparr>job_id = fresh, job_state = QUEUED, job_operation = prepare_document,
      job_document = Some d, job_artifact = Some a, job_stage = Some ''ACCEPTED'',
      job_progress = 0, job_error = None, job_cancel = False, job_created = now,
      job_updated = now\<rparr> c)"

definition enqueue_skeleton ::
  "string \<Rightarrow> seconds \<Rightarrow> ident \<Rightarrow> catalog \<Rightarrow> (ident \<times> catalog) option" where
  "enqueue_skeleton op now fresh c = map_option (\<lambda>c'. (fresh, c')) (insert_job
     \<lparr>job_id = fresh, job_state = QUEUED, job_operation = op, job_document = None,
      job_artifact = None, job_stage = None, job_progress = 0, job_error = None,
      job_cancel = False, job_created = now, job_updated = now\<rparr> c)"

definition get_job :: "catalog \<Rightarrow> ident \<Rightarrow> local_job option" where
  "get_job c jid = find (\<lambda>j. job_id j = jid) (cat_jobs c)"

definition latest_for_document :: "catalog \<Rightarrow> ident \<Rightarrow> local_job option" where
  "latest_for_document c d = latest_job (\<lambda>j. job_document j = Some d) c"

definition update_job ::
  "ident \<Rightarrow> job_state \<Rightarrow> string \<Rightarrow> int \<Rightarrow> string option \<Rightarrow> seconds \<Rightarrow> catalog \<Rightarrow> catalog" where
  "update_job jid st stage progress err now =
     update_jobs (\<lambda>j. job_id j = jid)
       (\<lambda>j. j\<lparr>job_state := st, job_stage := Some stage,
              job_progress := max 0 (min 100 progress), job_error := err, job_updated := now\<rparr>)"

definition attach_artifact :: "ident \<Rightarrow> ident \<Rightarrow> seconds \<Rightarrow> catalog \<Rightarrow> catalog" where
  "attach_artifact jid a now =
     update_jobs (\<lambda>j. job_id j = jid) (\<lambda>j. j\<lparr>job_artifact := Some a, job_updated := now\<rparr>)"

definition claimed_stage :: "string option \<Rightarrow> string option" where
  "claimed_stage s = (if s = Some ''RECOVERING'' then Some ''RECOVERING'' else Some ''STARTING'')"

text \<open>
  \<open>claim_next_pipeline\<close>: one immediate transaction selects the oldest queued pipeline and moves
  it to RUNNING, guarded again by \<open>state='QUEUED'\<close> and the row count. The returned job is the
  selected row with the new state and stage, not re-read (its \<open>updated_at\<close> is the old one).
\<close>

definition claim_next_pipeline :: "seconds \<Rightarrow> catalog \<Rightarrow> local_job option \<times> catalog" where
  "claim_next_pipeline now c =
     (case sort_key job_created (filter (\<lambda>j. job_state j = QUEUED \<and>
             job_operation j = process_document) (cat_jobs c)) of
        [] \<Rightarrow> (None, c)
      | j # _ \<Rightarrow>
          (let hit = (\<lambda>r. job_id r = job_id j \<and> job_state r = QUEUED) in
           if count_where hit (cat_jobs c) \<noteq> 1 then (None, c)
           else (Some (j\<lparr>job_state := RUNNING, job_stage := claimed_stage (job_stage j)\<rparr>),
                 update_jobs hit (\<lambda>r. r\<lparr>job_state := RUNNING,
                   job_stage := claimed_stage (job_stage r), job_updated := now\<rparr>) c)))"

definition cancellable :: "local_job \<Rightarrow> bool" where
  "cancellable j \<longleftrightarrow> job_state j \<in> {QUEUED, RUNNING}"

definition mark_cancel :: "seconds \<Rightarrow> local_job \<Rightarrow> local_job" where
  "mark_cancel now j = j\<lparr>job_state := CANCEL_REQUESTED, job_cancel := True, job_updated := now\<rparr>"

definition request_cancel :: "ident \<Rightarrow> seconds \<Rightarrow> catalog \<Rightarrow> bool \<times> catalog" where
  "request_cancel jid now c =
     (let hit = (\<lambda>j. job_id j = jid \<and> cancellable j) in
      (count_where hit (cat_jobs c) = 1, update_jobs hit (mark_cancel now) c))"

definition is_cancel_requested :: "catalog \<Rightarrow> ident \<Rightarrow> bool" where
  "is_cancel_requested c jid = (case get_job c jid of None \<Rightarrow> False | Some j \<Rightarrow> job_cancel j)"

definition cancel_for_document :: "ident \<Rightarrow> seconds \<Rightarrow> catalog \<Rightarrow> nat \<times> catalog" where
  "cancel_for_document d now c =
     (let hit = (\<lambda>j. job_document j = Some d \<and> cancellable j) in
      (count_where hit (cat_jobs c), update_jobs hit (mark_cancel now) c))"

definition interrupted :: "local_job \<Rightarrow> bool" where
  "interrupted j \<longleftrightarrow> job_state j \<in> {RUNNING, CANCEL_REQUESTED}"

text \<open>\<open>reconcile_interrupted\<close>: the three updates in order, each counting the rows it changed.\<close>

definition reconcile_cancelled :: "seconds \<Rightarrow> catalog \<Rightarrow> nat \<times> catalog" where
  "reconcile_cancelled now c =
     (let hit = (\<lambda>j. job_operation j = process_document \<and> interrupted j \<and> job_cancel j) in
      (count_where hit (cat_jobs c), update_jobs hit (\<lambda>j. j\<lparr>job_state := CANCELLED,
         job_stage := Some ''CANCELLED'', job_progress := 100, job_updated := now\<rparr>) c))"

definition reconcile_recoverable :: "seconds \<Rightarrow> catalog \<Rightarrow> nat \<times> catalog" where
  "reconcile_recoverable now c =
     (let hit = (\<lambda>j. job_operation j = process_document \<and> interrupted j \<and> \<not> job_cancel j) in
      (count_where hit (cat_jobs c), update_jobs hit (\<lambda>j. j\<lparr>job_state := QUEUED,
         job_stage := Some ''RECOVERING'', job_error := None, job_cancel := False,
         job_updated := now\<rparr>) c))"

definition reconcile_legacy :: "seconds \<Rightarrow> catalog \<Rightarrow> nat \<times> catalog" where
  "reconcile_legacy now c =
     (let hit = (\<lambda>j. job_operation j \<noteq> process_document \<and> interrupted j) in
      (count_where hit (cat_jobs c), update_jobs hit (\<lambda>j. j\<lparr>job_state := FAILED,
         job_stage := Some ''FAILED_INTERRUPTED'', job_error := Some ''PREPARATION_INTERRUPTED'',
         job_updated := now\<rparr>) c))"

definition reconcile_interrupted :: "seconds \<Rightarrow> catalog \<Rightarrow> nat \<times> catalog" where
  "reconcile_interrupted now c =
     (let (n1, c1) = reconcile_cancelled now c;
          (n2, c2) = reconcile_recoverable now c1;
          (n3, c3) = reconcile_legacy now c2
      in (n1 + n2 + n3, c3))"

section \<open>The queue as a state machine\<close>

text \<open>
  Actions of the processes that share the table. \<open>AUpdate\<close> is the worker reporting on the job it
  is processing: it never touches a job that is already terminal.
\<close>

datatype job_action =
    AEnqueue ident seconds ident
  | APrepare ident ident seconds ident
  | ASkeleton string seconds ident
  | AUpdate ident job_state string int "string option" seconds
  | AAttach ident ident seconds
  | AClaim seconds
  | ACancel ident seconds
  | ACancelDocument ident seconds
  | AReconcile seconds

fun job_step :: "catalog \<Rightarrow> job_action \<Rightarrow> catalog" where
  "job_step c (AEnqueue d now i) = (case enqueue_pipeline d now i c of None \<Rightarrow> c | Some (_, c') \<Rightarrow> c')"
| "job_step c (APrepare d a now i) =
     (case enqueue_preparation d a now i c of None \<Rightarrow> c | Some (_, c') \<Rightarrow> c')"
| "job_step c (ASkeleton op now i) = (if op = process_document then c else
     (case enqueue_skeleton op now i c of None \<Rightarrow> c | Some (_, c') \<Rightarrow> c'))"
| "job_step c (AUpdate jid st stage p e now) =
     (case get_job c jid of
        None \<Rightarrow> c
      | Some j \<Rightarrow> if active_state (job_state j) then update_job jid st stage p e now c else c)"
| "job_step c (AAttach jid a now) = attach_artifact jid a now c"
| "job_step c (AClaim now) = snd (claim_next_pipeline now c)"
| "job_step c (ACancel jid now) = snd (request_cancel jid now c)"
| "job_step c (ACancelDocument d now) = snd (cancel_for_document d now c)"
| "job_step c (AReconcile now) = snd (reconcile_interrupted now c)"

definition queue_inv :: "catalog \<Rightarrow> bool" where
  "queue_inv c \<longleftrightarrow> distinct (map job_id (cat_jobs c))
     \<and> (\<forall>d. count_where (active_pipeline d) (cat_jobs c) \<le> 1)
     \<and> (\<forall>j \<in> set (cat_jobs c). 0 \<le> job_progress j \<and> job_progress j \<le> 100)"

section \<open>Lemmas\<close>

lemma cat_jobs_update_jobs [simp]:
  "cat_jobs (update_jobs P f c) = update_where P f (cat_jobs c)"
  by (simp add: update_jobs_def)

lemma insert_job_SomeD:
  "insert_job j c = Some c' \<Longrightarrow>
     job_id j \<notin> set (map job_id (cat_jobs c)) \<and> cat_jobs c' = cat_jobs c @ [j]"
  by (auto simp: insert_job_def split: if_splits)

lemma latest_job_None: "latest_job P c = None \<longleftrightarrow> (\<forall>j \<in> set (cat_jobs c). \<not> P j)"
proof -
  have "latest_job P c = None \<longleftrightarrow> sort_key (\<lambda>j. - job_created j) (filter P (cat_jobs c)) = []"
    by (auto simp: latest_job_def split: list.splits)
  also have "\<dots> \<longleftrightarrow> set (filter P (cat_jobs c)) = {}"
    by (metis set_empty set_sort)
  finally show ?thesis by auto
qed

lemma sort_key_hd_min:
  assumes "sort_key k xs = y # ys"
  shows "y \<in> set xs" and "\<forall>x \<in> set xs. k y \<le> k x"
proof -
  have s: "set (y # ys) = set xs" using assms by (metis set_sort)
  then show "y \<in> set xs" by auto
  have "sorted (map k (y # ys))" using assms by (metis sorted_sort_key)
  then show "\<forall>x \<in> set xs. k y \<le> k x" using s by auto
qed

lemma latest_job_SomeD:
  assumes "latest_job P c = Some j"
  shows "j \<in> set (cat_jobs c)" and "P j"
    and "\<forall>i \<in> set (cat_jobs c). P i \<longrightarrow> job_created i \<le> job_created j"
proof -
  from assms obtain js where
    "sort_key (\<lambda>j. - job_created j) (filter P (cat_jobs c)) = j # js"
    by (auto simp: latest_job_def split: list.splits)
  from sort_key_hd_min [OF this] show "j \<in> set (cat_jobs c)" and "P j"
    and "\<forall>i \<in> set (cat_jobs c). P i \<longrightarrow> job_created i \<le> job_created j" by auto
qed

lemma count_where_update_le:
  assumes "\<And>r. r \<in> set rows \<Longrightarrow> P r \<Longrightarrow> Q (f r) \<Longrightarrow> Q r"
  shows "count_where Q (update_where P f rows) \<le> count_where Q rows"
  using assms by (induction rows) (auto simp: count_where_def le_SucI)

text \<open>
  A row update keeps the invariant when it keeps identity, never makes a row newly active for a
  document, and leaves progress in range.
\<close>

lemma queue_inv_update:
  assumes "queue_inv c" and "\<And>j. job_id (f j) = job_id j"
    and "\<And>d j. j \<in> set (cat_jobs c) \<Longrightarrow> P j \<Longrightarrow> active_pipeline d (f j) \<Longrightarrow> active_pipeline d j"
    and "\<And>j. 0 \<le> job_progress j \<and> job_progress j \<le> 100 \<Longrightarrow>
           0 \<le> job_progress (f j) \<and> job_progress (f j) \<le> 100"
  shows "queue_inv (update_jobs P f c)"
proof -
  have "count_where (active_pipeline d) (update_where P f (cat_jobs c))
      \<le> count_where (active_pipeline d) (cat_jobs c)" for d
    by (rule count_where_update_le) (rule assms(3))
  then have "count_where (active_pipeline d) (update_where P f (cat_jobs c)) \<le> 1" for d
    using assms(1) le_trans unfolding queue_inv_def by blast
  then show ?thesis
    using assms(1,2,4) by (auto simp: queue_inv_def map_update_where set_update_where)
qed

lemma queue_inv_insert:
  assumes "queue_inv c" and "insert_job j c = Some c'"
    and "0 \<le> job_progress j" and "job_progress j \<le> 100"
    and "\<And>d. active_pipeline d j \<Longrightarrow> \<forall>i \<in> set (cat_jobs c). \<not> active_pipeline d i"
  shows "queue_inv c'"
proof -
  note ins = insert_job_SomeD [OF assms(2)]
  have "count_where (active_pipeline d) (cat_jobs c @ [j]) \<le> 1" for d
  proof (cases "active_pipeline d j")
    case True
    then have "count_where (active_pipeline d) (cat_jobs c) = 0"
      using assms(5) by (simp add: count_where_0)
    then show ?thesis by (simp add: count_where_def)
  next
    case False
    then show ?thesis using assms(1) by (simp add: queue_inv_def count_where_def)
  qed
  then show ?thesis using assms(1,3,4) ins by (auto simp: queue_inv_def)
qed

lemma enqueue_pipeline_inv:
  assumes "queue_inv c" and "enqueue_pipeline d now i c = Some (k, c')"
  shows "queue_inv c'"
proof (cases "latest_job (active_pipeline d) c")
  case None
  then have none: "\<forall>j \<in> set (cat_jobs c). \<not> active_pipeline d j" by (simp add: latest_job_None)
  from None assms(2) show ?thesis
    by (auto simp: enqueue_pipeline_def elim!: queue_inv_insert [OF assms(1)])
      (use none in \<open>auto simp: active_pipeline_def\<close>)
next
  case (Some j)
  then show ?thesis using assms by (simp add: enqueue_pipeline_def)
qed

lemma enqueue_other_inv:
  assumes "queue_inv c" and "insert_job j c = Some c'" and "job_operation j \<noteq> process_document"
    and "job_progress j = 0"
  shows "queue_inv c'"
  by (rule queue_inv_insert [OF assms(1,2)]) (use assms(3,4) in \<open>auto simp: active_pipeline_def\<close>)

lemma prepare_not_process [simp]: "prepare_document \<noteq> process_document"
  by (simp add: prepare_document_def process_document_def)

lemma update_job_inv:
  assumes "queue_inv c" and "get_job c jid = Some j" and "active_state (job_state j)"
  shows "queue_inv (update_job jid st stage p e now c)"
  unfolding update_job_def
proof (rule queue_inv_update [OF assms(1)])
  fix d r
  assume r: "r \<in> set (cat_jobs c)" "job_id r = jid"
    and a: "active_pipeline d (r\<lparr>job_state := st, job_stage := Some stage,
      job_progress := max 0 (min 100 p), job_error := e, job_updated := now\<rparr>)"
  have "find (\<lambda>x. job_id x = job_id r) (cat_jobs c) = Some r"
    using assms(1) r(1) by (intro find_distinct_key) (simp_all add: queue_inv_def)
  then have "r = j" using assms(2) r(2) by (simp add: get_job_def)
  then show "active_pipeline d r" using a assms(3) by (simp add: active_pipeline_def)
qed auto

lemma claim_inv: "queue_inv c \<Longrightarrow> queue_inv (snd (claim_next_pipeline now c))"
  by (auto simp: claim_next_pipeline_def Let_def active_pipeline_def active_state_def
      split: list.splits intro!: queue_inv_update)

lemma request_cancel_inv: "queue_inv c \<Longrightarrow> queue_inv (snd (request_cancel jid now c))"
  by (auto simp: request_cancel_def Let_def mark_cancel_def cancellable_def active_pipeline_def
      active_state_def intro!: queue_inv_update)

lemma cancel_for_document_inv: "queue_inv c \<Longrightarrow> queue_inv (snd (cancel_for_document d now c))"
  by (auto simp: cancel_for_document_def Let_def mark_cancel_def cancellable_def
      active_pipeline_def active_state_def intro!: queue_inv_update)

lemma reconcile_parts_inv:
  "queue_inv c \<Longrightarrow> queue_inv (snd (reconcile_cancelled now c))"
  "queue_inv c \<Longrightarrow> queue_inv (snd (reconcile_recoverable now c))"
  "queue_inv c \<Longrightarrow> queue_inv (snd (reconcile_legacy now c))"
  by (auto simp: reconcile_cancelled_def reconcile_recoverable_def reconcile_legacy_def Let_def
      interrupted_def active_pipeline_def active_state_def intro!: queue_inv_update)

lemma reconcile_inv: "queue_inv c \<Longrightarrow> queue_inv (snd (reconcile_interrupted now c))"
  using reconcile_parts_inv by (simp add: reconcile_interrupted_def case_prod_beta)

lemma attach_artifact_inv: "queue_inv c \<Longrightarrow> queue_inv (attach_artifact jid a now c)"
  by (auto simp: attach_artifact_def active_pipeline_def intro!: queue_inv_update)

lemma job_step_inv: "queue_inv c \<Longrightarrow> queue_inv (job_step c a)"
proof (cases a)
  case (AEnqueue d now i)
  then show "queue_inv c \<Longrightarrow> ?thesis"
    by (auto split: option.splits intro: enqueue_pipeline_inv)
next
  case (APrepare d x now i)
  then show "queue_inv c \<Longrightarrow> ?thesis"
    by (auto simp: enqueue_preparation_def split: option.splits intro: enqueue_other_inv)
next
  case (ASkeleton op now i)
  then show "queue_inv c \<Longrightarrow> ?thesis"
    by (auto simp: enqueue_skeleton_def split: option.splits intro: enqueue_other_inv)
next
  case (AUpdate jid st stage p e now)
  then show "queue_inv c \<Longrightarrow> ?thesis" by (auto split: option.splits intro: update_job_inv)
qed (auto intro: claim_inv request_cancel_inv cancel_for_document_inv reconcile_inv attach_artifact_inv)

interpretation job_queue: transition_invariant job_step queue_inv
  by unfold_locales (rule job_step_inv)

lemma queue_inv_empty: "queue_inv empty_catalog"
  by (simp add: queue_inv_def empty_catalog_def count_where_def)

lemma count_where_id:
  assumes "distinct (map job_id rows)" and "j \<in> set rows" and "P j"
  shows "count_where (\<lambda>r. job_id r = job_id j \<and> P r) rows = 1"
proof -
  have "filter (\<lambda>r. job_id r = job_id j \<and> P r) rows = [j]"
    using assms
  proof (induction rows)
    case (Cons r rows)
    then show ?case by (cases "r = j") (auto simp: filter_empty_conv rev_image_eqI)
  qed simp
  then show ?thesis by (simp add: count_where_def)
qed

lemma get_job_unique:
  assumes "queue_inv c" and "j \<in> set (cat_jobs c)"
  shows "get_job c (job_id j) = Some j"
  using assms by (simp add: get_job_def queue_inv_def find_distinct_key)

lemma get_job_SomeD: "get_job c jid = Some j \<Longrightarrow> job_id j = jid \<and> j \<in> set (cat_jobs c)"
  by (auto simp: get_job_def dest: find_SomeD)

lemma get_job_update [table_simps]:
  assumes "\<And>j. job_id (f j) = job_id j"
  shows "get_job (update_jobs P f c) jid = map_option (\<lambda>j. if P j then f j else j) (get_job c jid)"
  using assms by (simp add: get_job_def find_update_where)

lemma get_job_insert:
  assumes "insert_job i c = Some c'" and "get_job c jid = Some j"
  shows "get_job c' jid = Some j"
proof -
  have "find P (xs @ ys) = Some x" if "find P xs = Some x" for P xs ys and x :: local_job
    using that by (induction xs) auto
  then show ?thesis using assms by (auto simp: get_job_def dest!: insert_job_SomeD)
qed

text \<open>The claim, once the oldest queued pipeline is known.\<close>

lemma claim_next_cases:
  assumes "queue_inv c"
  shows "(\<forall>j \<in> set (cat_jobs c). \<not> (job_state j = QUEUED \<and> job_operation j = process_document))
       \<and> claim_next_pipeline now c = (None, c)
    \<or> (\<exists>j \<in> set (cat_jobs c). job_state j = QUEUED \<and> job_operation j = process_document
       \<and> (\<forall>i \<in> set (cat_jobs c). job_state i = QUEUED \<and> job_operation i = process_document
             \<longrightarrow> job_created j \<le> job_created i)
       \<and> claim_next_pipeline now c =
           (Some (j\<lparr>job_state := RUNNING, job_stage := claimed_stage (job_stage j)\<rparr>),
            update_jobs (\<lambda>r. job_id r = job_id j \<and> job_state r = QUEUED)
              (\<lambda>r. r\<lparr>job_state := RUNNING, job_stage := claimed_stage (job_stage r),
                     job_updated := now\<rparr>) c))"
proof (cases "sort_key job_created (filter (\<lambda>j. job_state j = QUEUED \<and>
             job_operation j = process_document) (cat_jobs c))")
  case Nil
  then have "filter (\<lambda>j. job_state j = QUEUED \<and> job_operation j = process_document) (cat_jobs c) = []"
    by (metis set_empty set_sort)
  then have "\<forall>j \<in> set (cat_jobs c). \<not> (job_state j = QUEUED \<and> job_operation j = process_document)"
    by (simp add: filter_empty_conv)
  with Nil show ?thesis by (simp add: claim_next_pipeline_def)
next
  case (Cons j js)
  note min = sort_key_hd_min [OF Cons]
  have "count_where (\<lambda>r. job_id r = job_id j \<and> job_state r = QUEUED) (cat_jobs c) = 1"
    using assms min(1) by (intro count_where_id) (auto simp: queue_inv_def)
  then have "claim_next_pipeline now c =
     (Some (j\<lparr>job_state := RUNNING, job_stage := claimed_stage (job_stage j)\<rparr>),
      update_jobs (\<lambda>r. job_id r = job_id j \<and> job_state r = QUEUED)
        (\<lambda>r. r\<lparr>job_state := RUNNING, job_stage := claimed_stage (job_stage r),
               job_updated := now\<rparr>) c)"
    by (simp add: claim_next_pipeline_def Cons)
  with min show ?thesis by (intro disjI2 bexI [of _ j]) auto
qed

text \<open>What a restart makes of one row.\<close>

definition reconciled :: "seconds \<Rightarrow> local_job \<Rightarrow> local_job" where
  "reconciled now j =
     (if \<not> interrupted j then j
      else if job_operation j \<noteq> process_document
      then j\<lparr>job_state := FAILED, job_stage := Some ''FAILED_INTERRUPTED'',
             job_error := Some ''PREPARATION_INTERRUPTED'', job_updated := now\<rparr>
      else if job_cancel j
      then j\<lparr>job_state := CANCELLED, job_stage := Some ''CANCELLED'', job_progress := 100,
             job_updated := now\<rparr>
      else j\<lparr>job_state := QUEUED, job_stage := Some ''RECOVERING'', job_error := None,
             job_cancel := False, job_updated := now\<rparr>)"

lemma count_where_split:
  assumes "\<And>r. r \<in> set rows \<Longrightarrow> P r \<longleftrightarrow> Q1 r \<or> Q2 r" and "\<And>r. \<not> (Q1 r \<and> Q2 r)"
  shows "count_where P rows = count_where Q1 rows + count_where Q2 rows"
  using assms(1) by (induction rows) (use assms(2) in \<open>auto simp: count_where_def\<close>)

lemma count_where_map: "count_where P (map f rows) = count_where (P \<circ> f) rows"
  by (induction rows) (simp_all add: count_where_def)

lemma count_where_interrupted:
  "count_where interrupted rows =
      count_where (\<lambda>j. job_operation j = process_document \<and> interrupted j \<and> job_cancel j) rows
    + count_where (\<lambda>j. job_operation j = process_document \<and> interrupted j \<and> \<not> job_cancel j) rows
    + count_where (\<lambda>j. job_operation j \<noteq> process_document \<and> interrupted j) rows"
  by (induction rows) (auto simp: count_where_def)

lemma count_where_update_other:
  assumes "\<And>r. P r \<Longrightarrow> Q (f r) = Q r"
  shows "count_where Q (update_where P f rows) = count_where Q rows"
  using assms by (induction rows) (auto simp: count_where_def)

lemma update_where_twice:
  "update_where P f (update_where Q g rows) =
     map (\<lambda>r. let r' = (if Q r then g r else r) in if P r' then f r' else r') rows"
  by (simp add: update_where_def Let_def)

lemma update_where_map:
  "update_where P f (map g rows) = map (\<lambda>r. if P (g r) then f (g r) else g r) rows"
  by (simp add: update_where_def)

lemma reconcile_interrupted_eq:
  "reconcile_interrupted now c =
     (count_where interrupted (cat_jobs c), c\<lparr>cat_jobs := map (reconciled now) (cat_jobs c)\<rparr>)"
proof -
  obtain n1 c1 where 1: "reconcile_cancelled now c = (n1, c1)" by fastforce
  obtain n2 c2 where 2: "reconcile_recoverable now c1 = (n2, c2)" by fastforce
  obtain n3 c3 where 3: "reconcile_legacy now c2 = (n3, c3)" by fastforce
  note defs = reconcile_cancelled_def reconcile_recoverable_def reconcile_legacy_def Let_def
  have "n2 = count_where (\<lambda>j. job_operation j = process_document \<and> interrupted j \<and> \<not> job_cancel j)
      (cat_jobs c)"
    using 1 2 by (auto simp: defs interrupted_def intro!: count_where_update_other)
  moreover have "n3 = count_where (\<lambda>j. job_operation j \<noteq> process_document \<and> interrupted j) (cat_jobs c1)"
    using 2 3 by (auto simp: defs interrupted_def intro!: count_where_update_other)
  moreover have "count_where (\<lambda>j. job_operation j \<noteq> process_document \<and> interrupted j) (cat_jobs c1)
      = count_where (\<lambda>j. job_operation j \<noteq> process_document \<and> interrupted j) (cat_jobs c)"
    using 1 by (auto simp: defs intro!: count_where_update_other)
  moreover have "n1 = count_where (\<lambda>j. job_operation j = process_document \<and> interrupted j \<and> job_cancel j)
      (cat_jobs c)"
    using 1 by (auto simp: defs)
  moreover have "c3 = c\<lparr>cat_jobs := map (reconciled now) (cat_jobs c)\<rparr>"
    using 1 2 3 by (auto simp: defs update_jobs_def update_where_def interrupted_def reconciled_def)
  ultimately show ?thesis
    by (simp add: reconcile_interrupted_def 1 2 3 count_where_interrupted)
qed

lemma reconciled_not_interrupted: "\<not> interrupted (reconciled now j)"
  by (simp add: reconciled_def interrupted_def)

text \<open>
  A queued pipeline whose cancellation was requested. Only a restart or a report by a worker that
  holds the job can move it, and no worker ever gets hold of it.
\<close>

definition cancel_pending :: "ident \<Rightarrow> ident \<Rightarrow> catalog \<Rightarrow> bool" where
  "cancel_pending jid d c \<longleftrightarrow> queue_inv c \<and>
     (case get_job c jid of None \<Rightarrow> False
      | Some j \<Rightarrow> job_state j = CANCEL_REQUESTED \<and> job_operation j = process_document
          \<and> job_document j = Some d \<and> job_cancel j)"

fun leaves_job :: "ident \<Rightarrow> job_action \<Rightarrow> bool" where
  "leaves_job jid (AReconcile _) = False"
| "leaves_job jid (AUpdate k _ _ _ _ _) = (k \<noteq> jid)"
| "leaves_job jid _ = True"

lemma cancel_pending_update:
  assumes "cancel_pending jid d c" and "\<And>j. job_id (f j) = job_id j"
    and "\<And>j. get_job c jid = Some j \<Longrightarrow> P j \<Longrightarrow> job_state (f j) = job_state j
           \<and> job_operation (f j) = job_operation j \<and> job_document (f j) = job_document j
           \<and> job_cancel (f j) = job_cancel j"
    and "queue_inv (update_jobs P f c)"
  shows "cancel_pending jid d (update_jobs P f c)"
  using assms by (cases "get_job c jid") (auto simp: cancel_pending_def get_job_update)

lemma cancel_pending_insert:
  assumes "cancel_pending jid d c" and "insert_job i c = Some c'" and "queue_inv c'"
  shows "cancel_pending jid d c'"
  using assms by (cases "get_job c jid") (auto simp: cancel_pending_def dest: get_job_insert)

lemma cancel_pending_step:
  assumes "cancel_pending jid d c" and "leaves_job jid a"
  shows "cancel_pending jid d (job_step c a)"
proof -
  have inv: "queue_inv c" using assms(1) by (simp add: cancel_pending_def)
  have inv': "queue_inv (job_step c a)" by (rule job_step_inv [OF inv])
  obtain j where j: "get_job c jid = Some j" "job_state j = CANCEL_REQUESTED"
    using assms(1) by (auto simp: cancel_pending_def split: option.splits)
  show ?thesis
  proof (cases a)
    case (AEnqueue d' now i)
    then show ?thesis using assms(1) inv'
      by (auto simp: enqueue_pipeline_def split: option.splits intro: cancel_pending_insert)
  next
    case (APrepare d' x now i)
    then show ?thesis using assms(1) inv'
      by (auto simp: enqueue_preparation_def split: option.splits intro: cancel_pending_insert)
  next
    case (ASkeleton op now i)
    then show ?thesis using assms(1) inv'
      by (auto simp: enqueue_skeleton_def split: option.splits intro: cancel_pending_insert)
  next
    case (AUpdate k st stage p e now)
    then show ?thesis using assms inv'
      by (auto simp: update_job_def split: option.splits intro!: cancel_pending_update
          dest: get_job_SomeD)
  next
    case (AAttach k x now)
    then show ?thesis using assms(1) inv'
      by (auto simp: attach_artifact_def intro!: cancel_pending_update)
  next
    case (AClaim now)
    show ?thesis
      using claim_next_cases [OF inv, of now] assms(1) inv' j
      by (auto simp: AClaim intro!: cancel_pending_update)
  next
    case (ACancel k now)
    then show ?thesis using assms(1) inv' j
      by (auto simp: request_cancel_def Let_def cancellable_def intro!: cancel_pending_update)
        (auto simp: mark_cancel_def)
  next
    case (ACancelDocument d' now)
    then show ?thesis using assms(1) inv' j
      by (auto simp: cancel_for_document_def Let_def cancellable_def intro!: cancel_pending_update)
        (auto simp: mark_cancel_def)
  qed (use assms(2) in simp)
qed

lemma cancel_pending_run:
  "cancel_pending jid d c \<Longrightarrow> \<forall>a \<in> set as. leaves_job jid a \<Longrightarrow>
     cancel_pending jid d (foldl job_step c as)"
  by (induction as arbitrary: c) (auto intro: cancel_pending_step)

lemma latest_unique:
  assumes "queue_inv c" and "j \<in> set (cat_jobs c)" and "active_pipeline d j"
  shows "latest_job (active_pipeline d) c = Some j"
proof -
  have "count_where (active_pipeline d) (cat_jobs c) \<le> 1"
    using assms(1) by (simp add: queue_inv_def)
  moreover have "j \<in> set (filter (active_pipeline d) (cat_jobs c))" using assms(2,3) by simp
  ultimately have "filter (active_pipeline d) (cat_jobs c) = [j]"
    by (cases "filter (active_pipeline d) (cat_jobs c)") (auto simp: count_where_def)
  then show ?thesis by (simp add: latest_job_def)
qed

lemma enqueue_pending:
  assumes "cancel_pending jid d c"
  shows "enqueue_pipeline d now i c = Some (jid, c)"
proof -
  obtain j where j: "get_job c jid = Some j" "active_pipeline d j" "queue_inv c"
    using assms by (auto simp: cancel_pending_def active_pipeline_def active_state_def
        split: option.splits)
  from get_job_SomeD [OF j(1)] latest_unique [OF j(3) _ j(2)]
  show ?thesis by (simp add: enqueue_pipeline_def)
qed

lemma claim_not_pending:
  assumes "cancel_pending jid d c" and "fst (claim_next_pipeline now c) = Some j"
  shows "job_id j \<noteq> jid"
proof -
  have inv: "queue_inv c" using assms(1) by (simp add: cancel_pending_def)
  show ?thesis
    using claim_next_cases [OF inv, of now] assms get_job_unique [OF inv]
    by (auto simp: cancel_pending_def)
qed

section \<open>Properties\<close>


text \<open>
  Claiming is oldest first and touches one row: the claimed job was a queued pipeline no
  younger than any other, it is RUNNING afterwards, and every other row is as it was. Nothing is
  claimed only when no pipeline is queued.
\<close>

theorem claim_oldest:
  assumes "queue_inv c" and "claim_next_pipeline now c = (r, c')"
  shows "case r of
      None \<Rightarrow> c' = c \<and> (\<forall>j \<in> set (cat_jobs c). \<not> (job_state j = QUEUED \<and> job_operation j = process_document))
    | Some j \<Rightarrow> (\<exists>j0. get_job c (job_id j) = Some j0 \<and> job_state j0 = QUEUED
        \<and> job_operation j0 = process_document
        \<and> (\<forall>i \<in> set (cat_jobs c). job_state i = QUEUED \<and> job_operation i = process_document
             \<longrightarrow> job_created j0 \<le> job_created i)
        \<and> job_state j = RUNNING \<and> get_job c' (job_id j) = Some (j\<lparr>job_updated := now\<rparr>)
        \<and> (\<forall>k. k \<noteq> job_id j \<longrightarrow> get_job c' k = get_job c k))"
  using claim_next_cases [OF assms(1), of now]
proof (elim disjE bexE conjE)
  fix j
  assume j: "j \<in> set (cat_jobs c)" "job_state j = QUEUED" "job_operation j = process_document"
    and old: "\<forall>i \<in> set (cat_jobs c). job_state i = QUEUED \<and> job_operation i = process_document
             \<longrightarrow> job_created j \<le> job_created i"
    and eq: "claim_next_pipeline now c =
           (Some (j\<lparr>job_state := RUNNING, job_stage := claimed_stage (job_stage j)\<rparr>),
            update_jobs (\<lambda>r. job_id r = job_id j \<and> job_state r = QUEUED)
              (\<lambda>r. r\<lparr>job_state := RUNNING, job_stage := claimed_stage (job_stage r),
                     job_updated := now\<rparr>) c)"
  have g: "get_job c (job_id j) = Some j" by (rule get_job_unique [OF assms(1) j(1)])
  have other: "get_job (update_jobs (\<lambda>r. job_id r = job_id j \<and> job_state r = QUEUED) f c) k
      = get_job c k" if "k \<noteq> job_id j" and "\<And>r. job_id (f r) = job_id r" for k f
    using that by (cases "get_job c k") (auto simp: get_job_update dest: get_job_SomeD)
  show ?thesis
    using assms(2) j old g other by (auto simp: eq get_job_update)
qed (use assms(2) in auto)

definition sample_queue :: catalog where
  "sample_queue = foldl job_step empty_catalog
     [AEnqueue ''d1'' 10 ''j1'', AEnqueue ''d2'' 12 ''j2'', ASkeleton ''INDEX_DOCUMENT'' 13 ''j3'']"

lemma sample_queue_inv: "queue_inv sample_queue"
  unfolding sample_queue_def by (rule job_queue.run_inv [OF queue_inv_empty])

lemma sample_claim: "map_option job_id (fst (claim_next_pipeline 20 sample_queue)) = Some ''j1''"
  by code_simp

theorem claim_oldest_witness:
  "\<exists>j. fst (claim_next_pipeline 20 sample_queue) = Some j \<and> job_id j = ''j1'' \<and> job_state j = RUNNING"
  using claim_oldest [OF sample_queue_inv prod.collapse [symmetric], of 20] sample_claim
  by (auto split: option.splits)

text \<open>
  C38. A restart resolves every interrupted job and says how many there were: each row is treated
  by one rule (legacy jobs fail, cancelled pipelines end cancelled, the other pipelines go back to
  the queue), the rows that were not in flight are untouched, none is left in flight, and a second
  reconciliation finds nothing to do.
\<close>

theorem reconcile_resolves:
  "let (n, c') = reconcile_interrupted now c in
     n = count_where interrupted (cat_jobs c)
   \<and> cat_jobs c' = map (reconciled now) (cat_jobs c)
   \<and> (\<forall>j \<in> set (cat_jobs c'). job_state j \<noteq> RUNNING \<and> job_state j \<noteq> CANCEL_REQUESTED)
   \<and> reconcile_interrupted later c' = (0, c')"
proof -
  have "count_where interrupted (map (reconciled now) (cat_jobs c)) = 0"
    by (simp add: count_where_0 reconciled_not_interrupted)
  moreover have "map (reconciled later) (map (reconciled now) (cat_jobs c))
      = map (reconciled now) (cat_jobs c)"
    by (simp add: reconciled_not_interrupted reconciled_def [of later])
  moreover have "job_state (reconciled now j) \<noteq> RUNNING \<and> job_state (reconciled now j) \<noteq> CANCEL_REQUESTED" for j
    using reconciled_not_interrupted [of now j] by (simp add: interrupted_def)
  ultimately show ?thesis by (simp add: reconcile_interrupted_eq)
qed

theorem reconcile_resolves_witness:
  "\<exists>c' n. reconcile_interrupted 40 (snd (claim_next_pipeline 20 sample_queue)) = (n, c')
     \<and> reconcile_interrupted 50 c' = (0, c')"
  using reconcile_resolves [of 40 "snd (claim_next_pipeline 20 sample_queue)" 50]
  by (cases "reconcile_interrupted 40 (snd (claim_next_pipeline 20 sample_queue))") auto

text \<open>
  Enqueueing is idempotent while the pipeline is live: a second request for the document, at
  any later time, returns the first job and writes nothing.
\<close>

theorem enqueue_idempotent:
  assumes "queue_inv c" and "enqueue_pipeline d now i c = Some (k, c')"
  shows "enqueue_pipeline d now' i' c' = Some (k, c')"
proof (cases "latest_job (active_pipeline d) c")
  case (Some j)
  then show ?thesis using assms(2) by (simp add: enqueue_pipeline_def)
next
  case None
  define row where "row = \<lparr>job_id = i, job_state = QUEUED, job_operation = process_document,
        job_document = Some d, job_artifact = None, job_stage = Some ''ACCEPTED'',
        job_progress = 0, job_error = None, job_cancel = False, job_created = now,
        job_updated = now\<rparr>"
  have ins: "insert_job row c = Some c'" and k: "k = i"
    using None assms(2) by (auto simp: enqueue_pipeline_def row_def)
  have "row \<in> set (cat_jobs c')" using insert_job_SomeD [OF ins] by simp
  moreover have "active_pipeline d row"
    by (simp add: row_def active_pipeline_def active_state_def)
  ultimately have "latest_job (active_pipeline d) c' = Some row"
    by (intro latest_unique enqueue_pipeline_inv [OF assms])
  then show ?thesis by (simp add: enqueue_pipeline_def row_def k)
qed

theorem enqueue_idempotent_witness:
  "\<exists>c'. enqueue_pipeline ''d9'' 30 ''j9'' sample_queue = Some (''j9'', c')
     \<and> enqueue_pipeline ''d9'' 45 ''j10'' c' = Some (''j9'', c')"
proof -
  have "map_option fst (enqueue_pipeline ''d9'' 30 ''j9'' sample_queue) = Some ''j9''" by code_simp
  then obtain c' where e: "enqueue_pipeline ''d9'' 30 ''j9'' sample_queue = Some (''j9'', c')" by auto
  with enqueue_idempotent [OF sample_queue_inv e, of 45 "''j10''"] show ?thesis by blast
qed

text \<open>
  C39. A cancelled job that was still queued is stranded until the next restart. After
  \<open>request_cancel\<close> on a queued pipeline, no later traffic on the queue short of a restart (or a
  report by a worker holding the job, which cannot happen since it is never claimed) takes the job
  out of CANCEL_REQUESTED, and every new request to process the document is answered with this
  dead job instead of a new one.
\<close>

theorem queued_cancel_strands:
  assumes "queue_inv c" and "get_job c jid = Some j" and "job_state j = QUEUED"
    and "job_operation j = process_document" and "job_document j = Some d"
    and "\<forall>a \<in> set as. leaves_job jid a"
  shows "let c1 = snd (request_cancel jid now c); c2 = foldl job_step c1 as in
      map_option job_state (get_job c2 jid) = Some CANCEL_REQUESTED
    \<and> (\<forall>t. case fst (claim_next_pipeline t c2) of None \<Rightarrow> True | Some k \<Rightarrow> job_id k \<noteq> jid)
    \<and> (\<forall>t i. enqueue_pipeline d t i c2 = Some (jid, c2))"
proof -
  have "cancel_pending jid d (snd (request_cancel jid now c))"
    using assms(1-5) get_job_SomeD [OF assms(2)] request_cancel_inv [OF assms(1), of jid now]
    by (auto simp: cancel_pending_def request_cancel_def Let_def get_job_update cancellable_def
        mark_cancel_def)
  from cancel_pending_run [OF this assms(6)]
  have pending: "cancel_pending jid d (foldl job_step (snd (request_cancel jid now c)) as)" .
  then show ?thesis
    using enqueue_pending [OF pending] claim_not_pending [OF pending]
    by (auto simp: Let_def cancel_pending_def split: option.splits)
qed

lemma sample_job: "get_job sample_queue ''j1'' \<noteq> None"
    "map_option job_state (get_job sample_queue ''j1'') = Some QUEUED"
    "map_option job_operation (get_job sample_queue ''j1'') = Some process_document"
    "map_option job_document (get_job sample_queue ''j1'') = Some (Some ''d1'')"
  by code_simp+

theorem queued_cancel_strands_witness:
  "enqueue_pipeline ''d1'' 90 ''j9''
      (foldl job_step (snd (request_cancel ''j1'' 20 sample_queue)) [AClaim 30, AClaim 40])
    = Some (''j1'', foldl job_step (snd (request_cancel ''j1'' 20 sample_queue)) [AClaim 30, AClaim 40])"
proof -
  obtain j where j: "get_job sample_queue ''j1'' = Some j" using sample_job(1) by blast
  show ?thesis
    using queued_cancel_strands [OF sample_queue_inv j, of "''d1''" "[AClaim 30, AClaim 40]" 20]
      sample_job(2-4) j by (simp add: Let_def del: foldl_Cons)
qed

end
