(* ===== verification/Sessions.thy ===== *)
theory Sessions
  imports Errors
begin

text \<open>
  Memory-only browser sessions and the per-request proof (\<open>app/local_compute/sessions.py\<close>):
  \<open>LocalSession\<close>, \<open>LocalSessionManager\<close> and the request transcript. The lock makes \<open>validate\<close> one
  step. SHA-256 and HMAC-SHA-256 (as hex strings) are the parameters \<open>sha\<close> and \<open>hmac\<close>; the clock
  and the random session id and key are arguments.
\<close>

section \<open>State\<close>

record local_session =
  ls_id :: ident
  ls_key :: string
  ls_origin :: string
  ls_expires :: seconds
  ls_nonces :: "(string \<times> seconds) list"
  ls_user :: "ident option"
  ls_device :: "ident option"
  ls_epoch :: "int option"
  ls_generation :: "ident option"
  ls_browser_nonce :: "string option"
  ls_operations :: "string list"

record session_manager =
  sm_session_lifetime :: seconds
  sm_nonce_lifetime :: seconds
  sm_sessions :: "(ident \<times> local_session) list"
  sm_revoked :: bool

definition new_manager :: "seconds \<Rightarrow> seconds \<Rightarrow> session_manager" where
  "new_manager session_lifetime nonce_lifetime =
     \<lparr>sm_session_lifetime = session_lifetime, sm_nonce_lifetime = nonce_lifetime,
      sm_sessions = [], sm_revoked = False\<rparr>"

record request =
  rq_method :: string
  rq_path :: string
  rq_body :: string
  rq_origin :: "string option"
  rq_headers :: "(string \<times> string) list"

definition header :: "request \<Rightarrow> string \<Rightarrow> string option" where
  "header r k = map_of (rq_headers r) k"

section \<open>The request proof\<close>

definition canonical_request_transcript ::
  "(string \<Rightarrow> string) \<Rightarrow> string \<Rightarrow> string \<Rightarrow> string \<Rightarrow> string \<Rightarrow> string \<Rightarrow> string" where
  "canonical_request_transcript sha method path ts nonce body =
     join_with ''|'' [map to_upper method, path, ts, nonce, sha body]"

definition request_mac ::
  "(string \<Rightarrow> string) \<Rightarrow> (string \<Rightarrow> string \<Rightarrow> string) \<Rightarrow> string \<Rightarrow> string \<Rightarrow> string \<Rightarrow> string \<Rightarrow>
   string \<Rightarrow> string \<Rightarrow> string" where
  "request_mac sha hmac key method path ts nonce body =
     hmac key (canonical_request_transcript sha method path ts nonce body)"

section \<open>Operations of the manager\<close>

definition create_session ::
  "ident \<Rightarrow> string \<Rightarrow> seconds \<Rightarrow> string \<Rightarrow> ident option \<Rightarrow> ident option \<Rightarrow> int option \<Rightarrow>
   ident option \<Rightarrow> string option \<Rightarrow> string list \<Rightarrow> session_manager \<Rightarrow>
   local_session \<times> session_manager" where
  "create_session sid key now origin user device epoch generation bnonce ops m =
     (let s = \<lparr>ls_id = sid, ls_key = key, ls_origin = origin,
               ls_expires = now + sm_session_lifetime m, ls_nonces = [], ls_user = user,
               ls_device = device, ls_epoch = epoch, ls_generation = generation,
               ls_browser_nonce = bnonce, ls_operations = ops\<rparr>
      in (s, m\<lparr>sm_sessions := AList.update sid s (sm_sessions m)\<rparr>))"

definition revoke_sessions :: "session_manager \<Rightarrow> session_manager" where
  "revoke_sessions m = m\<lparr>sm_revoked := True, sm_sessions := []\<rparr>"

definition invalidate_all :: "session_manager \<Rightarrow> session_manager" where
  "invalidate_all m = m\<lparr>sm_sessions := []\<rparr>"

definition purge_nonces :: "seconds \<Rightarrow> (string \<times> seconds) list \<Rightarrow> (string \<times> seconds) list" where
  "purge_nonces now ns = filter (\<lambda>p. \<not> snd p \<le> now) ns"

definition put_session :: "local_session \<Rightarrow> ident \<Rightarrow> session_manager \<Rightarrow> session_manager" where
  "put_session s sid m = m\<lparr>sm_sessions := AList.update sid s (sm_sessions m)\<rparr>"

definition drop_session :: "ident \<Rightarrow> session_manager \<Rightarrow> session_manager" where
  "drop_session sid m = m\<lparr>sm_sessions := AList.delete sid (sm_sessions m)\<rparr>"

definition operation_refused :: "string option \<Rightarrow> local_session \<Rightarrow> bool" where
  "operation_refused operation s = (case operation of
     None \<Rightarrow> False
   | Some p \<Rightarrow> p \<noteq> [] \<and> ls_operations s \<noteq> [] \<and> p \<notin> set (ls_operations s))"

text \<open>The part of \<open>validate\<close> after the session is found alive and of the right origin.\<close>

definition check_proof ::
  "(string \<Rightarrow> string) \<Rightarrow> (string \<Rightarrow> string \<Rightarrow> string) \<Rightarrow> seconds \<Rightarrow> request \<Rightarrow> string option \<Rightarrow>
   ident \<Rightarrow> string \<Rightarrow> string \<Rightarrow> string \<Rightarrow> local_session \<Rightarrow> session_manager \<Rightarrow>
   (py_exn + local_session) \<times> session_manager" where
  "check_proof sha hmac now r operation sid ts nonce mac s m =
     (let s1 = s\<lparr>ls_nonces := purge_nonces now (ls_nonces s)\<rparr>; m1 = put_session s1 sid m in
      if nonce \<in> set (map fst (ls_nonces s1)) then (Inl (compute_exn REPLAY_DETECTED), m1)
      else case compare_digest mac
          (request_mac sha hmac (ls_key s) (rq_method r) (rq_path r) ts nonce (rq_body r)) of
        None \<Rightarrow> (Inl TypeError, m1)
      | Some ok \<Rightarrow>
          if \<not> ok then (Inl (compute_exn AUTH_INVALID), m1)
          else if operation_refused operation s1
          then (Inl (compute_exn OPERATION_NOT_ALLOWED), m1)
          else (let s2 = s1\<lparr>ls_nonces := AList.update nonce (now + sm_nonce_lifetime m) (ls_nonces s1)\<rparr>
                in (Inr s2, put_session s2 sid m1)))"

definition all_truthy :: "string option list \<Rightarrow> bool" where
  "all_truthy xs \<longleftrightarrow> list_all (\<lambda>x. x \<noteq> None \<and> x \<noteq> Some []) xs"

definition validate_session ::
  "(string \<Rightarrow> string) \<Rightarrow> (string \<Rightarrow> string \<Rightarrow> string) \<Rightarrow> seconds \<Rightarrow> request \<Rightarrow> string option \<Rightarrow>
   session_manager \<Rightarrow> (py_exn + local_session) \<times> session_manager" where
  "validate_session sha hmac now r operation m =
     (if sm_revoked m then (Inl (compute_exn NOT_PAIRED), m)
      else let sid = header r ''X-ZKD-Local-Session''; ts = header r ''X-ZKD-Timestamp'';
               nonce = header r ''X-ZKD-Nonce''; mac = header r ''X-ZKD-MAC'' in
      if \<not> all_truthy [sid, ts, nonce, mac] then (Inl (compute_exn AUTH_REQUIRED), m)
      else case py_int (the ts) of
        None \<Rightarrow> (Inl (compute_exn AUTH_INVALID), m)
      | Some request_time \<Rightarrow>
          if \<bar>now - request_time\<bar> > sm_nonce_lifetime m
          then (Inl (compute_exn SESSION_EXPIRED), m)
          else case map_of (sm_sessions m) (the sid) of
            None \<Rightarrow> (Inl (compute_exn SESSION_EXPIRED), m)
          | Some s \<Rightarrow>
              if ls_expires s \<le> now
              then (Inl (compute_exn SESSION_EXPIRED), drop_session (the sid) m)
              else if rq_origin r \<noteq> Some (ls_origin s) then (Inl (compute_exn AUTH_INVALID), m)
              else check_proof sha hmac now r operation (the sid) (the ts) (the nonce) (the mac) s m)"

section \<open>Nonces as a once-only store\<close>

definition use_nonce ::
  "(string \<times> seconds) list \<Rightarrow> string \<Rightarrow> seconds \<Rightarrow> seconds \<Rightarrow> bool \<times> (string \<times> seconds) list" where
  "use_nonce ns k e now = (let p = purge_nonces now ns in
     if k \<in> set (map fst p) then (False, p) else (True, AList.update k e p))"

definition nonce_held :: "(string \<times> seconds) list \<Rightarrow> string \<Rightarrow> seconds \<Rightarrow> bool" where
  "nonce_held ns k e \<longleftrightarrow> map_of ns k = Some e"

lemma purge_keeps_held:
  "nonce_held ns k e \<Longrightarrow> \<not> e \<le> now \<Longrightarrow> nonce_held (purge_nonces now ns) k e"
  by (induction ns) (auto simp: nonce_held_def purge_nonces_def split: if_splits)

lemma held_in_keys: "nonce_held ns k e \<Longrightarrow> k \<in> set (map fst ns)"
  by (force simp: nonce_held_def dest: map_of_SomeD)

interpretation nonces: once_store use_nonce nonce_held "\<lambda>e n. \<not> e \<le> n"
proof unfold_locales
  fix ns k e n t
  assume "use_nonce ns k e n = (True, t)"
  then show "nonce_held t k e"
    by (auto simp: use_nonce_def nonce_held_def Let_def update_conv' split: if_splits)
next
  fix ns k' e' n b t k e
  assume u: "use_nonce ns k' e' n = (b, t)" and h: "nonce_held ns k e" and l: "\<not> e \<le> n"
  have p: "nonce_held (purge_nonces n ns) k e" by (rule purge_keeps_held [OF h l])
  then have "k \<in> set (map fst (purge_nonces n ns))" by (rule held_in_keys)
  with u p show "nonce_held t k e"
    by (cases "k = k'") (auto simp: use_nonce_def Let_def nonce_held_def update_conv' simp del: set_map
        split: if_splits)
next
  fix ns k e n e'
  assume "nonce_held ns k e" and "\<not> e \<le> n"
  then have "k \<in> set (map fst (purge_nonces n ns))" by (intro held_in_keys purge_keeps_held)
  then show "fst (use_nonce ns k e' n) = False" by (simp add: use_nonce_def Let_def)
qed auto

section \<open>Lemmas\<close>

text \<open>The conditions under which a request is accepted, and the session it leaves.\<close>

definition accepted ::
  "(string \<Rightarrow> string) \<Rightarrow> (string \<Rightarrow> string \<Rightarrow> string) \<Rightarrow> seconds \<Rightarrow> request \<Rightarrow> string option \<Rightarrow>
   session_manager \<Rightarrow> ident \<Rightarrow> string \<Rightarrow> local_session \<Rightarrow> local_session \<Rightarrow> bool" where
  "accepted sha hmac now r operation m sid nonce s s' \<longleftrightarrow>
     \<not> sm_revoked m
   \<and> header r ''X-ZKD-Local-Session'' = Some sid \<and> sid \<noteq> []
   \<and> header r ''X-ZKD-Nonce'' = Some nonce \<and> nonce \<noteq> []
   \<and> (\<exists>ts t mac. header r ''X-ZKD-Timestamp'' = Some ts \<and> ts \<noteq> [] \<and> py_int ts = Some t
        \<and> \<bar>now - t\<bar> \<le> sm_nonce_lifetime m
        \<and> header r ''X-ZKD-MAC'' = Some mac \<and> mac \<noteq> []
        \<and> compare_digest mac (request_mac sha hmac (ls_key s) (rq_method r) (rq_path r) ts nonce
            (rq_body r)) = Some True)
   \<and> map_of (sm_sessions m) sid = Some s \<and> now < ls_expires s
   \<and> rq_origin r = Some (ls_origin s)
   \<and> nonce \<notin> set (map fst (purge_nonces now (ls_nonces s)))
   \<and> \<not> operation_refused operation s
   \<and> s' = s\<lparr>ls_nonces := AList.update nonce (now + sm_nonce_lifetime m)
             (purge_nonces now (ls_nonces s))\<rparr>"

lemma operation_refused_nonces [simp]:
  "operation_refused operation (s\<lparr>ls_nonces := ns\<rparr>) = operation_refused operation s"
  by (simp add: operation_refused_def split: option.splits)

lemma check_proof_Inr:
  "check_proof sha hmac now r operation sid ts nonce mac s m = (Inr s', m') \<longleftrightarrow>
     nonce \<notin> set (map fst (purge_nonces now (ls_nonces s)))
   \<and> compare_digest mac (request_mac sha hmac (ls_key s) (rq_method r) (rq_path r) ts nonce
            (rq_body r)) = Some True
   \<and> \<not> operation_refused operation s
   \<and> s' = s\<lparr>ls_nonces := AList.update nonce (now + sm_nonce_lifetime m)
             (purge_nonces now (ls_nonces s))\<rparr>
   \<and> m' = put_session s' sid (put_session (s\<lparr>ls_nonces := purge_nonces now (ls_nonces s)\<rparr>) sid m)"
  by (cases "compare_digest mac (request_mac sha hmac (ls_key s) (rq_method r) (rq_path r) ts nonce
            (rq_body r))") (auto simp: check_proof_def Let_def)

lemma update_again: "AList.update k v (AList.update k v' xs) = AList.update k v xs"
  by (induction xs) auto

lemma put_session_twice: "put_session s sid (put_session s' sid m) = put_session s sid m"
  by (simp add: put_session_def update_again)

text \<open>Up to the proof check, the request is described by what its headers hold.\<close>

lemma validate_cases:
  obtains (early) e where "validate_session sha hmac now r operation m = (Inl e, m)"
  | (expired) sid s where "map_of (sm_sessions m) sid = Some s" "ls_expires s \<le> now"
      "validate_session sha hmac now r operation m = (Inl (compute_exn SESSION_EXPIRED), drop_session sid m)"
  | (proof_check) sid ts nonce mac t s where "\<not> sm_revoked m"
      "header r ''X-ZKD-Local-Session'' = Some sid" "sid \<noteq> []"
      "header r ''X-ZKD-Timestamp'' = Some ts" "ts \<noteq> []" "py_int ts = Some t"
      "header r ''X-ZKD-Nonce'' = Some nonce" "nonce \<noteq> []"
      "header r ''X-ZKD-MAC'' = Some mac" "mac \<noteq> []" "\<bar>now - t\<bar> \<le> sm_nonce_lifetime m"
      "map_of (sm_sessions m) sid = Some s" "now < ls_expires s" "rq_origin r = Some (ls_origin s)"
      "validate_session sha hmac now r operation m
         = check_proof sha hmac now r operation sid ts nonce mac s m"
proof -
  note v = validate_session_def Let_def
  define truthy where "truthy = all_truthy [header r ''X-ZKD-Local-Session'',
    header r ''X-ZKD-Timestamp'', header r ''X-ZKD-Nonce'', header r ''X-ZKD-MAC'']"
  show thesis
  proof (cases "sm_revoked m \<or> \<not> truthy")
    case True
    then show ?thesis
      using early [of "compute_exn (if sm_revoked m then NOT_PAIRED else AUTH_REQUIRED)"]
      by (auto simp: v truthy_def split: if_splits)
  next
    case False
    then obtain sid ts nonce mac where h: "header r ''X-ZKD-Local-Session'' = Some sid" "sid \<noteq> []"
      "header r ''X-ZKD-Timestamp'' = Some ts" "ts \<noteq> []"
      "header r ''X-ZKD-Nonce'' = Some nonce" "nonce \<noteq> []"
      "header r ''X-ZKD-MAC'' = Some mac" "mac \<noteq> []"
      by (auto simp: truthy_def all_truthy_def)
    have a: "all_truthy [Some sid, Some ts, Some nonce, Some mac]" and nr: "\<not> sm_revoked m"
      using h False by (simp_all add: all_truthy_def)
    note u = validate_session_def [of sha hmac now r operation m, unfolded h Let_def option.sel]
    show ?thesis
    proof (cases "py_int ts")
      case None
      then show ?thesis using a nr by (intro early) (simp add: u)
    next
      case (Some t)
      show ?thesis
      proof (cases "\<bar>now - t\<bar> > sm_nonce_lifetime m")
        case True
        then show ?thesis using a nr Some by (intro early) (simp add: u)
      next
        case inwindow: False
        show ?thesis
        proof (cases "map_of (sm_sessions m) sid")
          case None
          then show ?thesis using a nr Some inwindow by (intro early) (simp add: u)
        next
          case (Some s)
          consider "ls_expires s \<le> now" | "now < ls_expires s" "rq_origin r \<noteq> Some (ls_origin s)"
            | "now < ls_expires s" "rq_origin r = Some (ls_origin s)" by fastforce
          then show ?thesis
          proof cases
            case 1
            then show ?thesis using a nr Some inwindow \<open>py_int ts = Some t\<close>
              by (intro expired [OF Some]) (simp_all add: u)
          next
            case 2
            then show ?thesis using a nr Some inwindow \<open>py_int ts = Some t\<close>
              by (intro early) (simp add: u)
          next
            case 3
            then show ?thesis using a nr Some inwindow \<open>py_int ts = Some t\<close> h
              by (intro proof_check [of sid ts t nonce mac s]) (simp_all add: u)
          qed
        qed
      qed
    qed
  qed
qed

lemma validate_accepted:
  "validate_session sha hmac now r operation m = (Inr s', m') \<longleftrightarrow>
     (\<exists>sid nonce s. accepted sha hmac now r operation m sid nonce s s' \<and> m' = put_session s' sid m)"
  (is "?l \<longleftrightarrow> ?r")
proof
  assume ?l
  then show ?r
  proof (cases rule: validate_cases [of sha hmac now r operation m])
    case (proof_check sid ts nonce mac t s)
    with \<open>?l\<close> show ?thesis
      unfolding accepted_def by (intro exI [of _ sid] exI [of _ nonce] exI [of _ s])
        (simp add: check_proof_Inr put_session_twice)
  qed auto
next
  assume ?r
  then obtain sid nonce s where a: "accepted sha hmac now r operation m sid nonce s s'"
    and m': "m' = put_session s' sid m" by blast
  then show ?l
    by (auto simp: accepted_def validate_session_def Let_def all_truthy_def check_proof_Inr
        put_session_twice)
qed

section \<open>Histories\<close>

datatype session_event =
    ECreate ident string seconds string "ident option" "ident option" "int option"
      "ident option" "string option" "string list"
  | EValidate seconds request "string option"
  | ERevoke
  | EInvalidate

fun session_step ::
  "(string \<Rightarrow> string) \<Rightarrow> (string \<Rightarrow> string \<Rightarrow> string) \<Rightarrow> session_manager \<Rightarrow> session_event \<Rightarrow>
   session_manager" where
  "session_step sha hmac m (ECreate sid key now origin u d e g b ops) =
     snd (create_session sid key now origin u d e g b ops m)"
| "session_step sha hmac m (EValidate now r operation) = snd (validate_session sha hmac now r operation m)"
| "session_step sha hmac m ERevoke = revoke_sessions m"
| "session_step sha hmac m EInvalidate = invalidate_all m"

fun creates :: "ident \<Rightarrow> session_event \<Rightarrow> bool" where
  "creates sid (ECreate i _ _ _ _ _ _ _ _ _) = (i = sid)"
| "creates sid _ = False"

text \<open>The nonce of a session is spent: it is recorded until the session itself has expired.\<close>

definition spent :: "ident \<Rightarrow> string \<Rightarrow> session_manager \<Rightarrow> bool" where
  "spent sid k m \<longleftrightarrow> (case map_of (sm_sessions m) sid of None \<Rightarrow> True
     | Some s \<Rightarrow> \<exists>e. nonce_held (ls_nonces s) k e \<and> ls_expires s \<le> e)"

definition expires_by :: "ident \<Rightarrow> seconds \<Rightarrow> seconds \<Rightarrow> session_manager \<Rightarrow> bool" where
  "expires_by sid b nl m \<longleftrightarrow> sm_nonce_lifetime m = nl
     \<and> (case map_of (sm_sessions m) sid of None \<Rightarrow> True | Some s \<Rightarrow> ls_expires s \<le> b)"

lemma map_of_put [simp]:
  "map_of (sm_sessions (put_session s sid m)) = (map_of (sm_sessions m))(sid \<mapsto> s)"
  by (simp add: put_session_def update_conv')

lemma map_of_drop [simp]:
  "map_of (sm_sessions (drop_session sid m)) = (map_of (sm_sessions m))(sid := None)"
  by (simp add: drop_session_def delete_conv')

lemma nonce_lifetime_put [simp]: "sm_nonce_lifetime (put_session s sid m) = sm_nonce_lifetime m"
  by (simp add: put_session_def)

lemma nonce_lifetime_drop [simp]: "sm_nonce_lifetime (drop_session sid m) = sm_nonce_lifetime m"
  by (simp add: drop_session_def)

lemma check_proof_state:
  "\<exists>ns. snd (check_proof sha hmac now r operation sid ts nonce mac s m) = put_session (s\<lparr>ls_nonces := ns\<rparr>) sid m
     \<and> (ns = purge_nonces now (ls_nonces s)
        \<or> ns = snd (use_nonce (ls_nonces s) nonce (now + sm_nonce_lifetime m) now))"
proof (cases "check_proof sha hmac now r operation sid ts nonce mac s m")
  case (Pair res m')
  show ?thesis
  proof (cases res)
    case (Inl e)
    have "m' = put_session (s\<lparr>ls_nonces := purge_nonces now (ls_nonces s)\<rparr>) sid m"
      using Pair Inl by (auto simp: check_proof_def Let_def simp del: set_map split: if_splits option.splits)
    then show ?thesis using Pair by auto
  next
    case (Inr s')
    let ?p = "purge_nonces now (ls_nonces s)"
    have c: "nonce \<notin> set (map fst ?p)"
      "m' = put_session (s\<lparr>ls_nonces := AList.update nonce (now + sm_nonce_lifetime m) ?p\<rparr>) sid m"
      using Pair Inr by (simp_all add: check_proof_Inr put_session_twice del: set_map)
    then have "snd (use_nonce (ls_nonces s) nonce (now + sm_nonce_lifetime m) now)
        = AList.update nonce (now + sm_nonce_lifetime m) ?p"
      by (simp add: use_nonce_def Let_def del: set_map)
    then show ?thesis using Pair c(2) by (intro exI conjI disjI2) simp_all
  qed
qed

lemma validate_state:
  obtains (same) "snd (validate_session sha hmac now r operation m) = m"
  | (dropped) sid s where "map_of (sm_sessions m) sid = Some s" "ls_expires s \<le> now"
      "snd (validate_session sha hmac now r operation m) = drop_session sid m"
  | (nonces) sid s ns nonce where "map_of (sm_sessions m) sid = Some s" "now < ls_expires s"
      "snd (validate_session sha hmac now r operation m) = put_session (s\<lparr>ls_nonces := ns\<rparr>) sid m"
      "ns = purge_nonces now (ls_nonces s)
        \<or> ns = snd (use_nonce (ls_nonces s) nonce (now + sm_nonce_lifetime m) now)"
proof (cases rule: validate_cases [of sha hmac now r operation m])
  case early
  then show ?thesis by (intro same) simp
next
  case (expired sid s)
  then show ?thesis by (intro dropped) simp_all
next
  case (proof_check sid ts nonce mac t s)
  then show ?thesis
    using check_proof_state [of sha hmac now r operation sid ts nonce mac s m] nonces by auto
qed

lemma held_after_nonces:
  assumes "nonce_held ns k e" and "\<not> e \<le> now"
    and "ns' = purge_nonces now ns \<or> ns' = snd (use_nonce ns nonce x now)"
  shows "nonce_held ns' k e"
  using assms(3)
proof
  assume "ns' = snd (use_nonce ns nonce x now)"
  then show ?thesis using nonces.accept_keeps [OF prod.collapse [symmetric] assms(1,2)] by simp
qed (use assms(1,2) purge_keeps_held in blast)

lemma spent_step:
  assumes "spent sid k m" and "\<not> creates sid ev"
  shows "spent sid k (session_step sha hmac m ev)"
proof (cases ev)
  case (EValidate now r operation)
  show ?thesis
  proof (cases rule: validate_state [of sha hmac now r operation m])
    case (nonces sid' s ns nonce)
    note eq = EValidate session_step.simps nonces(3)
    show ?thesis
    proof (cases "sid' = sid")
      case True
      then obtain e where e: "nonce_held (ls_nonces s) k e" "ls_expires s \<le> e"
        using assms(1) nonces(1) by (auto simp: spent_def)
      then have "nonce_held ns k e"
        using held_after_nonces [OF e(1) _ nonces(4)] nonces(2) by simp
      with e True show ?thesis unfolding eq by (auto simp: spent_def)
    next
      case False
      with assms(1) show ?thesis unfolding eq by (simp add: spent_def)
    qed
  qed (use assms(1) in \<open>simp_all add: EValidate spent_def\<close>)
qed (use assms in \<open>auto simp: spent_def create_session_def Let_def update_conv' revoke_sessions_def
       invalidate_all_def\<close>)

lemma spent_run:
  "spent sid k m \<Longrightarrow> \<forall>ev \<in> set evs. \<not> creates sid ev \<Longrightarrow>
     spent sid k (foldl (session_step sha hmac) m evs)"
  by (induction evs arbitrary: m) (auto intro: spent_step)

lemma spent_refuses:
  assumes "spent sid k m" and "header r ''X-ZKD-Local-Session'' = Some sid"
    and "header r ''X-ZKD-Nonce'' = Some k"
  shows "validate_session sha hmac now r operation m \<noteq> (Inr s', m')"
proof
  assume "validate_session sha hmac now r operation m = (Inr s', m')"
  then obtain s where "map_of (sm_sessions m) sid = Some s" "now < ls_expires s"
    and n: "k \<notin> set (map fst (purge_nonces now (ls_nonces s)))"
    using assms(2,3) by (auto simp: validate_accepted accepted_def)
  then obtain e where "nonce_held (ls_nonces s) k e" "\<not> e \<le> now"
    using assms(1) by (fastforce simp: spent_def)
  from held_in_keys [OF purge_keeps_held [OF this]] n show False by contradiction
qed

lemma expires_by_step:
  assumes "expires_by sid b nl m" and "\<not> creates sid ev"
  shows "expires_by sid b nl (session_step sha hmac m ev)"
proof (cases ev)
  case (EValidate now r operation)
  show ?thesis
  proof (cases rule: validate_state [of sha hmac now r operation m])
    case (nonces sid' s ns nonce)
    note eq = EValidate session_step.simps nonces(3)
    show ?thesis using assms(1) nonces(1) unfolding eq by (auto simp: expires_by_def split: option.splits)
  qed (use assms(1) in \<open>simp_all add: EValidate expires_by_def\<close>)
qed (use assms in \<open>auto simp: expires_by_def create_session_def Let_def update_conv'
       revoke_sessions_def invalidate_all_def split: option.splits\<close>)

lemma expires_by_run:
  "expires_by sid b nl m \<Longrightarrow> \<forall>ev \<in> set evs. \<not> creates sid ev \<Longrightarrow>
     expires_by sid b nl (foldl (session_step sha hmac) m evs)"
  by (induction evs arbitrary: m) (auto intro: expires_by_step)

lemma accepted_spends:
  assumes "validate_session sha hmac now r operation m = (Inr s', m')"
    and "header r ''X-ZKD-Local-Session'' = Some sid" and "header r ''X-ZKD-Nonce'' = Some k"
    and "expires_by sid b nl m" and "b \<le> now + nl"
  shows "spent sid k m'"
  using assms by (auto simp: validate_accepted accepted_def spent_def nonce_held_def expires_by_def
      update_conv')

lemma revoked_run:
  "sm_revoked m \<Longrightarrow> sm_revoked (foldl (session_step sha hmac) m evs)"
proof (induction evs arbitrary: m)
  case (Cons ev evs)
  have "sm_revoked (session_step sha hmac m ev)"
    using Cons.prems by (cases ev)
      (simp_all add: create_session_def Let_def validate_session_def revoke_sessions_def invalidate_all_def)
  then show ?case using Cons.IH by simp
qed simp

section \<open>Properties\<close>


definition sample_hmac :: "string \<Rightarrow> string \<Rightarrow> string" where
  "sample_hmac k t = k @ ''#'' @ t"

definition sample_request :: request where
  "sample_request = \<lparr>rq_method = ''get'', rq_path = ''/v1/jobs'', rq_body = ''b'',
     rq_origin = Some ''https://app'',
     rq_headers = [(''X-ZKD-Local-Session'', ''s1''), (''X-ZKD-Timestamp'', ''100''),
       (''X-ZKD-Nonce'', ''n1''), (''X-ZKD-MAC'', ''key#GET|/v1/jobs|100|n1|b'')]\<rparr>"

definition sample_manager :: "seconds \<Rightarrow> seconds \<Rightarrow> session_manager" where
  "sample_manager sl nl =
     snd (create_session ''s1'' ''key'' 90 ''https://app'' (Some ''u'') (Some ''d'') (Some 1)
       (Some ''g'') None [''jobs''] (new_manager sl nl))"

lemma sample_digest: "compare_digest ''key#GET|/v1/jobs|100|n1|b''
    (request_mac id sample_hmac ''key'' ''get'' ''/v1/jobs'' ''100'' ''n1'' ''b'') = Some True"
  by code_simp

lemma sample_headers:
  "header sample_request ''X-ZKD-Local-Session'' = Some ''s1''"
  "header sample_request ''X-ZKD-Timestamp'' = Some ''100''"
  "header sample_request ''X-ZKD-Nonce'' = Some ''n1''"
  "header sample_request ''X-ZKD-MAC'' = Some ''key#GET|/v1/jobs|100|n1|b''"
  by (simp_all add: sample_request_def header_def)

lemma sample_timestamp: "py_int ''100'' = Some 100"
  by code_simp

lemma sample_accepts:
  assumes "sl > 0" "nl \<ge> 0"
  shows "\<exists>s m. validate_session id sample_hmac 90 sample_request None (sample_manager sl (10 + nl))
     = (Inr s, m)"
proof -
  let ?m = "sample_manager sl (10 + nl)"
  let ?s = "\<lparr>ls_id = ''s1'', ls_key = ''key'', ls_origin = ''https://app'', ls_expires = 90 + sl,
    ls_nonces = [], ls_user = Some ''u'', ls_device = Some ''d'', ls_epoch = Some 1,
    ls_generation = Some ''g'', ls_browser_nonce = None, ls_operations = [''jobs'']\<rparr>"
  have m: "\<not> sm_revoked ?m" "sm_nonce_lifetime ?m = 10 + nl" "map_of (sm_sessions ?m) ''s1'' = Some ?s"
    by (simp_all add: sample_manager_def create_session_def new_manager_def Let_def)
  have r: "rq_method sample_request = ''get''" "rq_path sample_request = ''/v1/jobs''"
    "rq_body sample_request = ''b''" "rq_origin sample_request = Some ''https://app''"
    by (simp_all add: sample_request_def)
  have "accepted id sample_hmac 90 sample_request None ?m ''s1'' ''n1'' ?s
      (?s\<lparr>ls_nonces := AList.update ''n1'' (90 + sm_nonce_lifetime ?m) (purge_nonces 90 (ls_nonces ?s))\<rparr>)"
    unfolding accepted_def
    using sample_headers m r sample_timestamp sample_digest assms
    by (intro conjI exI [of _ "''100''"] exI [of _ 100] exI [of _ "''key#GET|/v1/jobs|100|n1|b''"])
       (simp_all add: purge_nonces_def operation_refused_def)
  then show ?thesis unfolding validate_accepted by blast
qed


text \<open>
  The proviso is needed. When the session outlives a nonce, the very request that was accepted
  at time \<open>n\<close>, with a timestamp not before \<open>n\<close>, is accepted again at \<open>n\<close> plus the nonce lifetime:
  its nonce is purged at that instant while its timestamp is still inside the window. Nothing in the
  settings keeps the session lifetime below the nonce lifetime.
\<close>

theorem replay_window:
  assumes "validate_session sha hmac n r operation m = (Inr s', m')"
    and "header r ''X-ZKD-Local-Session'' = Some sid" and "header r ''X-ZKD-Timestamp'' = Some ts"
    and "py_int ts = Some t" and "n \<le> t"
    and "map_of (sm_sessions m) sid = Some s" and "n + sm_nonce_lifetime m < ls_expires s"
  shows "\<exists>s'' m''. validate_session sha hmac (n + sm_nonce_lifetime m) r operation m' = (Inr s'', m'')"
proof -
  obtain nonce where a: "accepted sha hmac n r operation m sid nonce s s'" and m': "m' = put_session s' sid m"
    using assms(1,2,6) by (auto simp: validate_accepted accepted_def)
  let ?n = "n + sm_nonce_lifetime m"
  have "\<bar>n - t\<bar> \<le> sm_nonce_lifetime m" using a assms(3,4) by (auto simp: accepted_def)
  then have w: "\<bar>?n - t\<bar> \<le> sm_nonce_lifetime m" "n \<le> ?n" using assms(5) by auto
  have s': "s' = s\<lparr>ls_nonces := AList.update nonce ?n (purge_nonces n (ls_nonces s))\<rparr>"
    and fresh: "nonce \<notin> set (map fst (purge_nonces n (ls_nonces s)))"
    using a by (simp_all add: accepted_def del: set_map)
  have u: "AList.update nonce v ns = ns @ [(nonce, v)]" if "nonce \<notin> set (map fst ns)" for ns :: "(string \<times> int) list" and v
    using that by (induction ns) auto
  have "nonce \<notin> set (map fst (purge_nonces ?n (ls_nonces s')))"
    using fresh w(2) by (auto simp: s' u purge_nonces_def)
  moreover have "operation_refused operation s' = operation_refused operation s" by (simp add: s')
  ultimately have "\<exists>s''. accepted sha hmac ?n r operation m' sid nonce s' s''"
    using a w assms(3,4,7) unfolding accepted_def m'
    by (simp add: put_session_def update_conv' s' del: set_map)
  then show ?thesis by (auto simp: validate_accepted)
qed

theorem replay_window_witness:
  "\<exists>s1 m1 s2 m2. validate_session id sample_hmac 90 sample_request None (sample_manager 3600 60) = (Inr s1, m1)
     \<and> validate_session id sample_hmac 150 sample_request None m1 = (Inr s2, m2)"
proof -
  obtain s1 m1 where a: "validate_session id sample_hmac 90 sample_request None (sample_manager 3600 60) = (Inr s1, m1)"
    using sample_accepts [of 3600 50] by auto
  have t: "py_int ''100'' = Some 100" by code_simp
  have "\<exists>s2 m2. validate_session id sample_hmac (90 + sm_nonce_lifetime (sample_manager 3600 60))
      sample_request None m1 = (Inr s2, m2)"
    by (rule replay_window [OF a _ _ t, where s = "snd (hd (sm_sessions (sample_manager 3600 60)))"])
       (simp_all add: sample_request_def header_def sample_manager_def create_session_def
        new_manager_def Let_def)
  moreover have "sm_nonce_lifetime (sample_manager 3600 60) = 60"
    by (simp add: sample_manager_def create_session_def new_manager_def Let_def)
  ultimately show ?thesis using a by auto
qed

lemma join_append: "x @ c # y = x' @ c # y' \<Longrightarrow> c \<notin> set x \<Longrightarrow> c \<notin> set x' \<Longrightarrow> x = x' \<and> y = y'"
proof (induction x arbitrary: x')
  case Nil
  then show ?case by (cases x') auto
next
  case (Cons a x)
  then show ?case by (cases x') auto
qed

lemma join_append_rev: 
  assumes "y @ c # x = y' @ c # x'" "c \<notin> set x" "c \<notin> set x'"
  shows "x = x' \<and> y = y'"
proof -
  have "rev x @ c # rev y = rev x' @ c # rev y'"
    using arg_cong [OF assms(1), of rev] by simp
  from join_append [OF this] assms(2,3) show ?thesis by simp
qed

lemma to_upper_bar: "to_upper c = CHR ''|'' \<Longrightarrow> c = CHR ''|''"
proof (rule ccontr)
  assume u: "to_upper c = CHR ''|''" and n: "c \<noteq> CHR ''|''"
  show False
  proof (cases "97 \<le> (of_char c :: nat) \<and> (of_char c :: nat) \<le> 122")
    case True
    define n where "n = (of_char c :: nat)"
    with True have n: "97 \<le> n" "n \<le> 122" by simp_all
    then have "(of_char (to_upper c) :: nat) = (n - 32) mod 256"
      by (simp add: to_upper_def Let_def n_def [symmetric])
    with n have "(of_char (to_upper c) :: nat) \<le> 90" by simp
    with u show False by simp
  qed (use u n in \<open>auto simp: to_upper_def Let_def\<close>)
qed

text \<open>
  The signed transcript identifies the request: for methods, timestamps and nonces without the
  separator, and digests without it, equal transcripts come from the same method (up to case), path,
  timestamp, nonce and body digest, even when the paths contain the separator.
\<close>

theorem transcript_injective:
  assumes "canonical_request_transcript sha method path ts nonce body
      = canonical_request_transcript sha method' path' ts' nonce' body'"
    and "\<And>b. CHR ''|'' \<notin> set (sha b)"
    and "CHR ''|'' \<notin> set method \<union> set ts \<union> set nonce"
    and "CHR ''|'' \<notin> set method' \<union> set ts' \<union> set nonce'"
  shows "map to_upper method = map to_upper method' \<and> path = path' \<and> ts = ts' \<and> nonce = nonce'
    \<and> sha body = sha body'"
proof -
  let ?c = "CHR ''|''"
  let ?m = "map to_upper method" and ?m' = "map to_upper method'"
  have "?m @ ?c # (((path @ ?c # ts) @ ?c # nonce) @ ?c # sha body)
      = ?m' @ ?c # (((path' @ ?c # ts') @ ?c # nonce') @ ?c # sha body')"
    using assms(1) by (simp add: canonical_request_transcript_def)
  moreover have "?c \<notin> set ?m" "?c \<notin> set ?m'" using assms(3,4) by (force dest: to_upper_bar [OF sym])+
  ultimately have "?m = ?m'" and e: "((path @ ?c # ts) @ ?c # nonce) @ ?c # sha body
      = ((path' @ ?c # ts') @ ?c # nonce') @ ?c # sha body'"
    using join_append by metis+
  note e1 = join_append_rev [OF e assms(2) assms(2)]
  have e2: "nonce = nonce' \<and> path @ ?c # ts = path' @ ?c # ts'"
    by (rule join_append_rev) (use e1 assms(3,4) in auto)
  then have "ts = ts' \<and> path = path'" by (intro join_append_rev) (use assms(3,4) in auto)
  with e1 e2 \<open>?m = ?m'\<close> show ?thesis by simp
qed

theorem transcript_injective_witness:
  "map to_upper ''get'' = map to_upper ''GET'' \<and> ''/a|b'' = ''/a|b'' \<and> ''5'' = ''5'' \<and> ''n'' = ''n''
     \<and> (\<lambda>b. ''h'') ''x'' = (\<lambda>b. ''h'') ''y''"
proof (rule transcript_injective [of "\<lambda>b. ''h''" "''get''" "''/a|b''" "''5''" "''n''" "''x''" "''GET''"
      "''/a|b''" "''5''" "''n''" "''y''"])
  show "canonical_request_transcript (\<lambda>b. ''h'') ''get'' ''/a|b'' ''5'' ''n'' ''x''
      = canonical_request_transcript (\<lambda>b. ''h'') ''GET'' ''/a|b'' ''5'' ''n'' ''y''"
    by code_simp
qed simp_all

text \<open>
  Revocation is final: after \<open>revoke\<close>, no request is accepted in any later state of the manager,
  not even for a session created afterwards; every request is refused with \<open>NOT_PAIRED\<close>.
\<close>

theorem revoked_is_final:
  "fst (validate_session sha hmac now r operation (foldl (session_step sha hmac) (revoke_sessions m) evs))
     = Inl (compute_exn NOT_PAIRED)"
  using revoked_run [of "revoke_sessions m" sha hmac evs]
  by (simp add: validate_session_def revoke_sessions_def)

end
