(* ===== verification/Runtime.thy ===== *)
theory Runtime
  imports Jobs Sessions
begin

text \<open>
  Settings and lifecycle of the local service: \<open>app/local_compute/settings.py\<close> (the fields with a
  checked range, \<open>__post_init__\<close> and \<open>allowed_origins\<close>) and \<open>app/local_compute/runtime.py\<close> (state,
  revocation, update requirement, endpoint generation and the binding of a session to the paired
  device). Floating-point settings are rationals. Directories, logging and the socket are not modelled.
\<close>

section \<open>Settings\<close>

record local_settings =
  cf_bind_host :: string
  cf_bind_port :: int
  cf_production_origin :: string
  cf_development_mode :: bool
  cf_development_origins :: "string list"
  cf_protocol_version :: string
  cf_runtime_version :: string
  cf_request_body_max :: int
  cf_source_pdf_max :: int
  cf_page_chars_max :: int
  cf_document_chars_max :: int
  cf_session_lifetime :: seconds
  cf_nonce_lifetime :: seconds
  cf_max_concurrent_jobs :: int
  cf_indexing_batch_size :: int
  cf_pipeline_poll :: rat
  cf_endpoint_generation :: "ident option"
  cf_context_limit :: int
  cf_context_budget :: int
  cf_max_output :: int
  cf_temperature :: rat
  cf_top_p :: rat
  cf_top_k :: int
  cf_generation_timeout :: rat
  cf_platform_base_url :: string
  cf_heartbeat :: int
  cf_backoff_min :: rat
  cf_backoff_max :: rat
  cf_auto_start :: bool
  cf_platform_key :: string

definition default_settings :: local_settings where
  "default_settings = \<lparr>cf_bind_host = ''127.0.0.1'', cf_bind_port = 0,
     cf_production_origin = ''https://rag.zkd.id.vn'', cf_development_mode = False,
     cf_development_origins = [], cf_protocol_version = ''zkd-compute-v1'',
     cf_runtime_version = ''0.1.0'', cf_request_body_max = 1048576,
     cf_source_pdf_max = 262144000, cf_page_chars_max = 2000000, cf_document_chars_max = 20000000,
     cf_session_lifetime = 300, cf_nonce_lifetime = 600, cf_max_concurrent_jobs = 1,
     cf_indexing_batch_size = 32, cf_pipeline_poll = 1 / 4, cf_endpoint_generation = None,
     cf_context_limit = 32768, cf_context_budget = 4096, cf_max_output = 512, cf_temperature = 0,
     cf_top_p = 9 / 10, cf_top_k = 20, cf_generation_timeout = 180,
     cf_platform_base_url = ''https://rag.zkd.id.vn'', cf_heartbeat = 30, cf_backoff_min = 1,
     cf_backoff_max = 60, cf_auto_start = True, cf_platform_key = []\<rparr>"

text \<open>\<open>__post_init__\<close>: the first violated constraint raises \<open>ValueError\<close> with its label.\<close>

definition settings_error :: "local_settings \<Rightarrow> string option" where
  "settings_error c =
     (if cf_bind_host c \<noteq> ''127.0.0.1'' then Some ''LOCAL_COMPUTE_LOOPBACK_ONLY''
      else if \<not> (0 \<le> cf_bind_port c \<and> cf_bind_port c \<le> 65535) then Some ''LOCAL_COMPUTE_INVALID_PORT''
      else if cf_request_body_max c \<le> 0 \<or> cf_source_pdf_max c \<le> 0 \<or> cf_page_chars_max c \<le> 0
           \<or> cf_document_chars_max c \<le> 0 \<or> cf_session_lifetime c \<le> 0
        then Some ''LOCAL_COMPUTE_INVALID_LIMIT''
      else if cf_page_chars_max c > cf_document_chars_max c then Some ''LOCAL_COMPUTE_INVALID_LIMIT''
      else if cf_nonce_lifetime c \<le> 0 \<or> cf_max_concurrent_jobs c \<le> 0
           \<or> cf_indexing_batch_size c \<le> 0 \<or> cf_pipeline_poll c \<le> 0
        then Some ''LOCAL_COMPUTE_INVALID_LIMIT''
      else if \<not> starts_with ''https://'' (cf_production_origin c)
        then Some ''LOCAL_COMPUTE_INVALID_PRODUCTION_ORIGIN''
      else if \<not> cf_development_mode c \<and> \<not> starts_with ''https://'' (cf_platform_base_url c)
        then Some ''LOCAL_COMPUTE_PLATFORM_HTTPS_REQUIRED''
      else if cf_heartbeat c \<le> 0 \<or> cf_backoff_min c \<le> 0 \<or> cf_backoff_max c < cf_backoff_min c
        then Some ''LOCAL_COMPUTE_INVALID_CONTROL_CADENCE''
      else if cf_context_limit c \<le> 0 \<or> cf_context_budget c \<le> 0 \<or> cf_max_output c \<le> 0
           \<or> cf_generation_timeout c \<le> 0 \<or> cf_top_k c \<le> 0
           \<or> \<not> (0 < cf_top_p c \<and> cf_top_p c \<le> 1)
           \<or> \<not> (0 \<le> cf_temperature c \<and> cf_temperature c \<le> 2)
        then Some ''LOCAL_COMPUTE_INVALID_GENERATION_PROFILE''
      else if \<not> cf_development_mode c \<and> cf_development_origins c \<noteq> []
        then Some ''LOCAL_COMPUTE_DEVELOPMENT_ORIGINS_REQUIRE_DEVELOPMENT_MODE''
      else None)"

definition allowed_origins :: "local_settings \<Rightarrow> string list" where
  "allowed_origins c = (if cf_development_mode c
     then cf_production_origin c # cf_development_origins c else [cf_production_origin c])"

section \<open>Runtime\<close>

datatype runtime_state =
    RT_OFFLINE | RT_CONNECTING | RT_AUTHENTICATING | RT_READY | RT_BUSY | RT_DEGRADED
  | RT_UNAVAILABLE | RT_REVOKED | RT_UPDATE_REQUIRED

fun state_value :: "runtime_state \<Rightarrow> string" where
  "state_value RT_OFFLINE = ''OFFLINE''"
| "state_value RT_CONNECTING = ''CONNECTING''"
| "state_value RT_AUTHENTICATING = ''AUTHENTICATING''"
| "state_value RT_READY = ''READY''"
| "state_value RT_BUSY = ''BUSY''"
| "state_value RT_DEGRADED = ''DEGRADED''"
| "state_value RT_UNAVAILABLE = ''UNAVAILABLE''"
| "state_value RT_REVOKED = ''REVOKED''"
| "state_value RT_UPDATE_REQUIRED = ''UPDATE_REQUIRED''"

record runtime =
  rt_settings :: local_settings
  rt_catalog :: catalog
  rt_sessions :: session_manager
  rt_state :: runtime_state
  rt_generation :: ident
  rt_bound_port :: "int option"
  rt_capability :: string

text \<open>\<open>settings.endpoint_generation or str(uuid4())\<close>: an empty configured value is replaced too.\<close>

definition new_runtime :: "local_settings \<Rightarrow> catalog \<Rightarrow> ident \<Rightarrow> runtime" where
  "new_runtime cfg c fresh =
     \<lparr>rt_settings = cfg, rt_catalog = c,
      rt_sessions = new_manager (cf_session_lifetime cfg) (cf_nonce_lifetime cfg),
      rt_state = RT_OFFLINE,
      rt_generation = (case cf_endpoint_generation cfg of
         Some g \<Rightarrow> if g = [] then fresh else g | None \<Rightarrow> fresh),
      rt_bound_port = None, rt_capability = ''NOT_READY''\<rparr>"

definition start_runtime :: "seconds \<Rightarrow> runtime \<Rightarrow> runtime" where
  "start_runtime now r =
     (let c1 = set_metadata ''protocol_version'' (cf_protocol_version (rt_settings r)) (rt_catalog r);
          c2 = set_metadata ''endpoint_generation'' (rt_generation r) c1;
          c3 = snd (reconcile_interrupted now c2)
      in r\<lparr>rt_catalog := c3, rt_state := RT_READY\<rparr>)"

definition shutdown_runtime :: "runtime \<Rightarrow> runtime" where
  "shutdown_runtime r = r\<lparr>rt_state := RT_OFFLINE\<rparr>"

definition set_update_required :: "runtime \<Rightarrow> runtime" where
  "set_update_required r =
     r\<lparr>rt_sessions := invalidate_all (rt_sessions r), rt_state := RT_UPDATE_REQUIRED\<rparr>"

definition revoke_runtime :: "runtime \<Rightarrow> runtime" where
  "revoke_runtime r = r\<lparr>rt_sessions := revoke_sessions (rt_sessions r), rt_state := RT_REVOKED\<rparr>"

definition recreate_endpoint_generation :: "ident \<Rightarrow> runtime \<Rightarrow> runtime" where
  "recreate_endpoint_generation fresh r =
     r\<lparr>rt_generation := fresh,
       rt_catalog := set_metadata ''endpoint_generation'' fresh (rt_catalog r),
       rt_sessions := invalidate_all (rt_sessions r)\<rparr>"

definition validate_session_binding :: "runtime \<Rightarrow> local_session \<Rightarrow> py_exn option" where
  "validate_session_binding r s =
     (if rt_state r \<in> {RT_REVOKED, RT_UPDATE_REQUIRED} then Some (compute_exn NOT_PAIRED)
      else case ls_device s of
        None \<Rightarrow> None
      | Some d \<Rightarrow> (case get_paired_device_state (rt_catalog r) of
            None \<Rightarrow> Some (compute_exn SESSION_BINDING_INVALID)
          | Some p \<Rightarrow>
              if d \<noteq> pd_device_id p \<or> ls_epoch s \<noteq> Some (pd_credential_epoch p)
                 \<or> ls_generation s \<noteq> Some (rt_generation r)
              then Some (compute_exn SESSION_BINDING_INVALID) else None))"

definition capabilities :: "runtime \<Rightarrow> (string \<times> string) list" where
  "capabilities r = [(''pdf_processing'', ''READY''), (''chunking'', ''READY''),
     (''embedding'', ''READY''), (''indexing'', ''READY''), (''retrieval'', ''READY''),
     (''generation'', rt_capability r)]"

definition runtime_info :: "runtime \<Rightarrow> (string \<times> json) list" where
  "runtime_info r = [(''protocol_version'', JStr (cf_protocol_version (rt_settings r))),
     (''runtime_version'', JStr (cf_runtime_version (rt_settings r))),
     (''endpoint_generation'', JStr (rt_generation r)), (''state'', JStr (state_value (rt_state r))),
     (''development_mode'', JBool (cf_development_mode (rt_settings r)))]"

definition update_generation_capability :: "string \<Rightarrow> runtime \<Rightarrow> runtime" where
  "update_generation_capability st r = r\<lparr>rt_capability := st\<rparr>"

section \<open>Facts\<close>

lemma default_settings_accepted: "settings_error default_settings = None"
  by (simp add: settings_error_def default_settings_def starts_with_def)

lemma settings_error_bounds:
  assumes "settings_error c = None"
  shows "0 < cf_backoff_min c" and "cf_backoff_min c \<le> cf_backoff_max c" and "0 < cf_heartbeat c"
    and "0 < cf_indexing_batch_size c" and "0 < cf_session_lifetime c" and "0 < cf_nonce_lifetime c"
  using assms by (auto simp: settings_error_def split: if_splits)

lemma production_origin_allowed: "cf_production_origin c \<in> set (allowed_origins c)"
  by (simp add: allowed_origins_def)

end
