(* ===== verification/Grants.thy ===== *)
theory Grants
  imports Runtime
begin

text \<open>
  Platform grants (\<open>app/local_compute/grants.py\<close>): the signed one-time token a browser exchanges for
  a local session. Base64, Ed25519, \<open>json.loads\<close>, SHA-256 and \<open>repr\<close> are the fields of a
  \<open>platform_crypto\<close> record, a parameter of the operations; \<open>None\<close> stands for the exception each of
  them raises on bad input.
\<close>

section \<open>Verification of the signed claims\<close>

record 'k platform_crypto =
  pc_urlsafe :: "string \<Rightarrow> string option"
  pc_base64 :: "string \<Rightarrow> string option"
  pc_load_key :: "string \<Rightarrow> 'k option"
  pc_verify :: "'k \<Rightarrow> string \<Rightarrow> string \<Rightarrow> bool"
  pc_loads :: "string \<Rightarrow> json option"
  pc_repr :: "json \<Rightarrow> string"
  pc_sha :: "string \<Rightarrow> string"

definition allowed_grant_operations :: "string list" where
  "allowed_grant_operations = [''documents'', ''jobs'', ''retrieval'', ''answer'']"

record verified_grant =
  vg_grant_id :: string
  vg_user_id :: string
  vg_device_id :: string
  vg_epoch :: int
  vg_generation :: string
  vg_origin :: string
  vg_browser_nonce :: string
  vg_operations :: "json list"
  vg_expires :: int

definition get_platform_key :: "local_settings \<Rightarrow> py_exn + string" where
  "get_platform_key c = (if cf_platform_key c = []
     then Inl (compute_exn PLATFORM_VERIFICATION_KEY_UNAVAILABLE) else Inr (cf_platform_key c))"

text \<open>\<open>'=' * (-len(value) % 4)\<close>.\<close>

definition decode_urlsafe_base64 :: "'k platform_crypto \<Rightarrow> string \<Rightarrow> string option" where
  "decode_urlsafe_base64 pc v =
     pc_urlsafe pc (v @ replicate (nat ((- int (length v)) mod 4)) (CHR ''=''))"

text \<open>Every exception inside the \<open>try\<close> block becomes \<open>GRANT_SIGNATURE_INVALID\<close>.\<close>

definition verify_grant_signature ::
  "'k platform_crypto \<Rightarrow> string \<Rightarrow> string \<Rightarrow> py_exn + (string \<times> json) list" where
  "verify_grant_signature pc grant key =
     (let invalid = Inl (compute_exn GRANT_SIGNATURE_INVALID) in
      case split_once (CHR ''.'') grant of
        None \<Rightarrow> invalid
      | Some (claims, sig) \<Rightarrow>
          if claims = [] \<or> sig = [] then invalid
          else case decode_urlsafe_base64 pc sig of None \<Rightarrow> invalid
          | Some signature \<Rightarrow> (case Option.bind (pc_base64 pc key) (pc_load_key pc) of None \<Rightarrow> invalid
          | Some public_key \<Rightarrow>
              if \<not> is_ascii claims \<or> \<not> pc_verify pc public_key signature claims then invalid
              else (case Option.bind (decode_urlsafe_base64 pc claims) (pc_loads pc) of
                  Some (JObject kv) \<Rightarrow> Inr kv
                | _ \<Rightarrow> invalid)))"

text \<open>
  Reading the claims; \<open>None\<close> is the \<open>KeyError\<close>, \<open>TypeError\<close> or \<open>ValueError\<close> that becomes
  \<open>GRANT_INVALID\<close>.
\<close>

definition claim_str :: "'k platform_crypto \<Rightarrow> (string \<times> json) list \<Rightarrow> string \<Rightarrow> string option" where
  "claim_str pc kv k = map_option (json_str (pc_repr pc)) (json_get kv k)"

definition claim_int :: "(string \<times> json) list \<Rightarrow> string \<Rightarrow> int option" where
  "claim_int kv k = Option.bind (json_get kv k) json_int"

definition read_claims :: "'k platform_crypto \<Rightarrow> (string \<times> json) list \<Rightarrow> verified_grant option" where
  "read_claims pc kv =
     Option.bind (Option.bind (json_get kv ''operations'') json_frozenset) (\<lambda>operations.
     Option.bind (claim_str pc kv ''grant_id'') (\<lambda>grant_id.
     Option.bind (claim_str pc kv ''user_id'') (\<lambda>user_id.
     Option.bind (claim_str pc kv ''device_id'') (\<lambda>device_id.
     Option.bind (claim_int kv ''credential_epoch'') (\<lambda>epoch.
     Option.bind (claim_str pc kv ''endpoint_generation'') (\<lambda>generation.
     Option.bind (claim_str pc kv ''origin'') (\<lambda>origin.
     Option.bind (claim_str pc kv ''browser_nonce'') (\<lambda>bnonce.
     Option.bind (claim_int kv ''exp'') (\<lambda>exp.
     Some \<lparr>vg_grant_id = grant_id, vg_user_id = user_id, vg_device_id = device_id,
           vg_epoch = epoch, vg_generation = generation, vg_origin = origin,
           vg_browser_nonce = bnonce, vg_operations = operations, vg_expires = exp\<rparr>)))))))))"

definition operations_invalid :: "json list \<Rightarrow> bool" where
  "operations_invalid ops \<longleftrightarrow>
     ops = [] \<or> \<not> list_all (\<lambda>v. v \<in> set (map JStr allowed_grant_operations)) ops"

text \<open>The comparisons with the paired device, the request and the clock, in the code's order.\<close>

definition check_claims ::
  "runtime \<Rightarrow> seconds \<Rightarrow> string \<Rightarrow> string \<Rightarrow> paired_device \<Rightarrow> verified_grant \<Rightarrow> py_exn + verified_grant" where
  "check_claims r now origin bnonce p v =
     (if vg_device_id v \<noteq> pd_device_id p then Inl (compute_exn GRANT_DEVICE_MISMATCH)
      else if (case pd_owner_user_id p of None \<Rightarrow> False | Some u \<Rightarrow> u \<noteq> [] \<and> vg_user_id v \<noteq> u)
        then Inl (compute_exn GRANT_DEVICE_MISMATCH)
      else if vg_epoch v \<noteq> pd_credential_epoch p then Inl (compute_exn GRANT_EPOCH_MISMATCH)
      else if vg_generation v \<noteq> rt_generation r then Inl (compute_exn ENDPOINT_GENERATION_MISMATCH)
      else if vg_origin v \<noteq> origin then Inl (compute_exn ORIGIN_NOT_ALLOWED)
      else case compare_digest (vg_browser_nonce v) bnonce of
          None \<Rightarrow> Inl TypeError
        | Some same \<Rightarrow>
            if \<not> same then Inl (compute_exn BROWSER_NONCE_MISMATCH)
            else if vg_expires v \<le> now then Inl (compute_exn GRANT_EXPIRED)
            else if operations_invalid (vg_operations v) then Inl (compute_exn GRANT_OPERATION_INVALID)
            else Inr v)"

definition validate_grant ::
  "'k platform_crypto \<Rightarrow> runtime \<Rightarrow> seconds \<Rightarrow> string \<Rightarrow> string \<Rightarrow> string \<Rightarrow> py_exn + verified_grant" where
  "validate_grant pc r now grant origin bnonce =
     (if rt_state r = RT_REVOKED then Inl (compute_exn DEVICE_REVOKED)
      else if rt_state r = RT_UPDATE_REQUIRED then Inl (compute_exn UPDATE_REQUIRED)
      else if origin \<notin> set (allowed_origins (rt_settings r)) then Inl (compute_exn ORIGIN_NOT_ALLOWED)
      else case get_platform_key (rt_settings r) of
        Inl e \<Rightarrow> Inl e
      | Inr key \<Rightarrow> (case verify_grant_signature pc grant key of
          Inl e \<Rightarrow> Inl e
        | Inr kv \<Rightarrow> (case get_paired_device_state (rt_catalog r) of
            None \<Rightarrow> Inl (compute_exn NOT_PAIRED)
          | Some p \<Rightarrow> (case read_claims pc kv of
              None \<Rightarrow> Inl (compute_exn GRANT_INVALID)
            | Some v \<Rightarrow> check_claims r now origin bnonce p v))))"

definition consume_grant ::
  "'k platform_crypto \<Rightarrow> seconds \<Rightarrow> verified_grant \<Rightarrow> catalog \<Rightarrow> (py_exn + unit) \<times> catalog" where
  "consume_grant pc now v c =
     (case consume_local_grant (pc_sha pc (vg_grant_id v)) (vg_expires v) now c of
        (True, c') \<Rightarrow> (Inr (), c')
      | (False, c') \<Rightarrow> (Inl (compute_exn GRANT_ALREADY_CONSUMED), c'))"

section \<open>Facts\<close>

lemma check_claims_Inr:
  "check_claims r now origin bnonce p v = Inr v' \<longleftrightarrow>
     v' = v \<and> vg_device_id v = pd_device_id p
   \<and> (\<forall>u. pd_owner_user_id p = Some u \<longrightarrow> u = [] \<or> vg_user_id v = u)
   \<and> vg_epoch v = pd_credential_epoch p \<and> vg_generation v = rt_generation r \<and> vg_origin v = origin
   \<and> vg_browser_nonce v = bnonce \<and> is_ascii bnonce \<and> now < vg_expires v
   \<and> \<not> operations_invalid (vg_operations v)"
  by (auto simp: check_claims_def compare_digest_def split: option.splits if_splits)

text \<open>What an accepted grant establishes.\<close>

definition grant_established ::
  "'k platform_crypto \<Rightarrow> runtime \<Rightarrow> seconds \<Rightarrow> string \<Rightarrow> string \<Rightarrow> string \<Rightarrow> verified_grant \<Rightarrow> bool" where
  "grant_established pc r now grant origin bnonce v \<longleftrightarrow>
     rt_state r \<notin> {RT_REVOKED, RT_UPDATE_REQUIRED}
   \<and> origin \<in> set (allowed_origins (rt_settings r))
   \<and> (\<exists>kv. verify_grant_signature pc grant (cf_platform_key (rt_settings r)) = Inr kv
        \<and> read_claims pc kv = Some v)
   \<and> (\<exists>p. get_paired_device_state (rt_catalog r) = Some p
        \<and> check_claims r now origin bnonce p v = Inr v)"

lemma validate_grant_Inr:
  "validate_grant pc r now grant origin bnonce = Inr v \<longleftrightarrow>
     cf_platform_key (rt_settings r) \<noteq> [] \<and> grant_established pc r now grant origin bnonce v"
proof -
  have "v' = v" if "check_claims r now origin bnonce p v' = Inr v" for p v'
    using that by (simp add: check_claims_Inr)
  then show ?thesis
    by (auto simp: validate_grant_def grant_established_def get_platform_key_def
        split: option.splits sum.splits)
qed

lemma validate_grant_expiry:
  "validate_grant pc r now grant origin bnonce = Inr v \<Longrightarrow> now < vg_expires v"
  by (auto simp: validate_grant_Inr grant_established_def check_claims_Inr)

lemma grant_claims_unique:
  assumes "validate_grant pc r now grant origin bnonce = Inr v"
    and "validate_grant pc r' now' grant origin' bnonce' = Inr v'"
    and "cf_platform_key (rt_settings r') = cf_platform_key (rt_settings r)"
  shows "v' = v"
  using assms by (auto simp: validate_grant_Inr grant_established_def)

lemma consume_grant_Inr:
  "consume_grant pc now v c = (Inr (), c') \<longleftrightarrow>
     consume_local_grant (pc_sha pc (vg_grant_id v)) (vg_expires v) now c = (True, c')"
  by (auto simp: consume_grant_def split: prod.splits bool.splits)

section \<open>Properties\<close>


definition sample_crypto :: "string platform_crypto" where
  "sample_crypto = \<lparr>pc_urlsafe = Some, pc_base64 = Some, pc_load_key = Some,
     pc_verify = (\<lambda>k s m. k = ''pub''),
     pc_loads = (\<lambda>_. Some (JObject [(''grant_id'', JStr ''g1''), (''user_id'', JStr ''u1''),
       (''device_id'', JStr ''d1''), (''credential_epoch'', JInt 2),
       (''endpoint_generation'', JStr ''gen''), (''origin'', JStr ''https://rag.zkd.id.vn''),
       (''browser_nonce'', JStr ''bn''), (''operations'', JArray [JStr ''jobs'', JStr ''answer'']),
       (''exp'', JInt 500)])),
     pc_repr = (\<lambda>_. []), pc_sha = id\<rparr>"

definition sample_paired :: paired_device where
  "sample_paired = \<lparr>pd_device_id = ''d1'', pd_owner_user_id = Some ''u1'', pd_credential_epoch = 2,
     pd_platform_base_url = ''https://rag.zkd.id.vn'', pd_protocol_version = ''zkd-compute-v1'',
     pd_pairing_state = ''PAIRED'', pd_revocation_state = ''ACTIVE''\<rparr>"

definition sample_runtime :: runtime where
  "sample_runtime = start_runtime 5
     (new_runtime (default_settings\<lparr>cf_platform_key := ''pub''\<rparr>)
       (set_paired_device_state sample_paired empty_catalog) ''gen'')"

definition sample_grant :: verified_grant where
  "sample_grant = \<lparr>vg_grant_id = ''g1'', vg_user_id = ''u1'', vg_device_id = ''d1'', vg_epoch = 2,
     vg_generation = ''gen'', vg_origin = ''https://rag.zkd.id.vn'', vg_browser_nonce = ''bn'',
     vg_operations = [JStr ''jobs'', JStr ''answer''], vg_expires = 500\<rparr>"

lemma sample_grant_valid:
  "validate_grant sample_crypto sample_runtime 100 ''claims.sig'' ''https://rag.zkd.id.vn'' ''bn''
     = Inr sample_grant"
  by code_simp


text \<open>
  C21. What an accepted grant proves: the runtime is neither revoked nor in need of an update, the
  origin is one of the configured ones and the one the platform signed, the signature was made over
  exactly the claims that are used, the grant names the paired device, its owner, its credential
  epoch and this endpoint generation, the browser nonce is the one presented, the grant has not
  expired, and it asks for at least one operation and only for permitted ones.
\<close>

theorem grant_soundness:
  assumes "validate_grant pc r now grant origin bnonce = Inr v"
  shows "rt_state r \<notin> {RT_REVOKED, RT_UPDATE_REQUIRED}
    \<and> origin \<in> set (allowed_origins (rt_settings r)) \<and> vg_origin v = origin
    \<and> (\<exists>claims sig key signature body kv. grant = claims @ ''.'' @ sig
         \<and> Option.bind (pc_base64 pc (cf_platform_key (rt_settings r))) (pc_load_key pc) = Some key
         \<and> decode_urlsafe_base64 pc sig = Some signature \<and> pc_verify pc key signature claims
         \<and> decode_urlsafe_base64 pc claims = Some body \<and> pc_loads pc body = Some (JObject kv)
         \<and> read_claims pc kv = Some v)
    \<and> (\<exists>p. get_paired_device_state (rt_catalog r) = Some p \<and> vg_device_id v = pd_device_id p
         \<and> vg_epoch v = pd_credential_epoch p \<and> pd_owner_user_id p \<in> {None, Some [], Some (vg_user_id v)})
    \<and> vg_generation v = rt_generation r \<and> vg_browser_nonce v = bnonce \<and> now < vg_expires v
    \<and> vg_operations v \<noteq> [] \<and> set (vg_operations v) \<subseteq> JStr ` set allowed_grant_operations"
proof -
  obtain kv p where e: "verify_grant_signature pc grant (cf_platform_key (rt_settings r)) = Inr kv"
    "read_claims pc kv = Some v" "get_paired_device_state (rt_catalog r) = Some p"
    "check_claims r now origin bnonce p v = Inr v" "rt_state r \<notin> {RT_REVOKED, RT_UPDATE_REQUIRED}"
    "origin \<in> set (allowed_origins (rt_settings r))"
    using assms by (auto simp: validate_grant_Inr grant_established_def)
  obtain claims sig key signature body where s: "grant = claims @ ''.'' @ sig"
    "Option.bind (pc_base64 pc (cf_platform_key (rt_settings r))) (pc_load_key pc) = Some key"
    "decode_urlsafe_base64 pc sig = Some signature" "pc_verify pc key signature claims"
    "decode_urlsafe_base64 pc claims = Some body" "pc_loads pc body = Some (JObject kv)"
    using e(1) by (auto simp: verify_grant_signature_def Let_def bind_eq_Some_conv
        dest!: split_once_Some split: option.splits if_splits json.splits)
  have o: "pd_owner_user_id p \<in> {None, Some [], Some (vg_user_id v)}"
    using e(4) by (cases "pd_owner_user_id p") (auto simp: check_claims_Inr)
  show ?thesis
    using e s o by (intro conjI exI) (auto simp: check_claims_Inr operations_invalid_def list_all_iff)
qed

theorem grant_soundness_witness:
  "set (vg_operations sample_grant) \<subseteq> JStr ` set allowed_grant_operations"
  using grant_soundness [OF sample_grant_valid] by blast

end
