(* ===== verification/Reconstruction.thy ===== *)
theory Reconstruction
  imports PyText
begin

text \<open>
  The text stages between PDF extraction and parsing: \<open>PageCleaner\<close>
  (\<open>app/processing/cleaner.py\<close>), \<open>HeaderFooterRemover\<close> (\<open>header_footer.py\<close>) and
  \<open>DocumentReconstructor\<close> (\<open>reconstruction.py\<close>), with the page lookup. The Unicode tables of
  Python (NFC, case, word characters, letters, decimal digits and their values, and which characters a
  literal of an \<open>IGNORECASE\<close> pattern matches) are the fields of \<open>unicode_tables\<close>, a parameter of the
  operations.
\<close>

record unicode_tables =
  uc_nfc :: "pytext \<Rightarrow> pytext"
  uc_lower :: "pytext \<Rightarrow> pytext"
  uc_word :: "codepoint \<Rightarrow> bool"
  uc_digit :: "codepoint \<Rightarrow> bool"
  uc_value :: "codepoint \<Rightarrow> nat"
  uc_alpha :: "codepoint \<Rightarrow> bool"
  uc_isdigit :: "codepoint \<Rightarrow> bool"
  uc_upper :: "pytext \<Rightarrow> pytext"
  uc_casefold :: "pytext \<Rightarrow> pytext"
  uc_same :: "codepoint \<Rightarrow> codepoint \<Rightarrow> bool"

section \<open>Cleaning one page\<close>

fun normalize_newlines :: "pytext \<Rightarrow> pytext" where
  "normalize_newlines [] = []"
| "normalize_newlines [c] = [if c = 13 then 10 else c]"
| "normalize_newlines (c # d # cs) =
     (if c = 13 \<and> d = 10 then 10 # normalize_newlines cs
      else (if c = 13 then 10 else c) # normalize_newlines (d # cs))"

text \<open>\<open>re.sub(r'[p]{n,}', r, s)\<close>: every maximal run of at least \<open>n\<close> such characters is replaced.\<close>

function collapse_runs :: "(codepoint \<Rightarrow> bool) \<Rightarrow> nat \<Rightarrow> pytext \<Rightarrow> pytext \<Rightarrow> pytext" where
  "collapse_runs p n r [] = []"
| "collapse_runs p n r (x # xs) =
     (if p x
      then (let run = takeWhile p (x # xs) in (if n \<le> length run then r else run))
           @ collapse_runs p n r (dropWhile p xs)
      else x # collapse_runs p n r xs)"
  by pat_completeness auto
termination
  by (relation "measure (\<lambda>(p, n, r, xs). length xs)") (auto simp: le_imp_less_Suc length_dropWhile_le)

definition clean_line :: "pytext \<Rightarrow> pytext" where
  "clean_line line = (let l = py_strip line in
     if l = [] then [] else collapse_runs (\<lambda>c. c = 32 \<or> c = 9) 2 [32] l)"

definition clean_page :: "unicode_tables \<Rightarrow> pytext \<Rightarrow> pytext" where
  "clean_page u text = (if text = [] then [] else
     collapse_runs (\<lambda>c. c = 10) 3 [10, 10]
       (join_with [10] (map clean_line (split_on 10 (normalize_newlines (uc_nfc u text))))))"

section \<open>Repeated headers and footers\<close>

definition check_lines :: nat where "check_lines = 3"

definition normalize_line :: "unicode_tables \<Rightarrow> pytext \<Rightarrow> pytext" where
  "normalize_line u line = filter (\<lambda>c. uc_word u c \<and> c \<noteq> 95) (uc_lower u line)"

definition last_n :: "nat \<Rightarrow> 'a list \<Rightarrow> 'a list" where
  "last_n n xs = drop (length xs - n) xs"

text \<open>\<open>^(Trang\s*)?\d+\s*(/\s*\d+)?$\<close> with \<open>IGNORECASE\<close>, on a stripped line.\<close>

definition skip_trang :: "pytext \<Rightarrow> pytext" where
  "skip_trang s = (if map (\<lambda>c. if 65 \<le> c \<and> c \<le> 90 then c + 32 else c) (take 5 s) = ascii ''trang''
     then dropWhile py_space (drop 5 s) else s)"

definition page_number_line :: "unicode_tables \<Rightarrow> pytext \<Rightarrow> bool" where
  "page_number_line u line =
     (let s = skip_trang (py_strip line);
          rest = dropWhile py_space (dropWhile (uc_digit u) s)
      in takeWhile (uc_digit u) s \<noteq> [] \<and>
         (case rest of
            [] \<Rightarrow> True
          | c # cs \<Rightarrow> c = 47 \<and> (let t = dropWhile py_space cs in
                t \<noteq> [] \<and> list_all (uc_digit u) t)))"

definition strip_page_numbers :: "unicode_tables \<Rightarrow> pytext list \<Rightarrow> pytext list" where
  "strip_page_numbers u lines =
     (let l1 = (if lines \<noteq> [] \<and> page_number_line u (hd lines) then tl lines else lines)
      in if l1 \<noteq> [] \<and> page_number_line u (last l1) then butlast l1 else l1)"

text \<open>
  A normalised line is an artifact when it occurs, among the first (last) three lines of all pages,
  more than once and on average on at least half of the pages.
\<close>

definition edge_lines :: "unicode_tables \<Rightarrow> (pytext list \<Rightarrow> pytext list) \<Rightarrow> pytext list list \<Rightarrow> pytext list" where
  "edge_lines u edge pages =
     filter (\<lambda>n. 5 < length n) (concat (map (\<lambda>ls. map (normalize_line u) (edge ls)) pages))"

definition is_artifact :: "pytext list \<Rightarrow> nat \<Rightarrow> pytext \<Rightarrow> bool" where
  "is_artifact found pages n \<longleftrightarrow> pages \<le> 2 * count_list found n \<and> 1 < count_list found n"

definition strip_page ::
  "unicode_tables \<Rightarrow> (pytext \<Rightarrow> bool) \<Rightarrow> (pytext \<Rightarrow> bool) \<Rightarrow> pytext list \<Rightarrow> pytext list" where
  "strip_page u header footer lines =
     (let a = length (takeWhile (\<lambda>l. header (normalize_line u l)) (take check_lines lines));
          b = length lines - length (takeWhile (\<lambda>l. footer (normalize_line u l))
                (rev (last_n check_lines lines)))
      in strip_page_numbers u (drop a (take b lines)))"

definition remove_headers_footers :: "unicode_tables \<Rightarrow> pytext list \<Rightarrow> pytext list" where
  "remove_headers_footers u pages =
     (if length pages < 2
      then map (\<lambda>p. py_strip (join_with [10] (strip_page_numbers u (split_on 10 p)))) pages
      else (let lines = map (split_on 10) pages;
                tops = edge_lines u (take check_lines) lines;
                bottoms = edge_lines u (last_n check_lines) lines;
                n = length pages
            in map (\<lambda>ls. py_strip (join_with [10]
                 (strip_page u (is_artifact tops n) (is_artifact bottoms n) ls))) lines))"

section \<open>Reconstruction and page lookup\<close>

record offset_entry =
  of_page :: nat
  of_start :: nat
  of_end :: nat

fun reconstruct_from ::
  "nat \<Rightarrow> pytext list \<Rightarrow> pytext \<times> nat \<times> offset_entry list \<Rightarrow> pytext \<times> nat \<times> offset_entry list" where
  "reconstruct_from i [] acc = acc"
| "reconstruct_from i (p # ps) (text, off, entries) =
     (if p = [] then reconstruct_from (Suc i) ps (text, off, entries)
      else (let (text1, start) = (if text = [] then (text, off) else (text @ [10], off + 1))
            in reconstruct_from (Suc i) ps
                 (text1 @ p, start + length p,
                  entries @ [\<lparr>of_page = i + 1, of_start = start, of_end = start + length p\<rparr>])))"

definition reconstruct :: "pytext list \<Rightarrow> pytext \<times> offset_entry list" where
  "reconstruct pages = (case reconstruct_from 0 pages ([], 0, []) of (text, _, es) \<Rightarrow> (text, es))"

text \<open>\<open>LocalPreparationService._page\<close>: the first entry that contains the offset, both ends included.\<close>

definition page_of :: "int \<Rightarrow> offset_entry list \<Rightarrow> int" where
  "page_of off es = (case find (\<lambda>e. int (of_start e) \<le> off \<and> off \<le> int (of_end e)) es of
     Some e \<Rightarrow> int (of_page e)
   | None \<Rightarrow> if es = [] then - 1 else int (of_page (last es)))"

definition get_page_for_offset :: "int \<Rightarrow> offset_entry list \<Rightarrow> int" where
  "get_page_for_offset off es = (case find (\<lambda>e. int (of_start e) \<le> off \<and> off \<le> int (of_end e)) es of
     Some e \<Rightarrow> int (of_page e)
   | None \<Rightarrow> if es \<noteq> [] \<and> int (of_end (last es)) \<le> off then int (of_page (last es)) else - 1)"

section \<open>Facts\<close>

lemma strip_page_numbers_slice:
  "\<exists>a b. strip_page_numbers u ls = drop a (take b ls) \<and> a \<le> 1 \<and> b \<le> length ls \<and> length ls \<le> b + 1"
proof -
  define l1 where "l1 = (if ls \<noteq> [] \<and> page_number_line u (hd ls) then tl ls else ls)"
  obtain a where a: "l1 = drop a ls" "a \<le> 1"
    unfolding l1_def by (cases "ls \<noteq> [] \<and> page_number_line u (hd ls)") (force simp: drop_Suc)+
  have e: "strip_page_numbers u ls = (if l1 \<noteq> [] \<and> page_number_line u (last l1) then butlast l1 else l1)"
    by (simp add: strip_page_numbers_def l1_def Let_def)
  show ?thesis
  proof (cases "l1 \<noteq> [] \<and> page_number_line u (last l1)")
    case True
    then have "strip_page_numbers u ls = butlast (drop a ls)" unfolding e a(1) [symmetric] by simp
    then have "strip_page_numbers u ls = drop a (take (length ls - 1) ls)"
      by (simp add: butlast_conv_take drop_take)
    then show ?thesis using a(2) by fastforce
  next
    case False
    then have "strip_page_numbers u ls = drop a (take (length ls) ls)"
      unfolding e a(1) by auto
    then show ?thesis using a(2) by fastforce
  qed
qed

lemma drop_take_nested:
  "drop a (take b (drop c (take d xs))) = drop (c + a) (take (min d (b + c)) xs)"
  by (simp add: take_drop add.commute min.commute)

text \<open>A stripped page is a slice of its lines that starts and ends at most four lines from the edges.\<close>

definition edge_slice :: "'a list \<Rightarrow> 'a list \<Rightarrow> bool" where
  "edge_slice ls out \<longleftrightarrow> out = [] \<or> (\<exists>a b. out = drop a (take b ls) \<and> a \<le> check_lines + 1
     \<and> b \<le> length ls \<and> length ls \<le> b + check_lines + 1)"

lemma strip_page_slice: "edge_slice ls (strip_page u h f ls)"
proof -
  obtain a where a: "a = length (takeWhile (\<lambda>l. h (normalize_line u l)) (take check_lines ls))" "a \<le> check_lines"
    by (metis length_takeWhile_le length_take min.cobounded2 le_trans)
  obtain k where k: "k = length (takeWhile (\<lambda>l. f (normalize_line u l)) (rev (last_n check_lines ls)))"
    "k \<le> check_lines"
    by (rule that [OF refl], rule le_trans [OF length_takeWhile_le]) (simp add: last_n_def)
  define b where "b = length ls - k"
  have e: "strip_page u h f ls = strip_page_numbers u (drop a (take b ls))"
    by (simp add: strip_page_def Let_def a(1) b_def k(1))
  obtain a' b' where s: "strip_page_numbers u (drop a (take b ls)) = drop a' (take b' (drop a (take b ls)))"
    "a' \<le> 1" "length (drop a (take b ls)) \<le> b' + 1"
    using strip_page_numbers_slice by blast
  have eq: "strip_page u h f ls = drop (a + a') (take (min b (b' + a)) ls)"
    unfolding e s(1) by (rule drop_take_nested)
  show ?thesis
  proof (cases "a \<le> b")
    case True
    have "b \<le> length ls" by (simp add: b_def)
    moreover have "length ls \<le> min b (b' + a) + check_lines + 1"
      using True s(3) k(2) by (auto simp: b_def)
    ultimately show ?thesis unfolding edge_slice_def using eq a(2) s(2)
      by (intro disjI2 exI [of _ "a + a'"] exI [of _ "min b (b' + a)"]) auto
  next
    case False
    then have "strip_page u h f ls = []" using e s(1) by simp
    then show ?thesis by (simp add: edge_slice_def)
  qed
qed

section \<open>Reconstruction keeps every page\<close>

definition page_indices :: "pytext list \<Rightarrow> nat list" where
  "page_indices pages = filter (\<lambda>i. pages ! i \<noteq> []) [0..<length pages]"

lemma page_indices_snoc [simp]:
  "page_indices (pages @ [p]) = page_indices pages @ (if p = [] then [] else [length pages])"
  by (auto simp: page_indices_def nth_append intro!: filter_cong)

lemma set_page_indices: "set (page_indices pages) = {i. i < length pages \<and> pages ! i \<noteq> []}"
  by (auto simp: page_indices_def)

definition rebuilt :: "pytext list \<Rightarrow> pytext \<Rightarrow> nat \<Rightarrow> offset_entry list \<Rightarrow> bool" where
  "rebuilt pages text off es \<longleftrightarrow> off = length text
     \<and> text = join_with [10] (filter (\<lambda>p. p \<noteq> []) pages)
     \<and> map of_page es = map Suc (page_indices pages)
     \<and> (\<forall>e \<in> set es. of_start e < of_end e \<and> of_end e \<le> length text
          \<and> take (of_end e - of_start e) (drop (of_start e) text) = pages ! (of_page e - 1))
     \<and> sorted_wrt (\<lambda>e e'. of_end e < of_start e') es"

lemma rebuilt_page:
  assumes "rebuilt pages text off es" and "e \<in> set es"
  shows "1 \<le> of_page e" and "of_page e \<le> length pages"
proof -
  have "of_page e \<in> set (map of_page es)" using assms(2) by simp
  also have "map of_page es = map Suc (page_indices pages)" using assms(1) by (simp add: rebuilt_def)
  finally show "1 \<le> of_page e" "of_page e \<le> length pages" by (auto simp: set_page_indices)
qed

lemma join_with_snoc: "ps \<noteq> [] \<Longrightarrow> join_with sep (ps @ [p]) = join_with sep ps @ sep @ p"
  by (induction sep ps rule: join_with.induct) auto

lemma join_with_Nil: "\<forall>p \<in> set ps. p \<noteq> [] \<Longrightarrow> join_with sep ps = [] \<Longrightarrow> ps = []"
  by (cases "(sep, ps)" rule: join_with.cases) auto

lemma rebuilt_slices:
  assumes "rebuilt pages text off es" and "e \<in> set es"
  shows "take (of_end e - of_start e) (drop (of_start e) (text @ x)) = (pages @ y) ! (of_page e - 1)"
proof -
  have "of_page e - 1 < length pages" using rebuilt_page [OF assms] by auto
  then show ?thesis using assms by (auto simp: rebuilt_def nth_append)
qed

lemma rebuilt_skip: 
  assumes "rebuilt pages text off es" shows "rebuilt (pages @ [[]]) text off es"
  using assms rebuilt_slices [OF assms, of _ "[]" "[[]]"] unfolding rebuilt_def by auto

lemma rebuilt_first:
  assumes "rebuilt pages [] off es" and "p \<noteq> []"
  shows "rebuilt (pages @ [p]) p (length p)
    (es @ [\<lparr>of_page = length pages + 1, of_start = 0, of_end = length p\<rparr>])"
proof -
  have "filter (\<lambda>p. p \<noteq> []) pages = []"
    by (rule join_with_Nil [of _ "[10]"]) (use assms(1) in \<open>auto simp: rebuilt_def\<close>)
  moreover have "es = []" using assms(1) by (cases es) (auto simp: rebuilt_def)
  ultimately show ?thesis using assms by (simp add: rebuilt_def)
qed

lemma rebuilt_next:
  assumes "rebuilt pages text off es" and "p \<noteq> []" and "text \<noteq> []"
  shows "rebuilt (pages @ [p]) (text @ [10] @ p) (off + 1 + length p)
    (es @ [\<lparr>of_page = length pages + 1, of_start = off + 1, of_end = off + 1 + length p\<rparr>])"
    (is "rebuilt _ ?text _ (es @ [?e])")
proof -
  have t: "join_with [10] (filter (\<lambda>p. p \<noteq> []) pages) = text" and off: "off = length text"
    and m: "map of_page es = map Suc (page_indices pages)"
    and srt: "sorted_wrt (\<lambda>e e'. of_end e < of_start e') es"
    using assms(1) by (simp_all add: rebuilt_def)
  have b: "of_start e < of_end e" "of_end e \<le> length text" if "e \<in> set es" for e
    using assms(1) that by (auto simp: rebuilt_def)
  have ne: "filter (\<lambda>p. p \<noteq> []) pages \<noteq> []" using t assms(3) by auto
  have j: "?text = join_with [10] (filter (\<lambda>p. p \<noteq> []) (pages @ [p]))"
    using assms(2) ne by (simp add: join_with_snoc t)
  have sl: "take (of_end e - of_start e) (drop (of_start e) ?text) = (pages @ [p]) ! (of_page e - 1)"
    if "e \<in> set (es @ [?e])" for e
    using that rebuilt_slices [OF assms(1), of e "[10] @ p" "[p]"] by (auto simp: off)
  show ?thesis
    unfolding rebuilt_def j [symmetric]
    using off m srt b sl assms(2) by (fastforce simp: sorted_wrt_append)
qed

lemma reconstruct_from_rebuilt:
  assumes "rebuilt seen text off es" and "reconstruct_from (length seen) ps (text, off, es) = (t, off', es')"
  shows "rebuilt (seen @ ps) t off' es'"
  using assms
proof (induction ps arbitrary: seen "text" off es)
  case (Cons p ps)
  show ?case
  proof (cases "p = []")
    case True
    then show ?thesis using Cons.IH [OF rebuilt_skip [OF Cons.prems(1)]] Cons.prems(2) by simp
  next
    case ne: False
    show ?thesis
    proof (cases "text = []")
      case True
      with Cons.prems(1) have "off = 0" by (simp add: rebuilt_def)
      with True ne Cons.IH [OF rebuilt_first [OF Cons.prems(1) [unfolded True] ne]] Cons.prems(2)
      show ?thesis by simp
    next
      case False
      with ne Cons.IH [OF rebuilt_next [OF Cons.prems(1) ne False]] Cons.prems(2) show ?thesis by simp
    qed
  qed
qed simp

lemma reconstruct_rebuilt:
  "reconstruct pages = (text, es) \<Longrightarrow> rebuilt pages text (length text) es"
proof -
  assume r: "reconstruct pages = (text, es)"
  obtain off where f: "reconstruct_from 0 pages ([], 0, []) = (text, off, es)"
    using r by (auto simp: reconstruct_def split: prod.splits)
  have "rebuilt [] [] 0 []" by (simp add: rebuilt_def page_indices_def)
  from reconstruct_from_rebuilt [OF this, of pages] have "rebuilt pages text off es" by (simp add: f)
  moreover from this have "off = length text" by (simp add: rebuilt_def)
  ultimately show ?thesis by simp
qed

lemma find_sorted_entry:
  assumes "sorted_wrt (\<lambda>e e'. of_end e < of_start e') es" and "e \<in> set es"
    and "of_start e \<le> k" and "k \<le> of_end e" and "\<forall>e \<in> set es. of_start e < of_end e"
  shows "find (\<lambda>e. int (of_start e) \<le> int k \<and> int k \<le> int (of_end e)) es = Some e"
  using assms by (induction es) auto

text \<open>
  C40. Reconstruction loses nothing and remembers where everything came from. The normalised text is
  the non-empty pages joined by newlines; every character of every page is in it at an offset that
  the preparation's page lookup attributes to exactly that page, and \<open>get_page_for_offset\<close> agrees
  on every offset of the text.
\<close>

theorem reconstruct_pages:
  assumes "reconstruct pages = (text, es)"
  shows "text = join_with [10] (filter (\<lambda>p. p \<noteq> []) pages)
    \<and> (\<forall>i < length pages. \<forall>j < length (pages ! i). \<exists>off < length text.
        text ! off = pages ! i ! j \<and> page_of (int off) es = int i + 1
        \<and> get_page_for_offset (int off) es = int i + 1)"
proof (intro conjI allI impI)
  note r = reconstruct_rebuilt [OF assms]
  show "text = join_with [10] (filter (\<lambda>p. p \<noteq> []) pages)" using r by (simp add: rebuilt_def)
  fix i j
  assume i: "i < length pages" and j: "j < length (pages ! i)"
  then have "Suc i \<in> set (map Suc (page_indices pages))" by (auto simp: set_page_indices)
  then have "Suc i \<in> set (map of_page es)" using r by (simp add: rebuilt_def)
  then obtain e where e: "e \<in> set es" "of_page e = Suc i" by auto
  then have s: "of_start e < of_end e" "of_end e \<le> length text"
    "take (of_end e - of_start e) (drop (of_start e) text) = pages ! i"
    using r by (auto simp: rebuilt_def)
  from j have "j < of_end e - of_start e" using s by (metis length_take length_drop min_less_iff_conj)
  moreover have "text ! (of_start e + j) = pages ! i ! j"
    using s(2) calculation unfolding s(3) [symmetric] by simp
  moreover have "find (\<lambda>x. int (of_start x) \<le> int (of_start e + j) \<and> int (of_start e + j) \<le> int (of_end x)) es = Some e"
  proof (rule find_sorted_entry [where k = "of_start e + j"])
    show "sorted_wrt (\<lambda>e e'. of_end e < of_start e') es" "\<forall>e \<in> set es. of_start e < of_end e"
      using r by (auto simp: rebuilt_def)
  qed (use e calculation(1) in auto)
  ultimately show "\<exists>off < length text. text ! off = pages ! i ! j \<and> page_of (int off) es = int i + 1
        \<and> get_page_for_offset (int off) es = int i + 1"
    using s(2) e(2) by (intro exI [of _ "of_start e + j"]) (simp add: page_of_def get_page_for_offset_def)
qed

theorem reconstruct_pages_witness:
  "\<exists>t es. reconstruct [[65, 66, 67], [], [68, 69]] = (t, es)
     \<and> (\<exists>off < length t. t ! off = 68 \<and> page_of (int off) es = 3)"
proof -
  obtain t es where r: "reconstruct [[65, 66, 67], [], [68, 69]] = (t, es)"
    by (cases "reconstruct [[65, 66, 67], [], [68, 69]]")
  have l: "2 < length [[65, 66, 67], [], [68, 69 :: nat]]" "0 < length ([[65, 66, 67], [], [68, 69 :: nat]] ! 2)"
    by simp_all
  obtain off where "off < length t" "t ! off = [[65, 66, 67], [], [68, 69]] ! 2 ! 0"
    "page_of (int off) es = int 2 + 1"
    using reconstruct_pages [OF r] l by blast
  then show ?thesis using r by (intro exI conjI) simp_all
qed

text \<open>
  Header and footer removal only trims: for a document of two or more pages, each resulting page
  is, up to surrounding white space, a contiguous block of the lines of that page from which at most
  four lines were dropped at either end, unless nothing of it is left; no other line is touched.
\<close>

theorem headers_footers_trim:
  assumes "2 \<le> length pages" and "i < length pages"
  shows "\<exists>kept. remove_headers_footers u pages ! i = py_strip (join_with [10] kept)
    \<and> edge_slice (split_on 10 (pages ! i)) kept"
  using assms strip_page_slice by (fastforce simp: remove_headers_footers_def Let_def)

definition sample_unicode :: unicode_tables where
  "sample_unicode = \<lparr>uc_nfc = id, uc_lower = id, uc_word = (\<lambda>c. 48 \<le> c), uc_digit = (\<lambda>c. 48 \<le> c \<and> c \<le> 57),
     uc_value = (\<lambda>c. c - 48), uc_alpha = (\<lambda>c. 65 \<le> c), uc_isdigit = (\<lambda>c. 48 \<le> c \<and> c \<le> 57),
     uc_upper = id, uc_casefold = id, uc_same = (=)\<rparr>"

theorem headers_footers_trim_witness:
  "\<exists>kept. remove_headers_footers sample_unicode [[65, 10, 66], [67]] ! 1 = py_strip (join_with [10] kept)
    \<and> edge_slice (split_on 10 ([[65, 10, 66], [67]] ! 1)) kept"
  by (rule headers_footers_trim) simp_all

end
