(* ===== verification/Chunker.thy ===== *)
theory Chunker
  imports PyText
begin

text \<open>
  Token-safe chunking (\<open>app/processing/chunker.py\<close>) under the embedding-input contract
  (\<open>app/indexing/input_contract.py\<close>). The Hugging Face tokenizer is a parameter: the number of
  tokens of an input with special tokens, and the character offsets of the tokens of a text.
\<close>

section \<open>The input contract\<close>

record tokenizer =
  tk_count :: "pytext \<Rightarrow> int"
  tk_offsets :: "pytext \<Rightarrow> (nat \<times> nat) list"

record e5_contract =
  ec_tokenizer :: tokenizer
  ec_max_tokens :: int

definition passage_prefix :: pytext where
  "passage_prefix = ascii ''passage: ''"

definition count_final_tokens :: "e5_contract \<Rightarrow> pytext \<Rightarrow> int" where
  "count_final_tokens c t = tk_count (ec_tokenizer c) (passage_prefix @ t)"

definition fits :: "e5_contract \<Rightarrow> pytext \<Rightarrow> bool" where
  "fits c t \<longleftrightarrow> count_final_tokens c t \<le> ec_max_tokens c"

definition content_offsets :: "e5_contract \<Rightarrow> pytext \<Rightarrow> (nat \<times> nat) list" where
  "content_offsets c t = filter (\<lambda>(s, e). s < e) (tk_offsets (ec_tokenizer c) t)"

datatype chunk_error = HeaderTooLong int int int | ContractViolation int int | NoForwardProgress

definition validate_input :: "e5_contract \<Rightarrow> pytext \<Rightarrow> chunk_error + int" where
  "validate_input c t = (let n = count_final_tokens c t in
     if n > ec_max_tokens c then Inl (ContractViolation n (ec_max_tokens c)) else Inr n)"

section \<open>Data\<close>

datatype legal_unit = Legal_Unit (lu_type: string) (lu_number: pytext) (lu_title: pytext)
  (lu_start: int) (lu_end: int) (lu_level: int) (lu_children: "legal_unit list")

type_synonym doc_metadata = "(string \<times> pytext option) list"

record chunker =
  ck_max_chars :: int
  ck_contract :: e5_contract
  ck_headroom :: int
  ck_overlap :: int
  ck_min_content :: int
  ck_min_forward :: int

text \<open>\<open>Chunker(input_contract=...)\<close>: the constructor raises \<open>ValueError\<close> on a minimum that is not positive.\<close>

definition new_chunker :: "int \<Rightarrow> e5_contract \<Rightarrow> int \<Rightarrow> int \<Rightarrow> int \<Rightarrow> int \<Rightarrow> chunker option" where
  "new_chunker max_chars contract headroom overlap min_content min_forward =
     (if min_content \<le> 0 \<or> min_forward \<le> 0 then None
      else Some \<lparr>ck_max_chars = max_chars, ck_contract = contract, ck_headroom = headroom,
        ck_overlap = overlap, ck_min_content = min_content, ck_min_forward = min_forward\<rparr>)"

definition default_chunker :: "e5_contract \<Rightarrow> chunker" where
  "default_chunker contract = \<lparr>ck_max_chars = 1500, ck_contract = contract, ck_headroom = 4,
     ck_overlap = 30, ck_min_content = 16, ck_min_forward = 8\<rparr>"

datatype split_method = SEMANTIC | HARD_TOKEN

record segment =
  sg_start :: nat
  sg_end :: nat
  sg_method :: split_method
  sg_left :: int
  sg_right :: int

definition semantic :: "nat \<Rightarrow> nat \<Rightarrow> segment" where
  "semantic s e = \<lparr>sg_start = s, sg_end = e, sg_method = SEMANTIC, sg_left = 0, sg_right = 0\<rparr>"

record split_info =
  si_index :: nat
  si_count :: nat
  si_method :: split_method
  si_left :: int
  si_right :: int

record chunk =
  cd_unit :: legal_unit
  cd_content :: pytext
  cd_embedding :: pytext
  cd_start :: nat
  cd_end :: nat
  cd_split :: "split_info option"
  cd_index :: nat

section \<open>Context header\<close>

definition translate_type :: "string \<Rightarrow> pytext" where
  "translate_type t =
     (if t = ''PART'' then [80, 104, 7847, 110]
      else if t = ''CHAPTER'' then [67, 104, 432, 417, 110, 103]
      else if t = ''SECTION'' then [77, 7909, 99]
      else if t = ''ARTICLE'' then [272, 105, 7873, 117]
      else if t = ''CLAUSE'' then [75, 104, 111, 7843, 110]
      else if t = ''POINT'' then [272, 105, 7875, 109]
      else ascii t)"

text \<open>An f-string prints a missing value as \<open>None\<close>; \<open>d.get(k, default)\<close> uses the default only for an absent key.\<close>

definition format_value :: "pytext option \<Rightarrow> pytext" where
  "format_value v = (case v of None \<Rightarrow> ascii ''None'' | Some t \<Rightarrow> t)"

definition get_default :: "doc_metadata \<Rightarrow> string \<Rightarrow> pytext option \<Rightarrow> pytext option" where
  "get_default m k d = (case map_of m k of None \<Rightarrow> d | Some v \<Rightarrow> v)"

definition van_ban :: pytext where
  "van_ban = [86, 259, 110, 32, 98, 7843, 110]"

definition unit_part :: "legal_unit \<Rightarrow> pytext list" where
  "unit_part u = (if lu_type u \<noteq> ''PREAMBLE'' \<and> lu_number u \<noteq> []
     then [translate_type (lu_type u) @ [32] @ lu_number u] else [])"

definition build_context :: "doc_metadata \<Rightarrow> legal_unit \<Rightarrow> legal_unit list \<Rightarrow> pytext" where
  "build_context m u ancestors =
     (let number = get_default m ''document_number'' None;
          doc = (if number \<noteq> None \<and> number \<noteq> Some []
            then [format_value (get_default m ''document_type'' (Some van_ban)) @ [32] @ format_value number]
            else [])
      in join_with (ascii '' - '') (doc @ concat (map unit_part ancestors) @ unit_part u))"

definition embedding_text :: "pytext \<Rightarrow> pytext \<Rightarrow> pytext" where
  "embedding_text ctx content =
     (if ctx = [] then content else [91] @ ctx @ [93, 10] @ content)"

section \<open>Spans and boundaries\<close>

definition trim_span :: "pytext \<Rightarrow> int \<Rightarrow> int \<Rightarrow> nat \<times> nat" where
  "trim_span source start end =
     (let s = nat (max 0 start);
          e = min (length source) (max s (nat end));
          s1 = s + length (takeWhile py_space (slice s e source));
          e1 = e - length (takeWhile py_space (rev (slice s1 e source)))
      in (s1, e1))"

definition blank :: "codepoint \<Rightarrow> bool" where
  "blank c \<longleftrightarrow> c = 32 \<or> c = 9"

text \<open>\<open>finditer\<close> of the three boundary patterns, as lists of match spans.\<close>

function paragraph_matches :: "nat \<Rightarrow> pytext \<Rightarrow> (nat \<times> nat) list" where
  "paragraph_matches i [] = []"
| "paragraph_matches i (c # cs) =
     (let gap = takeWhile blank cs; rest = dropWhile blank cs; breaks = takeWhile (\<lambda>d. d = 10) rest;
          n = 1 + length gap + length breaks
      in if c = 10 \<and> breaks \<noteq> [] then (i, i + n) # paragraph_matches (i + n) (drop n (c # cs))
         else paragraph_matches (i + 1) cs)"
  by pat_completeness auto
termination
  by (relation "measure (\<lambda>(i, cs). length cs)") (auto simp: le_imp_less_Suc)

function line_matches :: "nat \<Rightarrow> pytext \<Rightarrow> (nat \<times> nat) list" where
  "line_matches i [] = []"
| "line_matches i (c # cs) =
     (if c = 10 then (let n = 1 + length (takeWhile (\<lambda>d. d = 10) cs)
                      in (i, i + n) # line_matches (i + n) (drop n (c # cs)))
      else line_matches (i + 1) cs)"
  by pat_completeness auto
termination
  by (relation "measure (\<lambda>(i, cs). length cs)") auto

definition sentence_end :: "codepoint \<Rightarrow> bool" where
  "sentence_end c \<longleftrightarrow> c = 46 \<or> c = 33 \<or> c = 63"

function sentence_matches :: "bool \<Rightarrow> nat \<Rightarrow> pytext \<Rightarrow> (nat \<times> nat) list" where
  "sentence_matches after i [] = []"
| "sentence_matches after i (c # cs) =
     (if after \<and> py_space c
      then (let n = 1 + length (takeWhile py_space cs)
            in (i, i + n) # sentence_matches False (i + n) (drop n (c # cs)))
      else sentence_matches (sentence_end c) (i + 1) cs)"
  by pat_completeness auto
termination
  by (relation "measure (\<lambda>(a, i, cs). length cs)") auto

definition semantic_boundaries :: "(pytext \<Rightarrow> (nat \<times> nat) list) list" where
  "semantic_boundaries = [paragraph_matches 0, line_matches 0, sentence_matches False 0]"

section \<open>The character-bounded path\<close>

text \<open>Non-empty pieces between matches, in source coordinates.\<close>

fun piece_spans :: "nat \<Rightarrow> nat \<Rightarrow> nat \<Rightarrow> (nat \<times> nat) list \<Rightarrow> (nat \<times> nat) list" where
  "piece_spans start len cursor [] = (if cursor < len then [(start + cursor, start + len)] else [])"
| "piece_spans start len cursor ((a, b) # ms) =
     (if cursor < a then [(start + cursor, start + a)] else []) @ piece_spans start len b ms"

record candidate =
  cn_start :: nat
  cn_end :: nat
  cn_content :: pytext

definition candidate_from_pieces :: "pytext \<Rightarrow> (nat \<times> nat) list \<Rightarrow> candidate" where
  "candidate_from_pieces source pieces =
     (let (s, e) = trim_span source (int (fst (hd pieces))) (int (snd (last pieces)))
      in \<lparr>cn_start = s, cn_end = e,
          cn_content = py_strip (join_with [32] (map (\<lambda>(a, b). slice a b source) pieces))\<rparr>)"

fun group_pieces :: "int \<Rightarrow> (nat \<times> nat) list \<Rightarrow> int \<Rightarrow> (nat \<times> nat) list \<Rightarrow> (nat \<times> nat) list list" where
  "group_pieces limit current len [] = (if current = [] then [] else [current])"
| "group_pieces limit current len ((a, b) # ps) =
     (let n = int b - int a in
      if current \<noteq> [] \<and> len + n + 1 > limit then current # group_pieces limit [(a, b)] n ps
      else group_pieces limit (current @ [(a, b)]) (if current = [] then n else len + n + 1) ps)"

definition normal_candidates :: "chunker \<Rightarrow> pytext \<Rightarrow> nat \<Rightarrow> nat \<Rightarrow> candidate list" where
  "normal_candidates c source s e =
     (let whole = [\<lparr>cn_start = s, cn_end = e, cn_content = slice s e source\<rparr>] in
      if int e - int s \<le> ck_max_chars c then whole
      else let local = slice s e source;
               pieces = piece_spans s (length local) 0 (sentence_matches False 0 local)
           in if pieces = [] then whole
              else map (candidate_from_pieces source) (group_pieces (ck_max_chars c) [] 0 pieces))"

section \<open>The token-bounded path\<close>

definition window_span :: "pytext \<Rightarrow> (nat \<times> nat) list \<Rightarrow> nat \<Rightarrow> nat \<Rightarrow> nat \<times> nat" where
  "window_span content offsets ts te =
     trim_span content (int (fst (offsets ! ts)))
       (if te < length offsets then int (fst (offsets ! te)) else int (length content))"

definition window_fits :: "chunker \<Rightarrow> pytext \<Rightarrow> pytext \<Rightarrow> (nat \<times> nat) list \<Rightarrow> nat \<Rightarrow> nat \<Rightarrow> bool" where
  "window_fits c content ctx offsets ts te =
     (let (a, b) = window_span content offsets ts te; candidate = slice a b content
      in candidate \<noteq> [] \<and> fits (ck_contract c) (embedding_text ctx candidate))"

text \<open>The inner loop: the largest window that fits, or \<open>te = ts\<close> when none does.\<close>

function shrink_window :: "chunker \<Rightarrow> pytext \<Rightarrow> pytext \<Rightarrow> (nat \<times> nat) list \<Rightarrow> nat \<Rightarrow> nat \<Rightarrow> nat" where
  "shrink_window c content ctx offsets ts te =
     (if te \<le> ts then te
      else if window_fits c content ctx offsets ts te then te
      else shrink_window c content ctx offsets ts (te - 1))"
  by pat_completeness auto
termination
  by (relation "measure (\<lambda>(c, content, ctx, offsets, ts, te). te - ts)") auto

declare shrink_window.simps [simp del]

definition window_end :: "chunker \<Rightarrow> pytext \<Rightarrow> pytext \<Rightarrow> (nat \<times> nat) list \<Rightarrow> int \<Rightarrow> nat \<Rightarrow> nat" where
  "window_end c content ctx offsets budget ts =
     shrink_window c content ctx offsets ts (nat (min (int (length offsets)) (int ts + budget)))"

definition next_window :: "chunker \<Rightarrow> nat \<Rightarrow> nat \<Rightarrow> int" where
  "next_window c ts te =
     int te - min (ck_overlap c) (max 0 (int te - int ts - ck_min_forward c))"

function hard_windows ::
  "chunker \<Rightarrow> pytext \<Rightarrow> pytext \<Rightarrow> (nat \<times> nat) list \<Rightarrow> int \<Rightarrow> int \<Rightarrow> nat \<Rightarrow> nat \<Rightarrow> nat \<Rightarrow> chunk_error + segment list" where
  "hard_windows c content ctx offsets fixed budget start ts prev =
     (if length offsets \<le> ts then Inr []
      else let te = window_end c content ctx offsets budget ts
           in if te \<le> ts then Inl (HeaderTooLong fixed budget (ck_min_content c))
              else let (a, b) = window_span content offsets ts te;
                       seg = \<lparr>sg_start = start + a, sg_end = start + b, sg_method = HARD_TOKEN,
                              sg_left = max 0 (int prev - int ts), sg_right = 0\<rparr>
                   in if te = length offsets then Inr [seg]
                      else let next = next_window c ts te
                           in if next \<le> int ts then Inl NoForwardProgress
                              else and_then (hard_windows c content ctx offsets fixed budget start
                                     (nat next) te) (\<lambda>segs. Inr (seg # segs)))"
  by pat_completeness auto
termination
  by (relation "measure (\<lambda>(c, content, ctx, offsets, fixed, budget, start, ts, prev). length offsets - ts)")
    (auto simp: not_le zless_nat_eq_int_zless intro!: diff_less_mono2)

declare hard_windows.simps [simp del]

fun link_overlaps :: "segment list \<Rightarrow> segment list" where
  "link_overlaps [] = []"
| "link_overlaps [s] = [s\<lparr>sg_right := 0\<rparr>]"
| "link_overlaps (s # t # ss) = s\<lparr>sg_right := sg_left t\<rparr> # link_overlaps (t # ss)"

definition hard_token_segments :: "chunker \<Rightarrow> pytext \<Rightarrow> pytext \<Rightarrow> nat \<Rightarrow> nat \<Rightarrow> chunk_error + segment list" where
  "hard_token_segments c source ctx s e =
     (let fixed = count_final_tokens (ck_contract c) (embedding_text ctx []);
          budget = ec_max_tokens (ck_contract c) - fixed - ck_headroom c
      in if budget < ck_min_content c then Inl (HeaderTooLong fixed budget (ck_min_content c))
         else let content = slice s e source; offsets = content_offsets (ck_contract c) content
              in if offsets = [] then Inr []
                 else and_then (hard_windows c content ctx offsets fixed budget s 0 0)
                        (\<lambda>segs. Inr (link_overlaps segs)))"

section \<open>Semantic segments\<close>

fun trimmed_pieces :: "pytext \<Rightarrow> nat \<Rightarrow> nat \<Rightarrow> nat \<Rightarrow> (nat \<times> nat) list \<Rightarrow> (nat \<times> nat) list" where
  "trimmed_pieces source start end cursor [] =
     (let p = trim_span source (int (start + cursor)) (int end) in if fst p < snd p then [p] else [])"
| "trimmed_pieces source start end cursor ((a, b) # ms) =
     (let p = trim_span source (int (start + cursor)) (int (start + a))
      in (if fst p < snd p then [p] else []) @ trimmed_pieces source start end b ms)"

definition split_source_span ::
  "pytext \<Rightarrow> nat \<Rightarrow> nat \<Rightarrow> (pytext \<Rightarrow> (nat \<times> nat) list) \<Rightarrow> (nat \<times> nat) list" where
  "split_source_span source s e boundary = trimmed_pieces source s e 0 (boundary (slice s e source))"

definition repack_step :: "chunker \<Rightarrow> pytext \<Rightarrow> pytext \<Rightarrow> segment list \<Rightarrow> segment \<Rightarrow> segment list" where
  "repack_step c source ctx packed seg =
     (if packed \<noteq> [] \<and> sg_method (last packed) = SEMANTIC \<and> sg_method seg = SEMANTIC
        \<and> fits (ck_contract c) (embedding_text ctx (slice (sg_start (last packed)) (sg_end seg) source))
      then butlast packed @ [semantic (sg_start (last packed)) (sg_end seg)]
      else packed @ [seg])"

definition greedy_repack :: "chunker \<Rightarrow> pytext \<Rightarrow> pytext \<Rightarrow> segment list \<Rightarrow> segment list" where
  "greedy_repack c source ctx segs = foldl (repack_step c source ctx) [] segs"

text \<open>The recursion of the code on \<open>boundary_level\<close> is the recursion on the boundaries that are left.\<close>

fun semantic_segments ::
  "chunker \<Rightarrow> pytext \<Rightarrow> pytext \<Rightarrow> (pytext \<Rightarrow> (nat \<times> nat) list) list \<Rightarrow> nat \<Rightarrow> nat \<Rightarrow> chunk_error + segment list" where
  "semantic_segments c source ctx [] start end =
     (let (s, e) = trim_span source (int start) (int end) in
      if e \<le> s then Inr []
      else if fits (ck_contract c) (embedding_text ctx (slice s e source)) then Inr [semantic s e]
      else hard_token_segments c source ctx s e)"
| "semantic_segments c source ctx (b # bs) start end =
     (let (s, e) = trim_span source (int start) (int end) in
      if e \<le> s then Inr []
      else if fits (ck_contract c) (embedding_text ctx (slice s e source)) then Inr [semantic s e]
      else let pieces = split_source_span source s e b in
           if length pieces \<le> 1 then semantic_segments c source ctx bs s e
           else and_then (collect_results (\<lambda>(x, y). semantic_segments c source ctx bs x y) pieces)
                  (\<lambda>segs. Inr (greedy_repack c source ctx segs)))"

section \<open>Chunks of a document\<close>

definition split_chunk :: "pytext \<Rightarrow> legal_unit \<Rightarrow> pytext \<Rightarrow> nat \<Rightarrow> nat \<times> segment \<Rightarrow> chunk" where
  "split_chunk source u ctx count = (\<lambda>(i, sg).
     (let content = slice (sg_start sg) (sg_end sg) source in
      \<lparr>cd_unit = u, cd_content = content, cd_embedding = embedding_text ctx content,
       cd_start = sg_start sg, cd_end = sg_end sg,
       cd_split = Some \<lparr>si_index = i, si_count = count, si_method = sg_method sg,
         si_left = sg_left sg, si_right = sg_right sg\<rparr>, cd_index = 0\<rparr>))"

definition candidate_chunks ::
  "chunker \<Rightarrow> pytext \<Rightarrow> legal_unit \<Rightarrow> pytext \<Rightarrow> candidate \<Rightarrow> chunk_error + chunk list" where
  "candidate_chunks c source u ctx cand =
     (let embedding = embedding_text ctx (cn_content cand) in
      if fits (ck_contract c) embedding
      then Inr [\<lparr>cd_unit = u, cd_content = cn_content cand, cd_embedding = embedding,
                 cd_start = cn_start cand, cd_end = cn_end cand, cd_split = None, cd_index = 0\<rparr>]
      else and_then (semantic_segments c source ctx semantic_boundaries (cn_start cand) (cn_end cand))
             (\<lambda>segs. Inr (map (split_chunk source u ctx (length segs)) (enumerate 0 segs))))"

definition own_span :: "pytext \<Rightarrow> legal_unit \<Rightarrow> nat \<times> nat" where
  "own_span source u = trim_span source (lu_start u)
     (case lu_children u of [] \<Rightarrow> lu_end u | ch # _ \<Rightarrow> lu_start ch)"

definition own_chunks ::
  "chunker \<Rightarrow> pytext \<Rightarrow> doc_metadata \<Rightarrow> legal_unit list \<Rightarrow> legal_unit \<Rightarrow> chunk_error + chunk list" where
  "own_chunks c source m ancestors u =
     (let (s, e) = own_span source u in
      if s < e
      then collect_results (candidate_chunks c source u (build_context m u ancestors))
             (normal_candidates c source s e)
      else Inr [])"

fun process_unit ::
    "chunker \<Rightarrow> pytext \<Rightarrow> doc_metadata \<Rightarrow> legal_unit list \<Rightarrow> legal_unit \<Rightarrow> chunk_error + chunk list"
  and process_units ::
    "chunker \<Rightarrow> pytext \<Rightarrow> doc_metadata \<Rightarrow> legal_unit list \<Rightarrow> legal_unit list \<Rightarrow> chunk_error + chunk list" where
  "process_unit c source m ancestors (Legal_Unit ty nu ti st en le chs) =
     and_then (own_chunks c source m ancestors (Legal_Unit ty nu ti st en le chs)) (\<lambda>own.
     and_then (process_units c source m (ancestors @ [Legal_Unit ty nu ti st en le chs]) chs) (\<lambda>below.
     Inr (own @ below)))"
| "process_units c source m ancestors [] = Inr []"
| "process_units c source m ancestors (u # us) =
     and_then (process_unit c source m ancestors u) (\<lambda>xs.
     and_then (process_units c source m ancestors us) (\<lambda>ys. Inr (xs @ ys)))"

fun validate_chunks :: "chunker \<Rightarrow> chunk list \<Rightarrow> chunk_error + unit" where
  "validate_chunks c [] = Inr ()"
| "validate_chunks c (x # xs) =
     and_then (validate_input (ck_contract c) (cd_embedding x)) (\<lambda>_. validate_chunks c xs)"

definition number_chunks :: "chunk list \<Rightarrow> chunk list" where
  "number_chunks xs = map (\<lambda>(i, x). x\<lparr>cd_index := i\<rparr>) (enumerate 0 xs)"

definition generate_chunks ::
  "chunker \<Rightarrow> pytext \<Rightarrow> legal_unit list \<Rightarrow> doc_metadata \<Rightarrow> chunk_error + chunk list" where
  "generate_chunks c source units m =
     and_then (process_units c source m [] units) (\<lambda>xs.
       (let chunks = number_chunks xs in and_then (validate_chunks c chunks) (\<lambda>_. Inr chunks)))"

section \<open>Spans\<close>

lemma trim_span_unfold:
  assumes "trim_span source s e = (a, b)"
  obtains S E where "S = nat (max 0 s)" "E = min (length source) (max S (nat e))"
    "a = S + length (takeWhile py_space (slice S E source))"
    "b = E - length (takeWhile py_space (rev (slice a E source)))"
proof -
  define S where "S = nat (max 0 s)"
  define E where "E = min (length source) (max S (nat e))"
  define A where "A = S + length (takeWhile py_space (slice S E source))"
  have "trim_span source s e = (A, E - length (takeWhile py_space (rev (slice A E source))))"
    by (simp add: trim_span_def Let_def S_def E_def A_def)
  with assms have "a = A" and "b = E - length (takeWhile py_space (rev (slice A E source)))" by auto
  then show ?thesis using that [OF S_def E_def] A_def by simp
qed

lemma trim_span_bounds:
  assumes "trim_span source s e = (a, b)"
  shows "b \<le> length source" and "nat (max 0 s) \<le> a" and "a < b \<Longrightarrow> int b \<le> e"
proof -
  obtain S E where S: "S = nat (max 0 s)" and E: "E = min (length source) (max S (nat e))"
    and a: "a = S + length (takeWhile py_space (slice S E source))"
    and b: "b = E - length (takeWhile py_space (rev (slice a E source)))"
    using assms by (rule trim_span_unfold)
  have be: "b \<le> E" and sa: "S \<le> a" using a b by simp_all
  then show "b \<le> length source" and "nat (max 0 s) \<le> a" using E S by simp_all
  assume "a < b"
  with be sa have "S < E" by simp
  then have "E \<le> nat e" and "0 < nat e" unfolding E by (auto simp: max_def split: if_splits)
  with be show "int b \<le> e" by linarith
qed

lemma takeWhile_space_nth: "i < length (takeWhile P xs) \<Longrightarrow> P (xs ! i)"
  by (metis nth_mem set_takeWhileD takeWhile_nth)

lemma trim_span_keeps:
  assumes "trim_span source s e = (a, b)" and "0 \<le> s" and "s \<le> int p" and "int p < e" and "p < length source"
    and "\<not> py_space (source ! p)"
  shows "a \<le> p" and "p < b"
proof -
  obtain S E where S: "S = nat (max 0 s)" and E: "E = min (length source) (max S (nat e))"
    and a: "a = S + length (takeWhile py_space (slice S E source))"
    and b: "b = E - length (takeWhile py_space (rev (slice a E source)))"
    using assms(1) by (rule trim_span_unfold)
  have p: "S \<le> p" "p < E" using assms(2-5) unfolding S E by linarith+
  show ap: "a \<le> p"
  proof (rule ccontr)
    assume "\<not> a \<le> p"
    then have "p - S < length (takeWhile py_space (slice S E source))" using a p(1) by linarith
    then have "py_space (slice S E source ! (p - S))" by (rule takeWhile_space_nth)
    moreover have "E \<le> length source" unfolding E by simp
    then have "slice S E source ! (p - S) = source ! p" using p by (simp add: slice_def)
    ultimately show False using assms(6) by simp
  qed
  show "p < b"
  proof (rule ccontr)
    assume "\<not> p < b"
    then have "E - 1 - p < length (takeWhile py_space (rev (slice a E source)))" using b p(2) by linarith
    then have "py_space (rev (slice a E source) ! (E - 1 - p))" by (rule takeWhile_space_nth)
    moreover have "E \<le> length source" unfolding E by simp
    then have "rev (slice a E source) ! (E - 1 - p) = source ! p"
      using p(2) ap by (simp add: rev_nth slice_def)
    ultimately show False using assms(6) by simp
  qed
qed

section \<open>Every segment fits\<close>

definition segment_fits :: "chunker \<Rightarrow> pytext \<Rightarrow> pytext \<Rightarrow> segment \<Rightarrow> bool" where
  "segment_fits c source ctx sg \<longleftrightarrow>
     fits (ck_contract c) (embedding_text ctx (slice (sg_start sg) (sg_end sg) source))"

lemma shrink_window_fits:
  "ts < shrink_window c content ctx offsets ts te \<Longrightarrow>
     window_fits c content ctx offsets ts (shrink_window c content ctx offsets ts te)"
proof (induction c content ctx offsets ts te rule: shrink_window.induct)
  case (1 c content ctx offsets ts te)
  then show ?case by (subst (asm) (2) shrink_window.simps, subst shrink_window.simps) (auto split: if_splits)
qed

lemma shrink_window_le: "shrink_window c content ctx offsets ts te \<le> te"
proof (induction c content ctx offsets ts te rule: shrink_window.induct)
  case (1 c content ctx offsets ts te)
  then show ?case by (subst shrink_window.simps) auto
qed

lemma next_window_gt:
  assumes "ts < te" and "0 < ck_min_forward c"
  shows "int ts < next_window c ts te"
  using assms by (auto simp: next_window_def min_def max_def)

lemma window_end_le: "window_end c content ctx offsets budget ts \<le> length offsets"
  using shrink_window_le [of c content ctx offsets ts "nat (min (int (length offsets)) (int ts + budget))"]
  by (simp add: window_end_def)

definition hard_segment ::
  "pytext \<Rightarrow> (nat \<times> nat) list \<Rightarrow> nat \<Rightarrow> nat \<Rightarrow> nat \<Rightarrow> nat \<Rightarrow> segment" where
  "hard_segment content offsets start ts te prev =
     \<lparr>sg_start = start + fst (window_span content offsets ts te),
      sg_end = start + snd (window_span content offsets ts te), sg_method = HARD_TOKEN,
      sg_left = max 0 (int prev - int ts), sg_right = 0\<rparr>"

text \<open>What one turn of the window loop does.\<close>

lemma hard_windows_cases:
  obtains (finished) "length offsets \<le> ts"
      "hard_windows c content ctx offsets fixed budget start ts prev = Inr []"
  | (stuck) "ts < length offsets" "window_end c content ctx offsets budget ts \<le> ts"
      "hard_windows c content ctx offsets fixed budget start ts prev
        = Inl (HeaderTooLong fixed budget (ck_min_content c))"
  | (final) te where "ts < length offsets" "te = window_end c content ctx offsets budget ts" "ts < te"
      "te = length offsets"
      "hard_windows c content ctx offsets fixed budget start ts prev
        = Inr [hard_segment content offsets start ts te prev]"
  | (no_progress) te where "ts < length offsets" "te = window_end c content ctx offsets budget ts" "ts < te"
      "next_window c ts te \<le> int ts"
      "hard_windows c content ctx offsets fixed budget start ts prev = Inl NoForwardProgress"
  | (more) te where "ts < length offsets" "te = window_end c content ctx offsets budget ts" "ts < te"
      "te < length offsets" "int ts < next_window c ts te"
      "hard_windows c content ctx offsets fixed budget start ts prev
        = and_then (hard_windows c content ctx offsets fixed budget start (nat (next_window c ts te)) te)
            (\<lambda>segs. Inr (hard_segment content offsets start ts te prev # segs))"
proof -
  define te where "te = window_end c content ctx offsets budget ts"
  have u: "hard_windows c content ctx offsets fixed budget start ts prev =
    (if length offsets \<le> ts then Inr []
     else if te \<le> ts then Inl (HeaderTooLong fixed budget (ck_min_content c))
     else if te = length offsets then Inr [hard_segment content offsets start ts te prev]
     else if next_window c ts te \<le> int ts then Inl NoForwardProgress
     else and_then (hard_windows c content ctx offsets fixed budget start (nat (next_window c ts te)) te)
            (\<lambda>segs. Inr (hard_segment content offsets start ts te prev # segs)))"
    unfolding te_def by (subst hard_windows.simps) (simp add: Let_def hard_segment_def case_prod_beta)
  have "te \<le> length offsets" unfolding te_def by (rule window_end_le)
  then show ?thesis
    using u that te_def by (cases "te = length offsets") (auto split: if_splits simp: not_le)
qed

lemma hard_segment_fits:
  assumes "te = window_end c (slice s e source) ctx offsets budget ts" and "ts < te"
  shows "segment_fits c source ctx (hard_segment (slice s e source) offsets s ts te prev)"
proof -
  obtain a b where w: "window_span (slice s e source) offsets ts te = (a, b)" by fastforce
  then have "b \<le> length (slice s e source)"
    unfolding window_span_def by (rule trim_span_bounds(1))
  then have "slice a b (slice s e source) = slice (s + a) (s + b) source"
    by (intro slice_slice) simp
  moreover have "window_fits c (slice s e source) ctx offsets ts te"
    using assms shrink_window_fits by (simp add: window_end_def)
  ultimately show ?thesis
    by (simp add: window_fits_def w segment_fits_def hard_segment_def Let_def)
qed

lemma hard_windows_fit:
  assumes "hard_windows c (slice s e source) ctx offsets fixed budget s ts prev = Inr segs"
  shows "\<forall>sg \<in> set segs. segment_fits c source ctx sg"
  using assms
proof (induction "length offsets - ts" arbitrary: ts prev segs rule: less_induct)
  case less
  show ?case
  proof (cases rule: hard_windows_cases [of offsets ts c "slice s e source" ctx fixed budget s prev])
    case (more te)
    then obtain segs' where r: "hard_windows c (slice s e source) ctx offsets fixed budget s (nat (next_window c ts te)) te = Inr segs'"
      "segs = hard_segment (slice s e source) offsets s ts te prev # segs'"
      using less.prems [unfolded more(6) and_then_Inr] by auto
    have "length offsets - nat (next_window c ts te) < length offsets - ts"
      using more by (intro diff_less_mono2) (auto simp: zless_nat_eq_int_zless)
    from less.hyps [OF this r(1)] r(2) hard_segment_fits [OF more(2,3)] show ?thesis by simp
  qed (use less.prems hard_segment_fits in auto)
qed

lemma link_overlaps_spans:
  "map (\<lambda>s. (sg_start s, sg_end s, sg_method s)) (link_overlaps segs)
     = map (\<lambda>s. (sg_start s, sg_end s, sg_method s)) segs"
  by (induction segs rule: link_overlaps.induct) auto

lemma link_overlaps_set:
  assumes "sg \<in> set (link_overlaps segs)"
  obtains sg' where "sg' \<in> set segs" "sg_start sg' = sg_start sg" "sg_end sg' = sg_end sg"
    "sg_method sg' = sg_method sg"
  using assms arg_cong [OF link_overlaps_spans [of segs], of set] by force

lemma hard_token_segments_fit:
  assumes "hard_token_segments c source ctx s e = Inr segs"
  shows "\<forall>sg \<in> set segs. segment_fits c source ctx sg"
proof
  fix sg
  assume sg: "sg \<in> set segs"
  then obtain raw where r: "hard_windows c (slice s e source) ctx (content_offsets (ck_contract c) (slice s e source))
      (count_final_tokens (ck_contract c) (embedding_text ctx []))
      (ec_max_tokens (ck_contract c) - count_final_tokens (ck_contract c) (embedding_text ctx []) - ck_headroom c)
      s 0 0 = Inr raw" "segs = link_overlaps raw"
    using assms by (auto simp: hard_token_segments_def Let_def and_then_Inr split: if_splits)
  obtain sg' where "sg' \<in> set raw" "sg_start sg' = sg_start sg" "sg_end sg' = sg_end sg"
    using sg unfolding r(2) by (rule link_overlaps_set)
  with hard_windows_fit [OF r(1)] have "segment_fits c source ctx sg'" by blast
  then show "segment_fits c source ctx sg"
    by (simp add: segment_fits_def \<open>sg_start sg' = sg_start sg\<close> \<open>sg_end sg' = sg_end sg\<close>)
qed

lemma repack_step_fits:
  "\<forall>sg \<in> set packed. segment_fits c source ctx sg \<Longrightarrow> segment_fits c source ctx seg \<Longrightarrow>
     \<forall>sg \<in> set (repack_step c source ctx packed seg). segment_fits c source ctx sg"
  by (auto simp: repack_step_def segment_fits_def semantic_def dest: in_set_butlastD)

lemma greedy_repack_fits:
  assumes "\<forall>sg \<in> set segs. segment_fits c source ctx sg"
  shows "\<forall>sg \<in> set (greedy_repack c source ctx segs). segment_fits c source ctx sg"
proof -
  have "\<forall>sg \<in> set (foldl (repack_step c source ctx) packed segs). segment_fits c source ctx sg"
    if "\<forall>sg \<in> set packed. segment_fits c source ctx sg" for packed
    using assms that
  proof (induction segs arbitrary: packed)
    case (Cons sg segs)
    have "\<forall>sg \<in> set (repack_step c source ctx packed sg). segment_fits c source ctx sg"
      by (rule repack_step_fits) (use Cons.prems in simp_all)
    with Cons.IH Cons.prems(1) show ?case by simp
  qed simp
  from this [of "[]"] show ?thesis by (simp add: greedy_repack_def)
qed

lemma semantic_segments_fit:
  "semantic_segments c source ctx bs start end = Inr segs \<Longrightarrow> \<forall>sg \<in> set segs. segment_fits c source ctx sg"
proof (induction bs arbitrary: start "end" segs)
  case Nil
  then show ?case
    by (auto simp: segment_fits_def semantic_def split: prod.splits if_splits dest: hard_token_segments_fit)
next
  case (Cons b bs)
  obtain s e where t: "trim_span source (int start) (int end) = (s, e)" by fastforce
  let ?pieces = "split_source_span source s e b"
  consider "e \<le> s" | "s < e" "fits (ck_contract c) (embedding_text ctx (slice s e source))"
    | "s < e" "\<not> fits (ck_contract c) (embedding_text ctx (slice s e source))" "length ?pieces \<le> 1"
    | "s < e" "\<not> fits (ck_contract c) (embedding_text ctx (slice s e source))" "1 < length ?pieces"
    by linarith
  then show ?case
  proof cases
    case 4
    then obtain found where f: "collect_results (\<lambda>(x, y). semantic_segments c source ctx bs x y) ?pieces = Inr found"
      "segs = greedy_repack c source ctx found"
      using Cons.prems t by (auto simp: Let_def and_then_Inr)
    obtain yss where y: "list_all2 (\<lambda>x zs. (case x of (x, y) \<Rightarrow> semantic_segments c source ctx bs x y) = Inr zs) ?pieces yss"
      "found = concat yss"
      using collect_results_Inr [OF f(1)] by blast
    have "\<forall>sg \<in> set found. segment_fits c source ctx sg"
    proof
      fix sg assume "sg \<in> set found"
      then obtain ys where "ys \<in> set yss" "sg \<in> set ys" unfolding y(2) by auto
      then obtain i where "i < length yss" "yss ! i = ys" by (auto simp: in_set_conv_nth)
      then have "(case ?pieces ! i of (x, y) \<Rightarrow> semantic_segments c source ctx bs x y) = Inr ys"
        using list_all2_nthD2 [OF y(1)] by auto
      then obtain x y where "semantic_segments c source ctx bs x y = Inr ys" by (cases "?pieces ! i") auto
      from Cons.IH [OF this] \<open>sg \<in> set ys\<close> show "segment_fits c source ctx sg" by blast
    qed
    then show ?thesis unfolding f(2) by (rule greedy_repack_fits)
  qed (use Cons.prems t Cons.IH in \<open>auto simp: Let_def segment_fits_def semantic_def split: if_splits\<close>)
qed

section \<open>Only a header that is too long raises\<close>

definition header_error :: "chunk_error \<Rightarrow> bool" where
  "header_error e \<longleftrightarrow> (case e of HeaderTooLong _ _ _ \<Rightarrow> True | _ \<Rightarrow> False)"

lemma hard_windows_error:
  assumes "hard_windows c content ctx offsets fixed budget start ts prev = Inl err" and "0 < ck_min_forward c"
  shows "header_error err"
  using assms(1)
proof (induction "length offsets - ts" arbitrary: ts prev rule: less_induct)
  case less
  show ?case
  proof (cases rule: hard_windows_cases [of offsets ts c content ctx fixed budget start prev])
    case (more te)
    then have r: "hard_windows c content ctx offsets fixed budget start (nat (next_window c ts te)) te = Inl err"
      using less.prems [unfolded more(6) and_then_Inl] by auto
    have "length offsets - nat (next_window c ts te) < length offsets - ts"
      using more by (intro diff_less_mono2) (auto simp: zless_nat_eq_int_zless)
    from less.hyps [OF this r] show ?thesis .
  next
    case (no_progress te)
    with next_window_gt [OF no_progress(3) assms(2)] show ?thesis by simp
  qed (use less.prems in \<open>auto simp: header_error_def\<close>)
qed

lemma hard_token_segments_error:
  "hard_token_segments c source ctx s e = Inl err \<Longrightarrow> 0 < ck_min_forward c \<Longrightarrow> header_error err"
  by (auto simp: hard_token_segments_def Let_def and_then_Inl header_error_def
      dest: hard_windows_error [unfolded header_error_def] split: if_splits)

lemma semantic_segments_error:
  assumes "0 < ck_min_forward c"
  shows "semantic_segments c source ctx bs start end = Inl err \<Longrightarrow> header_error err"
proof (induction bs arbitrary: start "end")
  case Nil
  then show ?case
    by (auto split: prod.splits if_splits dest: hard_token_segments_error [OF _ assms])
next
  case (Cons b bs)
  obtain s e where t: "trim_span source (int start) (int end) = (s, e)" by fastforce
  have "header_error err" if "collect_results (\<lambda>(x, y). semantic_segments c source ctx bs x y) ps = Inl err" for ps
    using collect_results_Inl [OF that] Cons.IH by fastforce
  then show ?case
    using Cons.prems t Cons.IH by (auto simp: Let_def and_then_Inl split: if_splits)
qed

lemma collect_results_all:
  assumes "collect_results f xs = Inr ys" and "\<And>x zs. x \<in> set xs \<Longrightarrow> f x = Inr zs \<Longrightarrow> \<forall>z \<in> set zs. P z"
  shows "\<forall>y \<in> set ys. P y"
  using assms by (induction xs arbitrary: ys) (fastforce simp: and_then_Inr)+

lemma candidate_chunks_fit:
  assumes "candidate_chunks c source u ctx cand = Inr xs"
  shows "\<forall>x \<in> set xs. fits (ck_contract c) (cd_embedding x)"
  using assms
  by (auto simp: candidate_chunks_def Let_def and_then_Inr split_chunk_def enumerate_eq_zip
      dest!: semantic_segments_fit [unfolded segment_fits_def] set_zip_rightD split: if_splits)

lemma candidate_chunks_error:
  "candidate_chunks c source u ctx cand = Inl err \<Longrightarrow> 0 < ck_min_forward c \<Longrightarrow> header_error err"
  by (auto simp: candidate_chunks_def Let_def and_then_Inl semantic_segments_error split: if_splits)

lemma own_chunks_fit:
  assumes "own_chunks c source m ancestors u = Inr xs"
  shows "\<forall>x \<in> set xs. fits (ck_contract c) (cd_embedding x)"
proof (cases "own_span source u")
  case (Pair s e)
  show ?thesis
  proof (cases "s < e")
    case True
    with assms Pair have "collect_results (candidate_chunks c source u (build_context m u ancestors))
        (normal_candidates c source s e) = Inr xs" by (simp add: own_chunks_def)
    then show ?thesis by (rule collect_results_all) (rule candidate_chunks_fit)
  qed (use assms Pair in \<open>simp add: own_chunks_def\<close>)
qed

lemma own_chunks_error:
  "own_chunks c source m ancestors u = Inl err \<Longrightarrow> 0 < ck_min_forward c \<Longrightarrow> header_error err"
  by (auto simp: own_chunks_def split: prod.splits if_splits dest!: collect_results_Inl intro: candidate_chunks_error)

lemma process_fit:
  "process_unit c source m ancestors u = Inr xs \<Longrightarrow> \<forall>x \<in> set xs. fits (ck_contract c) (cd_embedding x)"
  "process_units c source m ancestors us = Inr ys \<Longrightarrow> \<forall>x \<in> set ys. fits (ck_contract c) (cd_embedding x)"
  by (induction c source m ancestors u and c source m ancestors us arbitrary: xs and ys
      rule: process_unit_process_units.induct)
    (fastforce simp: and_then_Inr dest: own_chunks_fit)+

lemma process_error:
  "process_unit c source m ancestors u = Inl err \<Longrightarrow> 0 < ck_min_forward c \<Longrightarrow> header_error err"
  "process_units c source m ancestors us = Inl err \<Longrightarrow> 0 < ck_min_forward c \<Longrightarrow> header_error err"
  by (induction c source m ancestors u and c source m ancestors us
      rule: process_unit_process_units.induct)
    (auto simp: and_then_Inl dest: own_chunks_error)

lemma validate_chunks_fit:
  "\<forall>x \<in> set xs. fits (ck_contract c) (cd_embedding x) \<Longrightarrow> validate_chunks c xs = Inr ()"
  by (induction xs) (auto simp: validate_input_def fits_def Let_def)

lemma number_chunks_fit:
  "\<forall>x \<in> set xs. fits k (cd_embedding x) \<Longrightarrow> \<forall>x \<in> set (number_chunks xs). fits k (cd_embedding x)"
  by (auto simp: number_chunks_def enumerate_eq_zip dest: set_zip_rightD)

lemma generate_chunks_eq:
  "generate_chunks c source units m = and_then (process_units c source m [] units) (\<lambda>xs. Inr (number_chunks xs))"
proof (cases "process_units c source m [] units")
  case (Inr xs)
  then show ?thesis
    using validate_chunks_fit [OF number_chunks_fit [OF process_fit(2) [OF Inr]]]
    by (simp add: generate_chunks_def Let_def)
qed (simp add: generate_chunks_def)

section \<open>No text is lost\<close>

definition in_segment :: "nat \<Rightarrow> segment \<Rightarrow> bool" where
  "in_segment p sg \<longleftrightarrow> sg_start sg \<le> p \<and> p < sg_end sg"

definition text_at :: "pytext \<Rightarrow> nat \<Rightarrow> bool" where
  "text_at source p \<longleftrightarrow> p < length source \<and> \<not> py_space (source ! p)"

definition covers :: "pytext \<Rightarrow> nat \<Rightarrow> nat \<Rightarrow> segment list \<Rightarrow> bool" where
  "covers source lo hi segs \<longleftrightarrow>
     (\<forall>p. lo \<le> p \<and> p < hi \<and> text_at source p \<longrightarrow> (\<exists>sg \<in> set segs. in_segment p sg))"

text \<open>
  What the code relies on in a fast tokenizer: the offsets of a text that starts with a visible
  character start at 0 and do not go back.
\<close>

definition good_offsets :: "e5_contract \<Rightarrow> bool" where
  "good_offsets k \<longleftrightarrow> (\<forall>t. t \<noteq> [] \<and> \<not> py_space (hd t) \<longrightarrow>
     content_offsets k t \<noteq> [] \<and> fst (hd (content_offsets k t)) = 0
     \<and> sorted (map fst (content_offsets k t)))"

lemma trim_keeps:
  assumes "trim_span source (int s) e = (a, b)" and "text_at source p" and "s \<le> p" and "int p < e"
  shows "a \<le> p" and "p < b"
  using trim_span_keeps [OF assms(1), of p] assms by (auto simp: text_at_def)

lemma trim_span_first:
  assumes "trim_span source s e = (a, b)" and "a < b"
  shows "\<not> py_space (source ! a)"
proof -
  obtain S E where E: "E = min (length source) (max S (nat e))"
    and a: "a = S + length (takeWhile py_space (slice S E source))"
    and b: "b = E - length (takeWhile py_space (rev (slice a E source)))"
    using assms(1) by (rule trim_span_unfold)
  have "E \<le> length source" unfolding E by simp
  have "b \<le> E" unfolding b by simp
  with assms(2) have "a < E" by linarith
  have "length (slice S E source) = E - S" using \<open>E \<le> length source\<close> by simp
  with a \<open>a < E\<close> have "length (takeWhile py_space (slice S E source)) < length (slice S E source)"
    by linarith
  then have "\<not> py_space (slice S E source ! length (takeWhile py_space (slice S E source)))"
    by (rule nth_length_takeWhile)
  moreover have "slice S E source ! length (takeWhile py_space (slice S E source)) = source ! a"
    using nth_slice [of S "length (takeWhile py_space (slice S E source))" E source]
      a \<open>a < E\<close> \<open>E \<le> length source\<close> by argo
  ultimately show ?thesis by simp
qed

lemma hard_segment_covers:
  assumes "text_at content p" and "fst (offsets ! ts) \<le> p"
    and "te < length offsets \<Longrightarrow> p < fst (offsets ! te)"
  shows "in_segment (start + p) (hard_segment content offsets start ts te prev)"
proof -
  obtain a b where w: "window_span content offsets ts te = (a, b)" by fastforce
  then have "a \<le> p" "p < b"
    using assms trim_keeps [OF w [unfolded window_span_def], of p]
    by (auto simp: text_at_def split: if_splits)
  then show ?thesis by (simp add: in_segment_def hard_segment_def w)
qed

lemma next_window_le: "0 \<le> ck_overlap c \<Longrightarrow> next_window c ts te \<le> int te"
  by (simp add: next_window_def)

lemma hard_windows_cover:
  assumes "hard_windows c content ctx offsets fixed budget start ts prev = Inr segs"
    and "sorted (map fst offsets)" and "0 \<le> ck_overlap c"
    and "text_at content p" and "ts < length offsets" and "fst (offsets ! ts) \<le> p"
  shows "\<exists>sg \<in> set segs. in_segment (start + p) sg"
  using assms(1,5,6)
proof (induction "length offsets - ts" arbitrary: ts prev segs rule: less_induct)
  case less
  show ?case
  proof (cases rule: hard_windows_cases [of offsets ts c content ctx fixed budget start prev])
    case (final te)
    then show ?thesis
      using less.prems hard_segment_covers [OF assms(4) less.prems(3), of te] by auto
  next
    case (more te)
    then obtain segs' where r: "hard_windows c content ctx offsets fixed budget start (nat (next_window c ts te)) te = Inr segs'"
      "segs = hard_segment content offsets start ts te prev # segs'"
      using less.prems(1) [unfolded more(6) and_then_Inr] by auto
    show ?thesis
    proof (cases "p < fst (offsets ! te)")
      case True
      then show ?thesis using hard_segment_covers [OF assms(4) less.prems(3)] r(2) by simp
    next
      case False
      let ?n = "nat (next_window c ts te)"
      have "?n \<le> te" using next_window_le [OF assms(3), of ts te] by linarith
      then have "fst (offsets ! ?n) \<le> fst (offsets ! te)" and n: "?n < length offsets"
        using sorted_nth_mono [OF assms(2)] more(4) by auto
      then have "fst (offsets ! ?n) \<le> p" using False by simp
      moreover have "length offsets - ?n < length offsets - ts"
        using more by (intro diff_less_mono2) (auto simp: zless_nat_eq_int_zless)
      ultimately show ?thesis using less.hyps [OF _ r(1) n] r(2) by auto
    qed
  qed (use less.prems in auto)
qed

lemma in_segment_link:
  "(\<exists>sg \<in> set (link_overlaps segs). in_segment p sg) \<longleftrightarrow> (\<exists>sg \<in> set segs. in_segment p sg)"
proof -
  have "(\<exists>sg \<in> set xs. in_segment p sg) \<longleftrightarrow>
      (\<exists>t \<in> set (map (\<lambda>s. (sg_start s, sg_end s, sg_method s)) xs). fst t \<le> p \<and> p < fst (snd t))" for xs
    by (force simp: in_segment_def)
  from this [of "link_overlaps segs"] this [of segs] show ?thesis by (simp only: link_overlaps_spans)
qed

lemma hard_token_segments_cover:
  assumes "hard_token_segments c source ctx s e = Inr segs" and "good_offsets (ck_contract c)"
    and "0 \<le> ck_overlap c" and "s < e" and "e \<le> length source" and "\<not> py_space (source ! s)"
  shows "covers source s e segs"
  unfolding covers_def
proof (intro allI impI)
  fix p
  assume p: "s \<le> p \<and> p < e \<and> text_at source p"
  let ?content = "slice s e source" let ?offs = "content_offsets (ck_contract c) ?content"
  have "?content \<noteq> []" "hd ?content = source ! s"
    using assms(4,5) by (auto simp: slice_def hd_drop_conv_nth)
  then have o: "?offs \<noteq> []" "fst (hd ?offs) = 0" "sorted (map fst ?offs)"
    using assms(2,6) by (auto simp: good_offsets_def)
  then obtain fixed budget raw where r: "hard_windows c ?content ctx ?offs fixed budget s 0 0 = Inr raw"
    "segs = link_overlaps raw"
    using assms(1) by (auto simp: hard_token_segments_def Let_def and_then_Inr split: if_splits)
  have t: "text_at ?content (p - s)" using p by (auto simp: text_at_def slice_def)
  have "\<exists>sg \<in> set raw. in_segment (s + (p - s)) sg"
    by (rule hard_windows_cover [OF r(1) o(3) assms(3) t]) (use o(1,2) in \<open>simp_all add: hd_conv_nth\<close>)
  then show "\<exists>sg \<in> set segs. in_segment p sg" using p by (simp add: r(2) in_segment_link)
qed

text \<open>Matches of a boundary pattern: ordered, inside the text, and made of white space.\<close>

fun matches_ok :: "pytext \<Rightarrow> nat \<Rightarrow> (nat \<times> nat) list \<Rightarrow> bool" where
  "matches_ok xs cursor [] = True"
| "matches_ok xs cursor ((a, b) # ms) = (cursor \<le> a \<and> a < b \<and> b \<le> length xs
     \<and> (\<forall>i. a \<le> i \<and> i < b \<longrightarrow> py_space (xs ! i)) \<and> matches_ok xs b ms)"

lemma matches_ok_mono: "matches_ok xs b ms \<Longrightarrow> a \<le> b \<Longrightarrow> matches_ok xs a ms"
  by (cases ms) auto

lemma matches_ok_run:
  assumes "matches_ok ((pre @ run) @ rest) (length (pre @ run)) ms" and "run \<noteq> []"
    and "\<forall>x \<in> set run. py_space x"
  shows "matches_ok (pre @ run @ rest) (length pre) ((length pre, length pre + length run) # ms)"
proof -
  have "py_space ((pre @ run @ rest) ! i)" if "length pre \<le> i" "i < length pre + length run" for i
    using that assms(3) by (auto simp: nth_append)
  then show ?thesis using assms(1,2) by simp
qed

lemma drop_run [simp]: "drop (length (takeWhile P xs)) xs = dropWhile P xs"
  by (simp add: dropWhile_eq_drop)

lemma drop_runs [simp]:
  "drop (length (takeWhile P xs) + length (takeWhile Q (dropWhile P xs))) xs = dropWhile Q (dropWhile P xs)"
  by (metis add.commute drop_drop drop_run)

lemma dropWhile_shorter:
  "length (dropWhile P xs) < Suc (length xs)" "length (dropWhile P (dropWhile Q xs)) < Suc (length xs)"
  by (meson le_imp_less_Suc length_dropWhile_le le_trans)+

lemma paragraph_matches_ok:
  "matches_ok (pre @ cs) (length pre) (paragraph_matches (length pre) cs)"
proof (induction "length cs" arbitrary: pre cs rule: less_induct)
  case less
  show ?case
  proof (cases cs)
    case Nil
    then show ?thesis by simp
  next
    case (Cons d ds)
    let ?gap = "takeWhile blank ds"
    let ?breaks = "takeWhile (\<lambda>d. d = 10) (dropWhile blank ds)"
    let ?rest = "dropWhile (\<lambda>d. d = 10) (dropWhile blank ds)"
    show ?thesis
    proof (cases "d = 10 \<and> ?breaks \<noteq> []")
      case True
      let ?run = "d # ?gap @ ?breaks"
      have cs: "cs = ?run @ ?rest" by (simp add: Cons)
      have "py_space x" if "x \<in> set ?run" for x
      proof -
        have "x = 10 \<or> blank x" using that True by (auto dest: set_takeWhileD)
        then show ?thesis by (auto simp: blank_def py_space_def)
      qed
      moreover have "matches_ok ((pre @ ?run) @ ?rest) (length (pre @ ?run)) (paragraph_matches (length (pre @ ?run)) ?rest)"
        by (rule less) (simp add: Cons dropWhile_shorter)
      ultimately have "matches_ok (pre @ ?run @ ?rest) (length pre)
          ((length pre, length pre + length ?run) # paragraph_matches (length (pre @ ?run)) ?rest)"
        by (intro matches_ok_run) simp_all
      moreover have "drop (length ?run) cs = ?rest" by (subst cs) simp
      then have "paragraph_matches (length pre) cs
          = (length pre, length pre + length ?run) # paragraph_matches (length (pre @ ?run)) ?rest"
        using True by (simp add: Cons Let_def)
      ultimately show ?thesis using cs by simp
    next
      case False
      then have "paragraph_matches (length pre) cs = paragraph_matches (length (pre @ [d])) ds"
        by (auto simp: Cons Let_def)
      moreover have "matches_ok ((pre @ [d]) @ ds) (length (pre @ [d])) (paragraph_matches (length (pre @ [d])) ds)"
        by (rule less) (simp add: Cons)
      ultimately show ?thesis using matches_ok_mono [of "pre @ cs" "length (pre @ [d])"] by (simp add: Cons)
    qed
  qed
qed

lemma line_matches_ok: "matches_ok (pre @ cs) (length pre) (line_matches (length pre) cs)"
proof (induction "length cs" arbitrary: pre cs rule: less_induct)
  case less
  show ?case
  proof (cases cs)
    case Nil
    then show ?thesis by simp
  next
    case (Cons d ds)
    show ?thesis
    proof (cases "d = 10")
      case True
      let ?run = "d # takeWhile (\<lambda>d. d = 10) ds" and ?rest = "dropWhile (\<lambda>d. d = 10) ds"
      have cs: "cs = ?run @ ?rest" by (simp add: Cons)
      have "py_space x" if "x \<in> set ?run" for x
      proof -
        have "x = 10" using that True by (auto dest: set_takeWhileD)
        then show ?thesis by (simp add: py_space_def)
      qed
      moreover have "matches_ok ((pre @ ?run) @ ?rest) (length (pre @ ?run)) (line_matches (length (pre @ ?run)) ?rest)"
        by (rule less) (simp add: Cons dropWhile_shorter)
      ultimately have "matches_ok (pre @ ?run @ ?rest) (length pre)
          ((length pre, length pre + length ?run) # line_matches (length (pre @ ?run)) ?rest)"
        by (intro matches_ok_run) simp_all
      moreover have "drop (length ?run) cs = ?rest" by (subst cs) simp
      then have "line_matches (length pre) cs
          = (length pre, length pre + length ?run) # line_matches (length (pre @ ?run)) ?rest"
        using True by (simp add: Cons Let_def)
      ultimately show ?thesis using cs by simp
    next
      case False
      moreover have "matches_ok ((pre @ [d]) @ ds) (length (pre @ [d])) (line_matches (length (pre @ [d])) ds)"
        by (rule less) (simp add: Cons)
      ultimately show ?thesis using matches_ok_mono [of "pre @ cs" "length (pre @ [d])"] by (simp add: Cons)
    qed
  qed
qed

lemma sentence_matches_ok: "matches_ok (pre @ cs) (length pre) (sentence_matches after (length pre) cs)"
proof (induction "length cs" arbitrary: pre cs after rule: less_induct)
  case less
  show ?case
  proof (cases cs)
    case Nil
    then show ?thesis by simp
  next
    case (Cons d ds)
    show ?thesis
    proof (cases "after \<and> py_space d")
      case True
      let ?run = "d # takeWhile py_space ds" and ?rest = "dropWhile py_space ds"
      have cs: "cs = ?run @ ?rest" by (simp add: Cons)
      have "py_space x" if "x \<in> set ?run" for x using that True by (auto dest: set_takeWhileD)
      moreover have "matches_ok ((pre @ ?run) @ ?rest) (length (pre @ ?run)) (sentence_matches False (length (pre @ ?run)) ?rest)"
        by (rule less) (simp add: Cons dropWhile_shorter)
      ultimately have "matches_ok (pre @ ?run @ ?rest) (length pre)
          ((length pre, length pre + length ?run) # sentence_matches False (length (pre @ ?run)) ?rest)"
        by (intro matches_ok_run) simp_all
      moreover have "drop (length ?run) cs = ?rest" by (subst cs) simp
      then have "sentence_matches after (length pre) cs
          = (length pre, length pre + length ?run) # sentence_matches False (length (pre @ ?run)) ?rest"
        using True by (simp add: Cons Let_def)
      ultimately show ?thesis using cs by simp
    next
      case False
      moreover have "matches_ok ((pre @ [d]) @ ds) (length (pre @ [d])) (sentence_matches (sentence_end d) (length (pre @ [d])) ds)"
        by (rule less) (simp add: Cons)
      ultimately show ?thesis using matches_ok_mono [of "pre @ cs" "length (pre @ [d])"] by (auto simp: Cons)
    qed
  qed
qed

definition boundary_ok :: "(pytext \<Rightarrow> (nat \<times> nat) list) \<Rightarrow> bool" where
  "boundary_ok b \<longleftrightarrow> (\<forall>t. matches_ok t 0 (b t))"

lemma boundaries_ok: "\<forall>b \<in> set semantic_boundaries. boundary_ok b"
  using paragraph_matches_ok [of "[]"] line_matches_ok [of "[]"] sentence_matches_ok [of "[]"]
  by (simp add: semantic_boundaries_def boundary_ok_def)

text \<open>Pieces between matches: ordered, non-empty, and containing all the text.\<close>

definition ordered_spans :: "nat \<Rightarrow> nat \<Rightarrow> (nat \<times> nat) list \<Rightarrow> bool" where
  "ordered_spans lo hi ps \<longleftrightarrow> (\<forall>(x, y) \<in> set ps. lo \<le> x \<and> x < y \<and> y \<le> hi)
     \<and> sorted_wrt (\<lambda>p q. snd p \<le> fst q) ps"

lemma ordered_spans_Cons:
  "ordered_spans lo hi ((x, y) # ps) \<longleftrightarrow> lo \<le> x \<and> x < y \<and> y \<le> hi \<and> ordered_spans y hi ps"
  by (fastforce simp: ordered_spans_def)

lemma ordered_spans_mono: "ordered_spans lo hi ps \<Longrightarrow> lo' \<le> lo \<Longrightarrow> ordered_spans lo' hi ps"
  by (fastforce simp: ordered_spans_def)

lemma piece_spans_ok:
  assumes "matches_ok local cursor ms" and "cursor \<le> length local"
  shows "ordered_spans (start + cursor) (start + length local) (piece_spans start (length local) cursor ms)
    \<and> (\<forall>p. cursor \<le> p \<and> text_at local p \<longrightarrow>
         (\<exists>(x, y) \<in> set (piece_spans start (length local) cursor ms). x \<le> start + p \<and> start + p < y))"
  using assms
proof (induction ms arbitrary: cursor)
  case Nil
  then show ?case by (auto simp: ordered_spans_def text_at_def)
next
  case (Cons m ms)
  obtain a b where m: "m = (a, b)" by (cases m)
  have ab: "cursor \<le> a" "a < b" "b \<le> length local" and sp: "\<forall>i. a \<le> i \<and> i < b \<longrightarrow> py_space (local ! i)"
    and rest: "matches_ok local b ms"
    using Cons.prems(1) by (simp_all add: m)
  note ih = Cons.IH [OF rest ab(3)]
  have o: "ordered_spans (start + cursor) (start + length local) (piece_spans start (length local) cursor (m # ms))"
    using ih ab ordered_spans_mono [of "start + b" "start + length local"]
    by (auto simp: m ordered_spans_Cons)
  have "\<exists>(x, y) \<in> set (piece_spans start (length local) cursor (m # ms)). x \<le> start + p \<and> start + p < y"
    if p: "cursor \<le> p" "text_at local p" for p
  proof (cases "p < a")
    case True
    with p(1) show ?thesis by (auto simp: m)
  next
    case False
    with sp p(2) have "b \<le> p" by (auto simp: text_at_def not_less)
    with ih p(2) show ?thesis by (auto simp: m)
  qed
  with o show ?case by blast
qed

lemma trimmed_pieces_ok:
  assumes "matches_ok (slice start end source) cursor ms" and "cursor \<le> end - start"
    and "start < end" and "end \<le> length source"
  shows "ordered_spans (start + cursor) end (trimmed_pieces source start end cursor ms)
    \<and> (\<forall>p. start + cursor \<le> p \<and> p < end \<and> text_at source p \<longrightarrow>
         (\<exists>(x, y) \<in> set (trimmed_pieces source start end cursor ms). x \<le> p \<and> p < y))"
  using assms(1,2)
proof (induction ms arbitrary: cursor)
  case Nil
  obtain x y where t: "trim_span source (int (start + cursor)) (int end) = (x, y)" by fastforce
  have "start + cursor \<le> x" "x < y \<Longrightarrow> y \<le> end" using trim_span_bounds [OF t] by auto
  moreover have "x \<le> p \<and> p < y" if "start + cursor \<le> p" "p < end" "text_at source p" for p
    using trim_keeps [OF t that(3,1)] that(2) by simp
  ultimately show ?case by (auto simp: t ordered_spans_def Let_def simp del: of_nat_add) fastforce
next
  case (Cons m ms)
  obtain a b where m: "m = (a, b)" by (cases m)
  obtain x y where t: "trim_span source (int (start + cursor)) (int (start + a)) = (x, y)" by fastforce
  have len: "length (slice start end source) = end - start" using assms(4) by simp
  have ab: "cursor \<le> a" "a < b" "b \<le> end - start" and rest: "matches_ok (slice start end source) b ms"
    and sp: "\<forall>i. a \<le> i \<and> i < b \<longrightarrow> py_space (slice start end source ! i)"
    using Cons.prems(1) len by (simp_all add: m)
  have sp': "py_space (source ! p)" if "start + a \<le> p" "p < start + b" for p
  proof -
    have "py_space (slice start end source ! (p - start))"
      by (rule sp [rule_format]) (use that in auto)
    moreover have "slice start end source ! (p - start) = source ! p"
      using nth_slice [of start "p - start" "end" source] that ab(3) assms(3,4) by simp
    ultimately show ?thesis by simp
  qed
  note ih = Cons.IH [OF rest ab(3)]
  have xy: "start + cursor \<le> x" "x < y \<Longrightarrow> y \<le> start + a" using trim_span_bounds [OF t] by auto
  have o: "ordered_spans (start + cursor) end (trimmed_pieces source start end cursor (m # ms))"
  proof (cases "x < y")
    case True
    with ih xy ab show ?thesis
      using ordered_spans_mono [of "start + b" "end" _ y]
      by (auto simp: m t Let_def ordered_spans_Cons simp del: of_nat_add)
  next
    case False
    with ih ab show ?thesis
      using ordered_spans_mono [of "start + b" "end" _ "start + cursor"]
      by (auto simp: m t Let_def simp del: of_nat_add)
  qed
  have "\<exists>(x, y) \<in> set (trimmed_pieces source start end cursor (m # ms)). x \<le> p \<and> p < y"
    if p: "start + cursor \<le> p" "p < end" "text_at source p" for p
  proof (cases "p < start + a")
    case True
    with trim_keeps [OF t p(3,1)] have "x \<le> p \<and> p < y" by simp
    then show ?thesis by (auto simp: m t Let_def simp del: of_nat_add)
  next
    case False
    with sp' [of p] p(3) have "start + b \<le> p" by (meson not_less text_at_def)
    with ih p(2,3) have "\<exists>(x, y) \<in> set (trimmed_pieces source start end b ms). x \<le> p \<and> p < y" by blast
    then show ?thesis by (auto simp: m Let_def simp del: of_nat_add)
  qed
  with o show ?case by blast
qed

lemma split_source_span_ok:
  assumes "boundary_ok b" and "s < e" and "e \<le> length source"
  shows "ordered_spans s e (split_source_span source s e b)"
    and "\<And>p. s \<le> p \<Longrightarrow> p < e \<Longrightarrow> text_at source p \<Longrightarrow>
      \<exists>(x, y) \<in> set (split_source_span source s e b). x \<le> p \<and> p < y"
  using trimmed_pieces_ok [of s e source 0 "b (slice s e source)"] assms
  by (simp_all add: split_source_span_def boundary_ok_def)

text \<open>Semantic segments never overlap, and repacking them loses nothing.\<close>

definition tidy :: "nat \<Rightarrow> nat \<Rightarrow> segment list \<Rightarrow> bool" where
  "tidy lo hi segs \<longleftrightarrow> (\<forall>sg \<in> set segs. sg_method sg = SEMANTIC \<longrightarrow>
       lo \<le> sg_start sg \<and> sg_start sg \<le> sg_end sg \<and> sg_end sg \<le> hi)
     \<and> sorted_wrt (\<lambda>x y. sg_method x = SEMANTIC \<and> sg_method y = SEMANTIC \<longrightarrow> sg_end x \<le> sg_start y) segs"

lemma tidy_append:
  assumes "tidy lo mid xs" and "tidy mid' hi ys" and "mid \<le> mid'" and "lo \<le> mid'" and "mid \<le> hi"
  shows "tidy lo hi (xs @ ys)"
  using assms unfolding tidy_def by (fastforce simp: sorted_wrt_append)

lemma tidy_concat:
  assumes "list_all2 (\<lambda>p ys. tidy (fst p) (snd p) ys) ps yss" and "ordered_spans lo hi ps" and "lo \<le> hi"
  shows "tidy lo hi (concat yss)"
  using assms
proof (induction ps yss arbitrary: lo rule: list_all2_induct)
  case Nil
  then show ?case by (simp add: tidy_def)
next
  case (Cons p ps ys yss)
  obtain x y where p: "p = (x, y)" by (cases p)
  have o: "lo \<le> x" "x < y" "y \<le> hi" "ordered_spans y hi ps"
    using Cons.prems(1) by (simp_all add: p ordered_spans_Cons)
  have "tidy y hi (concat yss)" by (rule Cons.IH) (use o in auto)
  moreover have "tidy x y ys" using Cons.hyps(1) by (simp add: p)
  then have "tidy lo y ys" using o(1) by (fastforce simp: tidy_def)
  ultimately show ?case using tidy_append [of lo y ys y hi "concat yss"] o by simp
qed

lemma repack_step_tidy:
  assumes "tidy lo hi (packed @ seg # rest)"
  shows "tidy lo hi (repack_step c source ctx packed seg @ rest)
    \<and> (\<forall>p. (\<exists>sg \<in> set (packed @ [seg]). in_segment p sg) \<longrightarrow>
          (\<exists>sg \<in> set (repack_step c source ctx packed seg). in_segment p sg))"
proof (cases "packed \<noteq> [] \<and> sg_method (last packed) = SEMANTIC \<and> sg_method seg = SEMANTIC
        \<and> fits (ck_contract c) (embedding_text ctx (slice (sg_start (last packed)) (sg_end seg) source))")
  case True
  then obtain init l where packed: "packed = init @ [l]" and l: "sg_method l = SEMANTIC"
    by (cases packed rule: rev_cases) auto
  let ?m = "semantic (sg_start l) (sg_end seg)"
  have eq: "repack_step c source ctx (init @ [l]) seg = init @ [?m]"
    using True by (simp add: repack_step_def packed)
  have o: "sg_end l \<le> sg_start seg" "sg_start l \<le> sg_end l" "sg_start seg \<le> sg_end seg"
    using assms True l by (auto simp: packed tidy_def sorted_wrt_append)
  have "tidy lo hi (init @ ?m # rest)"
    using assms True l o unfolding tidy_def packed
    by (fastforce simp: sorted_wrt_append semantic_def)
  moreover have "in_segment p ?m" if "in_segment p l \<or> in_segment p seg" for p
    using that o by (auto simp: in_segment_def semantic_def)
  ultimately show ?thesis by (auto simp: eq packed)
next
  case False
  then have "repack_step c source ctx packed seg = packed @ [seg]" by (simp only: repack_step_def if_False)
  with assms show ?thesis by simp
qed

lemma foldl_repack_tidy:
  assumes "tidy lo hi (packed @ segs)"
  shows "tidy lo hi (foldl (repack_step c source ctx) packed segs)
    \<and> (\<forall>p. (\<exists>sg \<in> set (packed @ segs). in_segment p sg) \<longrightarrow>
          (\<exists>sg \<in> set (foldl (repack_step c source ctx) packed segs). in_segment p sg))"
  using assms
proof (induction segs arbitrary: packed)
  case (Cons seg segs)
  note step = repack_step_tidy [OF Cons.prems, of c source ctx]
  note ih = Cons.IH [OF step [THEN conjunct1]]
  have "\<exists>sg \<in> set (foldl (repack_step c source ctx) packed (seg # segs)). in_segment p sg"
    if "\<exists>sg \<in> set (packed @ seg # segs). in_segment p sg" for p
  proof -
    have "(\<exists>sg \<in> set (packed @ [seg]). in_segment p sg) \<or> (\<exists>sg \<in> set segs. in_segment p sg)"
      using that by auto
    then have "\<exists>sg \<in> set (repack_step c source ctx packed seg @ segs). in_segment p sg"
      using step [THEN conjunct2, rule_format, of p] by auto
    then show ?thesis using ih by auto
  qed
  with ih show ?case by simp
qed simp

lemma covers_repack:
  assumes "tidy lo hi segs" and "covers source s e segs"
  shows "tidy lo hi (greedy_repack c source ctx segs)" and "covers source s e (greedy_repack c source ctx segs)"
  using foldl_repack_tidy [of lo hi "[]" segs c source ctx] assms
  by (simp_all add: greedy_repack_def covers_def)

lemma covers_trim:
  assumes "trim_span source (int s) (int e) = (a, b)" and "covers source a b segs"
  shows "covers source s e segs"
  unfolding covers_def
proof (intro allI impI)
  fix p assume p: "s \<le> p \<and> p < e \<and> text_at source p"
  then have "a \<le> p" "p < b" using trim_keeps [OF assms(1), of p] by auto
  with p assms(2) show "\<exists>sg \<in> set segs. in_segment p sg" by (simp add: covers_def)
qed

lemma hard_not_semantic:
  assumes "hard_token_segments c source ctx s e = Inr segs"
  shows "\<forall>sg \<in> set segs. sg_method sg = HARD_TOKEN"
proof -
  have w: "\<forall>sg \<in> set raw. sg_method sg = HARD_TOKEN"
    if "hard_windows c content ctx offsets fixed budget start ts prev = Inr raw"
    for content offsets fixed budget start ts prev raw
    using that
  proof (induction "length offsets - ts" arbitrary: ts prev raw rule: less_induct)
    case less
    show ?case
    proof (cases rule: hard_windows_cases [of offsets ts c content ctx fixed budget start prev])
      case (more te)
      then obtain segs' where r: "hard_windows c content ctx offsets fixed budget start (nat (next_window c ts te)) te = Inr segs'"
        "raw = hard_segment content offsets start ts te prev # segs'"
        using less.prems [unfolded more(6) and_then_Inr] by auto
      have "length offsets - nat (next_window c ts te) < length offsets - ts"
        using more by (intro diff_less_mono2) (auto simp: zless_nat_eq_int_zless)
      from less.hyps [OF this r(1)] show ?thesis by (simp add: r(2) hard_segment_def)
    qed (use less.prems in \<open>auto simp: hard_segment_def\<close>)
  qed
  show ?thesis
  proof
    fix sg assume "sg \<in> set segs"
    then obtain offsets fixed budget raw where
      r: "hard_windows c (slice s e source) ctx offsets fixed budget s 0 0 = Inr raw" "segs = link_overlaps raw"
      using assms by (auto simp: hard_token_segments_def Let_def and_then_Inr split: if_splits)
    obtain sg' where "sg' \<in> set raw" "sg_method sg' = sg_method sg"
      using \<open>sg \<in> set segs\<close> unfolding r(2) by (rule link_overlaps_set)
    with w [OF r(1)] show "sg_method sg = HARD_TOKEN" by auto
  qed
qed

lemma tidy_hard: "\<forall>sg \<in> set segs. sg_method sg = HARD_TOKEN \<Longrightarrow> tidy lo hi segs"
  unfolding tidy_def by (induction segs) auto

lemma tidy_widen: "tidy a b segs \<Longrightarrow> lo \<le> a \<Longrightarrow> b \<le> hi \<Longrightarrow> tidy lo hi segs"
  by (fastforce simp: tidy_def)

lemma trim_within:
  assumes "trim_span source (int s) (int e) = (a, b)" and "a < b"
  shows "s \<le> a" and "b \<le> e" and "b \<le> length source" and "\<not> py_space (source ! a)"
  using trim_span_bounds [OF assms(1)] trim_span_first [OF assms] assms(2) by auto

lemma covers_none: "e \<le> s \<Longrightarrow> covers source s e []"
  by (simp add: covers_def)

lemma covers_one: "covers source s e [semantic s e]"
  by (simp add: covers_def semantic_def in_segment_def)

lemma tidy_one: "lo \<le> s \<Longrightarrow> s \<le> e \<Longrightarrow> e \<le> hi \<Longrightarrow> tidy lo hi [semantic s e]"
  by (simp add: tidy_def semantic_def)

lemma semantic_segments_complete:
  assumes "good_offsets (ck_contract c)" and "0 \<le> ck_overlap c" and "\<forall>b \<in> set bs. boundary_ok b"
  shows "semantic_segments c source ctx bs start end = Inr segs \<Longrightarrow>
    tidy start (max start end) segs \<and> covers source start end segs"
  using assms(3)
proof (induction bs arbitrary: start "end" segs)
  case Nil
  obtain s e where t: "trim_span source (int start) (int end) = (s, e)" by fastforce
  consider "e \<le> s" "segs = []" | "s < e" "segs = [semantic s e]"
    | "s < e" "hard_token_segments c source ctx s e = Inr segs"
    using Nil.prems(1) [unfolded semantic_segments.simps t prod.case Let_def]
    by (cases "e \<le> s"; cases "fits (ck_contract c) (embedding_text ctx (slice s e source))") simp_all
  then show ?case
  proof cases
    case 1
    then show ?thesis using covers_trim [OF t covers_none] by (simp add: tidy_def)
  next
    case 2
    note w = trim_within [OF t 2(1)]
    have "tidy start (max start end) segs" unfolding 2(2) by (rule tidy_one) (use w 2(1) in auto)
    moreover have "covers source start end segs" unfolding 2(2) by (rule covers_trim [OF t covers_one])
    ultimately show ?thesis by blast
  next
    case 3
    note w = trim_within [OF t 3(1)]
    have "covers source s e segs"
      by (rule hard_token_segments_cover [OF 3(2) assms(1,2) 3(1) w(3,4)])
    then show ?thesis using covers_trim [OF t] tidy_hard [OF hard_not_semantic [OF 3(2)]] by blast
  qed
next
  case (Cons b bs)
  obtain s e where t: "trim_span source (int start) (int end) = (s, e)" by fastforce
  let ?pieces = "split_source_span source s e b"
  consider "e \<le> s" "segs = []" | "s < e" "segs = [semantic s e]"
    | "s < e" "semantic_segments c source ctx bs s e = Inr segs"
    | found where "s < e" "collect_results (\<lambda>(x, y). semantic_segments c source ctx bs x y) ?pieces = Inr found"
        "segs = greedy_repack c source ctx found"
    using Cons.prems(1) [unfolded semantic_segments.simps t prod.case Let_def]
    by (cases "e \<le> s"; cases "fits (ck_contract c) (embedding_text ctx (slice s e source))";
        cases "length ?pieces \<le> 1") (auto simp: and_then_Inr)
  then show ?case
  proof cases
    case 1
    then show ?thesis using covers_trim [OF t covers_none] by (simp add: tidy_def)
  next
    case 2
    note w = trim_within [OF t 2(1)]
    have "tidy start (max start end) segs" unfolding 2(2) by (rule tidy_one) (use w 2(1) in auto)
    moreover have "covers source start end segs" unfolding 2(2) by (rule covers_trim [OF t covers_one])
    ultimately show ?thesis by blast
  next
    case 3
    note w = trim_within [OF t 3(1)]
    have "tidy s (max s e) segs \<and> covers source s e segs" by (rule Cons.IH [OF 3(2)]) (use Cons.prems(2) in simp)
    then show ?thesis using covers_trim [OF t] tidy_widen [of s "max s e" segs] w(1,2) 3(1) by auto
  next
    case 4
    note w = trim_within [OF t 4(1)]
    have ok: "boundary_ok b" and ok': "\<forall>b \<in> set bs. boundary_ok b" using Cons.prems(2) by simp_all
    note pieces = split_source_span_ok [OF ok 4(1) w(3)]
    obtain yss where y: "list_all2 (\<lambda>x zs. (case x of (x, y) \<Rightarrow> semantic_segments c source ctx bs x y) = Inr zs) ?pieces yss"
      "found = concat yss"
      using collect_results_Inr [OF 4(2)] by blast
    have each: "list_all2 (\<lambda>p ys. tidy (fst p) (snd p) ys \<and> covers source (fst p) (snd p) ys) ?pieces yss"
    proof (rule list_all2_all_nthI)
      show "length ?pieces = length yss" using y(1) by (rule list_all2_lengthD)
      fix i assume i: "i < length ?pieces"
      obtain px py where p: "?pieces ! i = (px, py)" by fastforce
      then have "(px, py) \<in> set ?pieces" using i by (metis nth_mem)
      then have "px < py" using pieces(1) by (auto simp: ordered_spans_def)
      moreover have "semantic_segments c source ctx bs px py = Inr (yss ! i)"
        using list_all2_nthD [OF y(1) i] p by simp
      from Cons.IH [OF this ok'] have "tidy px (max px py) (yss ! i) \<and> covers source px py (yss ! i)" .
      ultimately show "tidy (fst (?pieces ! i)) (snd (?pieces ! i)) (yss ! i)
          \<and> covers source (fst (?pieces ! i)) (snd (?pieces ! i)) (yss ! i)"
        by (simp add: p max_def)
    qed
    have "tidy s e found" unfolding y(2)
      by (rule tidy_concat [OF _ pieces(1)]) (use each 4(1) in \<open>auto elim: list_all2_mono\<close>)
    moreover have "covers source s e found"
      unfolding covers_def
    proof (intro allI impI)
      fix p assume p: "s \<le> p \<and> p < e \<and> text_at source p"
      then obtain x y' where xy: "(x, y') \<in> set ?pieces" "x \<le> p" "p < y'" using pieces(2) by blast
      then obtain i where i: "i < length ?pieces" "?pieces ! i = (x, y')" by (auto simp: in_set_conv_nth)
      then have "covers source x y' (yss ! i)" and "i < length yss"
        using list_all2_nthD [OF each i(1)] list_all2_lengthD [OF each] by auto
      then obtain sg where "sg \<in> set (yss ! i)" "in_segment p sg" using p xy(2,3) by (auto simp: covers_def)
      then show "\<exists>sg \<in> set found. in_segment p sg"
        unfolding y(2) using \<open>i < length yss\<close> by (auto intro!: bexI [of _ "yss ! i"])
    qed
    ultimately have "tidy s e segs" "covers source s e segs"
      unfolding 4(3) by (rule covers_repack)+
    then show ?thesis using covers_trim [OF t] tidy_widen [of s e segs] w(1,2) by auto
  qed
qed

lemma group_pieces_concat: "concat (group_pieces limit current len ps) = current @ ps"
  by (induction limit current len ps rule: group_pieces.induct) (auto simp: Let_def)

lemma ordered_spans_middle: "ordered_spans lo hi (xs @ ys @ zs) \<Longrightarrow> ordered_spans lo hi ys"
  by (auto simp: ordered_spans_def sorted_wrt_append)

lemma ordered_spans_hull:
  assumes "ordered_spans lo hi ps" and "(x, y) \<in> set ps"
  shows "fst (hd ps) \<le> x" and "y \<le> snd (last ps)" and "lo \<le> fst (hd ps)"
proof -
  show "fst (hd ps) \<le> x" and "lo \<le> fst (hd ps)"
    using assms by (cases ps; fastforce simp: ordered_spans_def)+
  show "y \<le> snd (last ps)"
    using assms by (cases ps rule: rev_cases) (fastforce simp: ordered_spans_def sorted_wrt_append)+
qed

lemma normal_candidates_cover:
  assumes "s < e" and "e \<le> length source" and "s \<le> p" and "p < e" and "text_at source p"
  shows "\<exists>cand \<in> set (normal_candidates c source s e). cn_start cand \<le> p \<and> p < cn_end cand"
proof -
  let ?local = "slice s e source"
  let ?pieces = "piece_spans s (length ?local) 0 (sentence_matches False 0 ?local)"
  show ?thesis
  proof (cases "int e - int s \<le> ck_max_chars c \<or> ?pieces = []")
    case True
    then show ?thesis using assms(3,4) by (auto simp: normal_candidates_def Let_def)
  next
    case False
    have len: "length ?local = e - s" using assms(2) by simp
    have "text_at ?local (p - s)"
      using assms nth_slice [of s "p - s" e source] by (simp add: text_at_def len)
    moreover have "matches_ok ?local 0 (sentence_matches False 0 ?local)"
      using sentence_matches_ok [of "[]" ?local False] by simp
    note ps = piece_spans_ok [OF this, of s]
    ultimately obtain x y where xy: "(x, y) \<in> set ?pieces" "x \<le> p" "p < y" using assms(3) by fastforce
    have o: "ordered_spans s e ?pieces" using ps len assms(1) by simp
    let ?gs = "group_pieces (ck_max_chars c) [] 0 ?pieces"
    have "(x, y) \<in> set (concat ?gs)" using xy(1) by (simp only: group_pieces_concat append_Nil)
    then obtain g where g: "g \<in> set ?gs" "(x, y) \<in> set g" by auto
    then obtain as bs where "?gs = as @ g # bs" by (meson split_list)
    then have "?pieces = concat as @ g @ concat bs"
      using group_pieces_concat [of "ck_max_chars c" "[]" 0 ?pieces] by simp
    then have og: "ordered_spans s e g" using o ordered_spans_middle by metis
    obtain a b where t: "trim_span source (int (fst (hd g))) (int (snd (last g))) = (a, b)" by fastforce
    have "a \<le> p" "p < b"
      using trim_keeps [OF t assms(5)] ordered_spans_hull [OF og g(2)] xy by simp_all
    then have "cn_start (candidate_from_pieces source g) \<le> p \<and> p < cn_end (candidate_from_pieces source g)"
      by (simp add: candidate_from_pieces_def t)
    moreover have "candidate_from_pieces source g \<in> set (normal_candidates c source s e)"
      using False g(1) by (auto simp: normal_candidates_def Let_def)
    ultimately show ?thesis by blast
  qed
qed

definition chunk_at :: "legal_unit \<Rightarrow> nat \<Rightarrow> chunk \<Rightarrow> bool" where
  "chunk_at u p x \<longleftrightarrow> cd_unit x = u \<and> cd_start x \<le> p \<and> p < cd_end x"

lemma candidate_chunks_cover:
  assumes "candidate_chunks c source u ctx cand = Inr xs" and "good_offsets (ck_contract c)"
    and "0 \<le> ck_overlap c" and "cn_start cand \<le> p" and "p < cn_end cand" and "text_at source p"
  shows "\<exists>x \<in> set xs. chunk_at u p x"
proof (cases "fits (ck_contract c) (embedding_text ctx (cn_content cand))")
  case True
  then show ?thesis using assms by (auto simp: candidate_chunks_def Let_def chunk_at_def)
next
  case False
  then obtain segs where sg: "semantic_segments c source ctx semantic_boundaries (cn_start cand) (cn_end cand) = Inr segs"
    "xs = map (split_chunk source u ctx (length segs)) (enumerate 0 segs)"
    using assms(1) by (auto simp: candidate_chunks_def Let_def and_then_Inr)
  have "covers source (cn_start cand) (cn_end cand) segs"
    using semantic_segments_complete [OF assms(2,3) boundaries_ok sg(1)] by blast
  then obtain s where "s \<in> set segs" "in_segment p s" using assms(4,5,6) by (auto simp: covers_def)
  then obtain i where i: "i < length segs" "in_segment p (segs ! i)" by (auto simp: in_set_conv_nth)
  let ?x = "split_chunk source u ctx (length segs) (i, segs ! i)"
  have "?x \<in> set xs" unfolding sg(2) using i(1)
    by (auto simp: in_set_conv_nth nth_enumerate_eq intro!: imageI exI [of _ i])
  moreover have "chunk_at u p ?x" using i(2) by (simp add: chunk_at_def split_chunk_def in_segment_def Let_def)
  ultimately show ?thesis by blast
qed

lemma collect_results_member:
  "collect_results f xs = Inr ys \<Longrightarrow> x \<in> set xs \<Longrightarrow> \<exists>zs. f x = Inr zs \<and> set zs \<subseteq> set ys"
  by (induction xs arbitrary: ys) (fastforce simp: and_then_Inr)+

definition own_text :: "pytext \<Rightarrow> legal_unit \<Rightarrow> nat \<Rightarrow> bool" where
  "own_text source u p \<longleftrightarrow> (case own_span source u of (s, e) \<Rightarrow> s \<le> p \<and> p < e) \<and> text_at source p"

lemma own_chunks_cover:
  assumes "own_chunks c source m ancestors u = Inr xs" and "good_offsets (ck_contract c)"
    and "0 \<le> ck_overlap c" and "own_text source u p"
  shows "\<exists>x \<in> set xs. chunk_at u p x"
proof -
  obtain s e where se: "own_span source u = (s, e)" "s \<le> p" "p < e" and t: "text_at source p"
    using assms(4) by (auto simp: own_text_def)
  have "e \<le> length source"
    by (rule trim_span_bounds(1) [OF se(1) [unfolded own_span_def]])
  then obtain cand where cand: "cand \<in> set (normal_candidates c source s e)" "cn_start cand \<le> p" "p < cn_end cand"
    using normal_candidates_cover [of s e source p c] se(2,3) t by auto
  have "collect_results (candidate_chunks c source u (build_context m u ancestors)) (normal_candidates c source s e) = Inr xs"
    using assms(1) se(2,3) unfolding own_chunks_def se(1) prod.case by (simp split: if_splits)
  from collect_results_member [OF this cand(1)] obtain zs
    where "candidate_chunks c source u (build_context m u ancestors) cand = Inr zs" "set zs \<subseteq> set xs"
    by auto
  then show ?thesis using candidate_chunks_cover [OF _ assms(2,3) cand(2,3) t] by blast
qed

fun all_units :: "legal_unit \<Rightarrow> legal_unit list" where
  "all_units (Legal_Unit ty nu ti st en le chs) =
     Legal_Unit ty nu ti st en le chs # concat (map all_units chs)"

lemma process_cover:
  assumes "good_offsets (ck_contract c)" and "0 \<le> ck_overlap c" and "own_text source v p"
  shows "process_unit c source m ancestors u = Inr xs \<Longrightarrow> v \<in> set (all_units u) \<Longrightarrow> \<exists>x \<in> set xs. chunk_at v p x"
    and "process_units c source m ancestors us = Inr ys \<Longrightarrow> v \<in> set (concat (map all_units us)) \<Longrightarrow>
      \<exists>x \<in> set ys. chunk_at v p x"
  using assms
proof (induction c source m ancestors u and c source m ancestors us arbitrary: xs and ys
      rule: process_unit_process_units.induct)
  case (1 c source m ancestors ty nu ti st en le chs)
  then show ?case using own_chunks_cover by (fastforce simp: and_then_Inr)
qed (fastforce simp: and_then_Inr)+

lemma number_chunks_at: "x \<in> set xs \<Longrightarrow> chunk_at u p x \<Longrightarrow> \<exists>y \<in> set (number_chunks xs). chunk_at u p y"
proof -
  assume "x \<in> set xs" and c: "chunk_at u p x"
  then obtain i where i: "i < length xs" "xs ! i = x" by (auto simp: in_set_conv_nth)
  then have "number_chunks xs ! i = x\<lparr>cd_index := i\<rparr>" "i < length (number_chunks xs)"
    by (simp_all add: number_chunks_def nth_enumerate_eq)
  then have "x\<lparr>cd_index := i\<rparr> \<in> set (number_chunks xs)" by (metis nth_mem)
  moreover have "chunk_at u p (x\<lparr>cd_index := i\<rparr>)" using c by (simp add: chunk_at_def)
  ultimately show ?thesis by blast
qed

section \<open>Properties\<close>

text \<open>
  C24. Token safety. For any positive forward-progress minimum, \<open>generate_chunks\<close> returns or raises
  only \<open>EmbeddingHeaderTooLongError\<close>: the final validation never fails and the strict-progress check
  of the hard splitter never fires. Every chunk it returns fits the model's token limit with its
  context header, and the chunks are numbered 0, 1, 2 and so on.
\<close>

theorem chunks_fit:
  assumes "0 < ck_min_forward c"
  shows "case generate_chunks c source units m of
      Inl e \<Rightarrow> header_error e
    | Inr chunks \<Rightarrow> (\<forall>x \<in> set chunks. count_final_tokens (ck_contract c) (cd_embedding x) \<le> ec_max_tokens (ck_contract c))
        \<and> map cd_index chunks = [0..<length chunks]"
proof (cases "process_units c source m [] units")
  case (Inl e)
  then show ?thesis using process_error(2) [OF Inl assms] by (simp add: generate_chunks_eq)
next
  case (Inr xs)
  have "map cd_index (number_chunks xs) = [0..<length (number_chunks xs)]"
    by (rule nth_equalityI) (simp_all add: number_chunks_def nth_enumerate_eq)
  then show ?thesis
    using number_chunks_fit [OF process_fit(2) [OF Inr]] by (simp add: generate_chunks_eq Inr fits_def)
qed

definition char_tokenizer :: tokenizer where
  "char_tokenizer = \<lparr>tk_count = (\<lambda>t. int (length t)), tk_offsets = (\<lambda>t. map (\<lambda>i. (i, i + 1)) [0..<length t])\<rparr>"

definition sample_chunker :: chunker where
  "sample_chunker = \<lparr>ck_max_chars = 12, ck_contract = \<lparr>ec_tokenizer = char_tokenizer, ec_max_tokens = 17\<rparr>,
     ck_headroom = 0, ck_overlap = 2, ck_min_content = 3, ck_min_forward = 1\<rparr>"

theorem chunks_fit_witness:
  "case generate_chunks sample_chunker (replicate 20 97)
      [Legal_Unit ''PREAMBLE'' [] [] 0 20 0 []] [] of
      Inl e \<Rightarrow> header_error e
    | Inr chunks \<Rightarrow> (\<forall>x \<in> set chunks. count_final_tokens (ck_contract sample_chunker) (cd_embedding x)
          \<le> ec_max_tokens (ck_contract sample_chunker)) \<and> map cd_index chunks = [0..<length chunks]"
  by (rule chunks_fit) (simp add: sample_chunker_def)


lemma char_tokenizer_offsets: "good_offsets \<lparr>ec_tokenizer = char_tokenizer, ec_max_tokens = n\<rparr>"
proof -
  have "content_offsets \<lparr>ec_tokenizer = char_tokenizer, ec_max_tokens = n\<rparr> t = map (\<lambda>i. (i, i + 1)) [0..<length t]" for t
    by (simp add: content_offsets_def char_tokenizer_def)
  then show ?thesis by (simp add: good_offsets_def hd_map o_def)
qed

definition sample_unit :: legal_unit where
  "sample_unit = Legal_Unit ''PREAMBLE'' [] [] 0 2 0 []"

lemma sample_generate: "\<exists>x. generate_chunks sample_chunker [97, 98] [sample_unit] [] = Inr [x]"
  by (simp add: generate_chunks_eq sample_unit_def own_chunks_def own_span_def trim_span_def slice_def
      py_space_def normal_candidates_def sample_chunker_def candidate_chunks_def build_context_def get_default_def
      unit_part_def embedding_text_def fits_def count_final_tokens_def char_tokenizer_def passage_prefix_def
      number_chunks_def Let_def)


lemma join_with_prefix: "\<exists>rest. join_with sep (x # ps) = x @ rest"
  by (cases ps) auto

text \<open>
  The default document type is never used: \<open>MetadataExtractor\<close> always stores the key
  \<open>document_type\<close>, with \<open>None\<close> when it recognised none, so a numbered document of unknown type gets
  the word \<open>None\<close> at the start of the header of every chunk instead of the intended default.
\<close>

theorem unknown_type_prints_none:
  assumes "map_of m ''document_type'' = Some None" and "map_of m ''document_number'' = Some (Some n)" and "n \<noteq> []"
  shows "\<exists>rest. build_context m u ancestors = ascii ''None '' @ n @ rest"
proof -
  have "build_context m u ancestors
      = join_with (ascii '' - '') ((ascii ''None '' @ n) # concat (map unit_part ancestors) @ unit_part u)"
    using assms by (simp add: build_context_def get_default_def format_value_def)
  then show ?thesis
    using join_with_prefix [of "ascii '' - ''" "ascii ''None '' @ n" "concat (map unit_part ancestors) @ unit_part u"]
    by (elim exE) (simp only: append_assoc, blast)
qed

theorem unknown_type_prints_none_witness:
  "\<exists>rest. build_context [(''document_type'', None), (''document_number'', Some [49, 50])] sample_unit []
     = ascii ''None '' @ [49, 50] @ rest"
  by (rule unknown_type_prints_none) simp_all

end
