(* ===== verification/Documents.thy ===== *)
theory Documents
  imports Grants Chunker Reconstruction
begin

text \<open>
  The managed documents and files of the local service, and the world its worker runs in.
  \<^item> \<open>app/local_compute/documents.py\<close>: acceptance, lookup, listing and deletion of documents, with the
    PDF admission check of \<open>app/pdf/admission.py\<close>.
  \<^item> The artifact database (\<open>artifact.sqlite3\<close>) as a record of tables.
  \<^item> The world: catalog, files, clock and the concurrency of the process. Every catalog access and
    every file or artifact-database step is a boundary; at a boundary other threads act first
    (cancellation, enqueueing, deletion: the browser API), the clock is read, and the step may fail
    (SQLite or OS error) or the process may die. What happens at each boundary is a schedule, a
    parameter of every theorem. A document lock blocks the actions that need it.
\<close>

section \<open>Artifact database\<close>

record page_row =
  pg_number :: nat
  pg_text :: pytext
  pg_chars :: nat

record unit_row =
  un_id :: ident
  un_parent :: "ident option"
  un_type :: string
  un_number :: pytext
  un_title :: pytext
  un_start :: int
  un_end :: int
  un_page_start :: int
  un_page_end :: int
  un_level :: int

record chunk_row =
  cr_id :: ident
  cr_document :: ident
  cr_unit :: ident
  cr_index :: nat
  cr_content :: pytext
  cr_embedding :: pytext
  cr_tokens :: int
  cr_page_start :: int
  cr_page_end :: int
  cr_char_start :: nat
  cr_char_end :: nat

text \<open>A float32 vector; \<open>None\<close> is a component that is not finite.\<close>

type_synonym vector = "rat option list"

record embedding_row =
  em_chunk :: ident
  em_model :: string
  em_dimension :: int
  em_normalized :: int
  em_version :: string
  em_vector :: vector

record artifact_db =
  ad_schema :: "int list"
  ad_metadata :: "(string \<times> string) list"
  ad_pages :: "page_row list"
  ad_text :: pytext
  ad_offsets :: "offset_entry list"
  ad_units :: "unit_row list"
  ad_chunks :: "chunk_row list"
  ad_embeddings :: "embedding_row list"
  ad_fts :: "(ident \<times> pytext) list"
  ad_index_tables :: bool

section \<open>World\<close>

datatype fault = No_Fault | Step_Fails | Process_Dies

datatype interference =
    Cancel_Job ident
  | Enqueue_Document ident
  | Reindex_Document ident
  | Delete_Document ident

record moment =
  mo_time :: seconds
  mo_fault :: fault
  mo_actions :: "interference list"

type_synonym bytes = "nat list"

record world =
  w_catalog :: catalog
  w_sources :: "(string \<times> bytes option) list"
  w_staging :: "((ident \<times> ident) \<times> artifact_db option) list"
  w_artifacts :: "((ident \<times> ident) \<times> artifact_db) list"
  w_clock :: seconds
  w_uuid :: "nat \<Rightarrow> ident"
  w_next :: nat
  w_locked :: "ident option"
  w_schedule :: "moment list"

text \<open>A step ends normally, with a Python exception, or with the death of the process, which no handler sees.\<close>

datatype failure = Raised py_exn | Died

type_synonym 'a wop = "(world, failure, 'a) op"

definition raise_code :: "error_code \<Rightarrow> 'a wop" where
  "raise_code c = raise_op (Raised (compute_exn c))"

definition try_except :: "'a wop \<Rightarrow> (py_exn \<Rightarrow> 'a wop) \<Rightarrow> 'a wop" where
  "try_except m h = catch_op m (\<lambda>f. case f of Raised e \<Rightarrow> h e | Died \<Rightarrow> raise_op Died)"

definition new_uuid :: "ident wop" where
  "new_uuid w = (Inr (w_uuid w (w_next w)), w\<lparr>w_next := Suc (w_next w)\<rparr>)"

section \<open>Documents of the catalog\<close>

definition get_document :: "catalog \<Rightarrow> ident \<Rightarrow> local_document option" where
  "get_document c d = find (\<lambda>x. doc_id x = d) (cat_documents c)"

definition update_document :: "ident \<Rightarrow> (local_document \<Rightarrow> local_document) \<Rightarrow> catalog \<Rightarrow> catalog" where
  "update_document d f c = c\<lparr>cat_documents := update_where (\<lambda>x. doc_id x = d) f (cat_documents c)\<rparr>"

definition set_document_state :: "ident \<Rightarrow> preparation_state \<Rightarrow> string option \<Rightarrow> seconds \<Rightarrow> catalog \<Rightarrow> catalog" where
  "set_document_state d st err now =
     update_document d (\<lambda>x. x\<lparr>doc_state := st, doc_error := err, doc_updated := now\<rparr>)"

definition insert_document :: "local_document \<Rightarrow> catalog \<Rightarrow> catalog option" where
  "insert_document x c = (if doc_id x \<in> set (map doc_id (cat_documents c)) then None
     else Some (c\<lparr>cat_documents := cat_documents c @ [x]\<rparr>))"

definition get_artifact :: "catalog \<Rightarrow> ident \<Rightarrow> local_artifact option" where
  "get_artifact c a = find (\<lambda>x. art_id x = a) (cat_artifacts c)"

definition index_state :: "preparation_state \<Rightarrow> string" where
  "index_state st = (case st of DOC_INDEX_READY \<Rightarrow> ''INDEX_READY'' | DOC_INDEXING \<Rightarrow> ''INDEXING''
     | DOC_PREPARED_NOT_INDEXED \<Rightarrow> ''NOT_INDEXED'' | _ \<Rightarrow> ''NOT_READY'')"

record document_listing =
  dl_document :: local_document
  dl_page_count :: int
  dl_chunk_count :: int
  dl_index_state :: string

text \<open>\<open>ORDER BY updated_at DESC, document_id ASC\<close> over the left join with the active artifact.\<close>

definition list_documents :: "catalog \<Rightarrow> document_listing list" where
  "list_documents c =
     map (\<lambda>d. let a = Option.bind (doc_artifact d) (get_artifact c) in
         \<lparr>dl_document = d,
          dl_page_count = (case a of None \<Rightarrow> 0 | Some x \<Rightarrow> art_page_count x),
          dl_chunk_count = (case a of None \<Rightarrow> 0 | Some x \<Rightarrow> art_chunk_count x),
          dl_index_state = index_state (doc_state d)\<rparr>)
       (sort_key (\<lambda>d. - doc_updated d) (sort_key doc_id (cat_documents c)))"

text \<open>
  \<open>uuid.UUID(s)\<close>: \<open>urn:\<close> and \<open>uuid:\<close> are removed, braces stripped, hyphens removed, and the rest must
  be 32 characters that \<open>int(_, 16)\<close> accepts (white space around, a sign, \<open>0x\<close> and single underscores
  included).
\<close>

function remove_substring :: "string \<Rightarrow> string \<Rightarrow> string" where
  "remove_substring p [] = []"
| "remove_substring p (c # cs) =
     (if p \<noteq> [] \<and> starts_with p (c # cs) then remove_substring p (drop (length p) (c # cs))
      else c # remove_substring p cs)"
  by pat_completeness auto
termination
  by (relation "measure (\<lambda>(p, xs). length xs)") auto

definition hex_digit :: "char \<Rightarrow> bool" where
  "hex_digit c = (let n = (of_char c :: nat) in
     (48 \<le> n \<and> n \<le> 57) \<or> (65 \<le> n \<and> n \<le> 70) \<or> (97 \<le> n \<and> n \<le> 102))"

fun hex_digits :: "bool \<Rightarrow> string \<Rightarrow> bool" where
  "hex_digits after_digit [] = after_digit"
| "hex_digits after_digit (c # cs) =
     (if c = CHR ''_'' then after_digit \<and> hex_digits False cs else hex_digit c \<and> hex_digits True cs)"

definition parses_hex :: "string \<Rightarrow> bool" where
  "parses_hex s = (let t = str_strip s;
       u = (case t of c # cs \<Rightarrow> if c = CHR ''+'' \<or> c = CHR ''-'' then cs else t | [] \<Rightarrow> t)
     in (case u of
          z # x # cs \<Rightarrow> if z = CHR ''0'' \<and> (x = CHR ''x'' \<or> x = CHR ''X'')
            then (case cs of d # ds \<Rightarrow> if d = CHR ''_'' then hex_digits False ds else hex_digits False cs
                  | [] \<Rightarrow> False)
            else hex_digits False u
        | _ \<Rightarrow> hex_digits False u))"

definition is_uuid :: "string \<Rightarrow> bool" where
  "is_uuid s = (let h = filter (\<lambda>c. c \<noteq> CHR ''-'')
       (strip_by (\<lambda>c. c = CHR ''{'' \<or> c = CHR ''}'') (remove_substring ''uuid:'' (remove_substring ''urn:'' s)))
     in length h = 32 \<and> parses_hex h)"

definition source_path :: "ident \<Rightarrow> string" where
  "source_path d = ''documents/'' @ d @ ''/source.pdf''"

section \<open>Deletion\<close>

definition deleted_manifest :: "ident \<Rightarrow> payload" where
  "deleted_manifest d = [(''document_id'', JStr d), (''preparation_state'', JStr ''DELETED''),
     (''index_state'', JStr ''DELETED''), (''local_availability'', JStr ''DELETED''),
     (''chunk_count'', JInt 0), (''artifact_id'', JNull), (''artifact_version'', JNull),
     (''artifact_profile_fingerprint'', JNull)]"

definition delete_rows :: "ident \<Rightarrow> catalog \<Rightarrow> catalog" where
  "delete_rows d c = c\<lparr>cat_jobs := filter (\<lambda>j. job_document j \<noteq> Some d) (cat_jobs c),
     cat_artifacts := filter (\<lambda>a. art_document a \<noteq> d) (cat_artifacts c),
     cat_documents := filter (\<lambda>x. doc_id x \<noteq> d) (cat_documents c)\<rparr>"

definition remove_sources :: "ident \<Rightarrow> world \<Rightarrow> world" where
  "remove_sources d w = w\<lparr>w_sources := filter (\<lambda>p. fst p \<noteq> source_path d) (w_sources w)\<rparr>"

definition remove_artifact_tree :: "ident \<Rightarrow> world \<Rightarrow> world" where
  "remove_artifact_tree d w = w\<lparr>w_staging := filter (\<lambda>p. fst (fst p) \<noteq> d) (w_staging w),
     w_artifacts := filter (\<lambda>p. fst (fst p) \<noteq> d) (w_artifacts w)\<rparr>"

text \<open>
  The whole of \<open>delete_document\<close> when nothing interrupts it, as other threads see it: it runs under
  the document lock. The operation itself, with its steps apart, is \<open>delete_document\<close> below.
\<close>

definition delete_completed :: "ident \<Rightarrow> world \<Rightarrow> world" where
  "delete_completed d w =
     (if \<not> is_uuid d \<or> get_document (w_catalog w) d = None then w
      else (let w1 = remove_artifact_tree d (remove_sources d
                 (w\<lparr>w_catalog := snd (cancel_for_document d (w_clock w) (w_catalog w))\<rparr>))
            in w1\<lparr>w_catalog := enqueue_control_manifest d (deleted_manifest d) (w_clock w)
                 (delete_rows d (w_catalog w1))\<rparr>))"

section \<open>Enqueueing from the browser\<close>

text \<open>
  \<open>enqueue_document_pipeline\<close> of \<open>api.py\<close>, under the document lock. A forced reindex of a ready
  document first closes the queryability gate. The result is the job row that answers the request.
\<close>

definition close_gate :: "bool \<Rightarrow> local_document \<Rightarrow> seconds \<Rightarrow> catalog \<Rightarrow> catalog" where
  "close_gate force_reindex x now c = (if force_reindex \<and> doc_state x = DOC_INDEX_READY
     then set_document_state (doc_id x) DOC_PREPARED_NOT_INDEXED None now c else c)"

definition enqueue_document_pipeline :: "bool \<Rightarrow> ident \<Rightarrow> local_job wop" where
  "enqueue_document_pipeline force_reindex d w =
     (case get_document (w_catalog w) d of
        None \<Rightarrow> (Inl (Raised (compute_exn DOCUMENT_NOT_FOUND)), w)
      | Some x \<Rightarrow>
          if force_reindex \<and> doc_state x = DOC_INDEX_READY \<and> (doc_artifact x = None \<or> doc_artifact x = Some [])
          then (Inl (Raised (compute_exn CAPABILITY_UNAVAILABLE)), w)
          else (let w1 = w\<lparr>w_catalog := close_gate force_reindex x (w_clock w) (w_catalog w),
                   w_next := Suc (w_next w)\<rparr>
                in case enqueue_pipeline d (w_clock w) (w_uuid w (w_next w)) (w_catalog w1) of
                    None \<Rightarrow> (Inl (Raised IntegrityError), w1)
                  | Some (jid, c2) \<Rightarrow> (case get_job c2 jid of
                        None \<Rightarrow> (Inl (Raised (compute_exn INTERNAL_COMPUTE_ERROR)), w1\<lparr>w_catalog := c2\<rparr>)
                      | Some j \<Rightarrow> (Inr j, w1\<lparr>w_catalog := c2\<rparr>))))"

section \<open>Boundaries\<close>

text \<open>The action of another thread; one that needs the lock held by the worker has to wait.\<close>

definition interfere :: "world \<Rightarrow> interference \<Rightarrow> world" where
  "interfere w i = (case i of
       Cancel_Job jid \<Rightarrow> w\<lparr>w_catalog := snd (request_cancel jid (w_clock w) (w_catalog w))\<rparr>
     | Enqueue_Document d \<Rightarrow> if w_locked w = Some d then w else snd (enqueue_document_pipeline False d w)
     | Reindex_Document d \<Rightarrow> if w_locked w = Some d then w else snd (enqueue_document_pipeline True d w)
     | Delete_Document d \<Rightarrow> if w_locked w = Some d then w else delete_completed d w)"

definition boundary :: "unit wop" where
  "boundary w = (case w_schedule w of
       [] \<Rightarrow> (Inr (), w)
     | m # ms \<Rightarrow>
         (let w1 = foldl interfere (w\<lparr>w_clock := mo_time m, w_schedule := ms\<rparr>) (mo_actions m)
          in case mo_fault m of
               No_Fault \<Rightarrow> (Inr (), w1)
             | Step_Fails \<Rightarrow> (Inl (Raised OtherException), w1)
             | Process_Dies \<Rightarrow> (Inl Died, w1)))"

definition step_op :: "(world \<Rightarrow> (failure + 'a) \<times> world) \<Rightarrow> 'a wop" where
  "step_op f = seq_op boundary f"

text \<open>One transaction on the catalog; it sees the clock.\<close>

definition tx :: "(seconds \<Rightarrow> catalog \<Rightarrow> 'a \<times> catalog) \<Rightarrow> 'a wop" where
  "tx f = step_op (\<lambda>w. case f (w_clock w) (w_catalog w) of (x, c) \<Rightarrow> (Inr x, w\<lparr>w_catalog := c\<rparr>))"

definition tx_do :: "(seconds \<Rightarrow> catalog \<Rightarrow> catalog) \<Rightarrow> unit wop" where
  "tx_do f = tx (\<lambda>now c. ((), f now c))"

definition tx_get :: "(catalog \<Rightarrow> 'a) \<Rightarrow> 'a wop" where
  "tx_get f = tx (\<lambda>_ c. (f c, c))"

text \<open>A step on files: a failure of it is an \<open>OSError\<close>.\<close>

definition file_op :: "(world \<Rightarrow> (failure + 'a) \<times> world) \<Rightarrow> 'a wop" where
  "file_op f = seq_op (catch_op boundary (\<lambda>e. case e of Raised _ \<Rightarrow> raise_op (Raised OSError)
     | Died \<Rightarrow> raise_op Died)) f"

definition with_lock :: "ident \<Rightarrow> 'a wop \<Rightarrow> 'a wop" where
  "with_lock d m w = (case m (w\<lparr>w_locked := Some d\<rparr>) of (r, w') \<Rightarrow> (r, w'\<lparr>w_locked := None\<rparr>))"

text \<open>\<open>delete_document\<close>, step by step. The removal of the two trees is guarded by \<open>except OSError\<close>.\<close>

definition remove_trees :: "ident \<Rightarrow> unit wop" where
  "remove_trees d = catch_op
     (seq_op (file_op (\<lambda>w. (Inr (), remove_sources d w)))
             (file_op (\<lambda>w. (Inr (), remove_artifact_tree d w))))
     (\<lambda>e. case e of Raised OSError \<Rightarrow> raise_code INTERNAL_COMPUTE_ERROR | _ \<Rightarrow> raise_op e)"

definition delete_locked :: "ident \<Rightarrow> nat wop" where
  "delete_locked d = then_op (tx_get (\<lambda>c. get_document c d)) (\<lambda>x. case x of
       None \<Rightarrow> raise_code DOCUMENT_NOT_FOUND
     | Some _ \<Rightarrow> then_op (tx (cancel_for_document d)) (\<lambda>n.
         seq_op (remove_trees d)
           (seq_op (tx_do (\<lambda>_. delete_rows d))
             (seq_op (tx_do (enqueue_control_manifest d (deleted_manifest d)))
               (return_op n)))))"

definition delete_document :: "ident \<Rightarrow> nat wop" where
  "delete_document d = (if \<not> is_uuid d then raise_code INVALID_REQUEST else with_lock d (delete_locked d))"

section \<open>Acceptance\<close>

record pdf_info =
  pi_is_pdf :: bool
  pi_needs_pass :: bool
  pi_page_count :: int

text \<open>
  \<open>validate_pdf_admission\<close> with \<open>max_pages=None\<close>. \<open>open_pdf\<close> is PyMuPDF (\<open>None\<close>: it raises), \<open>nfc\<close> and
  \<open>casefold\<close> are the Unicode functions; every failure is one exception, which the caller turns into
  \<open>INVALID_PDF\<close>.
\<close>

definition pdf_admitted ::
  "(bytes \<Rightarrow> pdf_info option) \<Rightarrow> (pytext \<Rightarrow> pytext) \<Rightarrow> (pytext \<Rightarrow> pytext) \<Rightarrow> int \<Rightarrow> bytes \<Rightarrow> pytext \<Rightarrow> pytext \<Rightarrow> bool" where
  "pdf_admitted open_pdf nfc casefold max_bytes data filename mime \<longleftrightarrow>
     data \<noteq> [] \<and> int (length data) \<le> max_bytes \<and> starts_with (ascii ''%PDF-'') data
   \<and> (let name = nfc filename in
        name \<noteq> [] \<and> length name \<le> 255 \<and> 0 \<notin> set name \<and> 47 \<notin> set name \<and> 92 \<notin> set name
        \<and> ends_with (ascii ''.pdf'') (casefold name))
   \<and> casefold mime = ascii ''application/pdf''
   \<and> (case open_pdf data of None \<Rightarrow> False
      | Some i \<Rightarrow> pi_is_pdf i \<and> \<not> pi_needs_pass i \<and> 0 < pi_page_count i)"

datatype acceptance = Accepted ident string int | Already_Accepted local_document

text \<open>
  \<open>final.parent.mkdir(exist_ok=False)\<close> and \<open>os.replace\<close> are two steps: a directory without its file is
  an entry without bytes.
\<close>

definition make_source_dir :: "ident \<Rightarrow> unit wop" where
  "make_source_dir d = file_op (\<lambda>w.
     if source_path d \<in> set (map fst (w_sources w)) then (Inl (Raised OSError), w)
     else (Inr (), w\<lparr>w_sources := w_sources w @ [(source_path d, None)]\<rparr>))"

definition move_source :: "ident \<Rightarrow> bytes \<Rightarrow> unit wop" where
  "move_source d data = file_op (\<lambda>w.
     (Inr (), w\<lparr>w_sources := AList.update (source_path d) (Some data) (w_sources w)\<rparr>))"

definition insert_document_row :: "ident \<Rightarrow> string \<Rightarrow> pytext \<Rightarrow> string \<Rightarrow> int \<Rightarrow> unit wop" where
  "insert_document_row d sha name mime nbytes = step_op (\<lambda>w.
     case insert_document \<lparr>doc_id = d, doc_sha256 = sha, doc_filename = name, doc_mime = mime,
         doc_size = nbytes, doc_source_path = source_path d, doc_state = DOC_ACCEPTED,
         doc_artifact = None, doc_error = None, doc_created = w_clock w, doc_updated = w_clock w\<rparr>
       (w_catalog w) of
       None \<Rightarrow> (Inl (Raised IntegrityError), w)
     | Some c \<Rightarrow> (Inr (), w\<lparr>w_catalog := c\<rparr>))"

text \<open>
  \<open>accept_document\<close> for one body. The staging file is private to the call and always removed, so it
  is not part of the world; its digest and the digest of the moved file are both \<open>sha data\<close>.
\<close>

definition accept_document ::
  "(bytes \<Rightarrow> pdf_info option) \<Rightarrow> (pytext \<Rightarrow> pytext) \<Rightarrow> (pytext \<Rightarrow> pytext) \<Rightarrow> (bytes \<Rightarrow> string) \<Rightarrow>
   local_settings \<Rightarrow> ident \<Rightarrow> bytes \<Rightarrow> pytext \<Rightarrow> string \<Rightarrow> acceptance wop" where
  "accept_document open_pdf nfc casefold sha cfg d data filename mime =
     (if \<not> is_uuid d then raise_code INVALID_REQUEST
      else if int (length data) > cf_source_pdf_max cfg then raise_code PAYLOAD_TOO_LARGE
      else if \<not> pdf_admitted open_pdf nfc casefold (cf_source_pdf_max cfg) data filename (ascii mime)
      then raise_code INVALID_PDF
      else then_op (tx_get (\<lambda>c. get_document c d)) (\<lambda>existing.
        case existing of
          Some x \<Rightarrow> if doc_sha256 x = sha data then return_op (Already_Accepted x)
                     else raise_code DOCUMENT_CONFLICT
        | None \<Rightarrow>
            seq_op (make_source_dir d) (seq_op (move_source d data)
              (seq_op (insert_document_row d (sha data) (nfc filename) mime (int (length data)))
                (return_op (Accepted d (sha data) (int (length data))))))))"

section \<open>An identifier for the examples\<close>

definition sample_uuid :: ident where "sample_uuid = replicate 32 CHR ''0''"

lemma remove_absent: "c \<notin> set s \<Longrightarrow> remove_substring (c # p) s = s"
  by (induction s) (auto simp: remove_substring.simps starts_with_def)

lemma hex_zeros: "hex_digits b (replicate n CHR ''0'') = (b \<or> 0 < n)"
  by (induction n arbitrary: b) (auto simp: hex_digit_def)

lemma dropWhile_id: "\<forall>c \<in> set s. \<not> P c \<Longrightarrow> dropWhile P s = s"
  by (cases s) auto

lemma strip_absent: "\<forall>c \<in> set s. \<not> P c \<Longrightarrow> strip_by P s = s"
  by (simp add: strip_by_def dropWhile_id)

lemma sample_is_uuid: "is_uuid sample_uuid"
proof -
  have r: "remove_substring (c # p) sample_uuid = sample_uuid" if "c \<noteq> CHR ''0''" for c p
    using that by (intro remove_absent) (simp add: sample_uuid_def)
  have s: "strip_by P sample_uuid = sample_uuid" if "\<not> P CHR ''0''" for P
    using that by (intro strip_absent) (simp add: sample_uuid_def)
  have sp: "\<not> py_space (of_char CHR ''0'')" by (simp add: py_space_def)
  have u: "sample_uuid = CHR ''0'' # CHR ''0'' # replicate 30 CHR ''0''" by (simp add: sample_uuid_def numeral_eq_Suc)
  have "hex_digits False sample_uuid" by (simp add: sample_uuid_def hex_zeros)
  then have "parses_hex sample_uuid" unfolding parses_hex_def s [of "\<lambda>c. py_space (of_char c)", OF sp] Let_def by (simp add: u)
  then show ?thesis using r s by (simp add: is_uuid_def) (simp add: sample_uuid_def)
qed

end
