(* ===== verification/Artifacts.thy ===== *)
theory Artifacts
  imports Documents
begin

text \<open>
  What makes an artifact queryable, and the gate that guards it. \<open>fully_indexed\<close> is the abstract
  specification of a finished index; \<open>gate\<close> says that a document is marked \<open>INDEX_READY\<close> only while
  its active artifact is fully indexed. The theories of the preparation, the index service and the
  worker show that every step of theirs keeps it, under every schedule.
\<close>

section \<open>Index rows\<close>

definition embedding_dimension :: nat where "embedding_dimension = 768"

definition index_version :: string where "index_version = ''block3-v1''"

text \<open>
  \<open>_validated_vector\<close>: the shape, finiteness, and a norm within \<open>1e-4\<close> of 1 (\<open>math.isclose\<close> with its
  default relative tolerance, which is smaller). The norm is compared through its square; the
  rounding of float32 arithmetic is not modelled.
\<close>

definition square_norm :: "vector \<Rightarrow> rat" where
  "square_norm v = sum_list (map (\<lambda>x. case x of None \<Rightarrow> 0 | Some q \<Rightarrow> q * q) v)"

definition valid_vector :: "vector \<Rightarrow> bool" where
  "valid_vector v \<longleftrightarrow> length v = embedding_dimension \<and> None \<notin> set v
     \<and> (9999 / 10000) ^ 2 \<le> square_norm v \<and> square_norm v \<le> (10001 / 10000) ^ 2"

definition valid_row :: "string \<Rightarrow> embedding_row \<Rightarrow> bool" where
  "valid_row model r \<longleftrightarrow> em_dimension r = int embedding_dimension \<and> em_normalized r = 1
     \<and> em_model r = model \<and> em_version r = index_version \<and> valid_vector (em_vector r)"

definition index_meta :: "artifact_db \<Rightarrow> string option" where
  "index_meta db = map_of (ad_metadata db) ''index_state''"

definition set_index_meta :: "string \<Rightarrow> artifact_db \<Rightarrow> artifact_db" where
  "set_index_meta v db = db\<lparr>ad_metadata := AList.update ''index_state'' v (ad_metadata db)\<rparr>"

section \<open>Specification\<close>

definition embedded :: "artifact_db \<Rightarrow> ident list" where
  "embedded db = map em_chunk (ad_embeddings db)"

definition fully_indexed :: "artifact_db \<Rightarrow> bool" where
  "fully_indexed db \<longleftrightarrow> ad_chunks db \<noteq> [] \<and> distinct (embedded db)
     \<and> set (embedded db) = set (map cr_id (ad_chunks db)) \<and> map fst (ad_fts db) = embedded db
     \<and> (\<exists>model. \<forall>r \<in> set (ad_embeddings db). valid_row model r)"

definition db_inv :: "artifact_db \<Rightarrow> bool" where
  "db_inv db \<longleftrightarrow> distinct (embedded db) \<and> set (embedded db) \<subseteq> set (map cr_id (ad_chunks db))
     \<and> map fst (ad_fts db) = embedded db \<and> distinct (map cr_id (ad_chunks db))
     \<and> (index_meta db = Some ''INDEX_READY'' \<longrightarrow> fully_indexed db)"

definition wf :: "world \<Rightarrow> bool" where
  "wf w \<longleftrightarrow> distinct (map fst (w_artifacts w)) \<and> (\<forall>p \<in> set (w_artifacts w). db_inv (snd p))
     \<and> (\<forall>r \<in> set (cat_artifacts (w_catalog w)). art_path r = (art_document r, art_id r))
     \<and> distinct (map art_id (cat_artifacts (w_catalog w)))
     \<and> distinct (map doc_id (cat_documents (w_catalog w)))"

definition artifact_of :: "world \<Rightarrow> ident \<Rightarrow> artifact_db option" where
  "artifact_of w a = Option.bind (get_artifact (w_catalog w) a) (\<lambda>r. map_of (w_artifacts w) (art_path r))"

definition queryable :: "world \<Rightarrow> local_document \<Rightarrow> bool" where
  "queryable w x \<longleftrightarrow> (\<exists>a r db. doc_artifact x = Some a \<and> get_artifact (w_catalog w) a = Some r
     \<and> art_document r = doc_id x \<and> map_of (w_artifacts w) (art_path r) = Some db \<and> fully_indexed db)"

definition gate :: "world \<Rightarrow> bool" where
  "gate w \<longleftrightarrow> (\<forall>x \<in> set (cat_documents (w_catalog w)). doc_state x = DOC_INDEX_READY \<longrightarrow> queryable w x)"

definition safe :: "world \<Rightarrow> bool" where
  "safe w \<longleftrightarrow> wf w \<and> gate w"

text \<open>The same with some documents exempt: what still holds while one of them is being taken apart.\<close>

definition safe_but :: "ident set \<Rightarrow> world \<Rightarrow> bool" where
  "safe_but S w \<longleftrightarrow> wf w \<and> (\<forall>x \<in> set (cat_documents (w_catalog w)).
     doc_id x \<notin> S \<longrightarrow> doc_state x = DOC_INDEX_READY \<longrightarrow> queryable w x)"

lemma safe_but_empty: "safe_but {} w = safe w"
  by (simp add: safe_but_def safe_def gate_def)

lemma safe_but_mono: "safe_but S w \<Longrightarrow> S \<subseteq> T \<Longrightarrow> safe_but T w"
  by (auto simp: safe_but_def)

lemma safe_but_wf: "safe_but S w \<Longrightarrow> wf w"
  by (simp add: safe_but_def)

section \<open>Interference keeps the gate\<close>

lemma get_artifact_SomeD: "get_artifact c a = Some r \<Longrightarrow> art_id r = a \<and> r \<in> set (cat_artifacts c)"
  by (auto simp: get_artifact_def dest: find_SomeD)

lemma get_document_SomeD: "get_document c d = Some x \<Longrightarrow> doc_id x = d \<and> x \<in> set (cat_documents c)"
  by (auto simp: get_document_def dest: find_SomeD)

lemma but_catalog:
  assumes "safe_but S w" and "cat_artifacts c = cat_artifacts (w_catalog w)"
    and "distinct (map doc_id (cat_documents c))"
    and "\<And>x. x \<in> set (cat_documents c) \<Longrightarrow> doc_state x = DOC_INDEX_READY \<Longrightarrow> x \<in> set (cat_documents (w_catalog w))"
  shows "safe_but S (w\<lparr>w_catalog := c\<rparr>)"
  using assms by (auto simp: safe_but_def wf_def queryable_def get_artifact_def)

lemmas safe_catalog = but_catalog [where S = "{}", unfolded safe_but_empty]

lemma but_frame [simp]:
  "safe_but S (w\<lparr>w_clock := t\<rparr>) = safe_but S w" "safe_but S (w\<lparr>w_schedule := ms\<rparr>) = safe_but S w"
  "safe_but S (w\<lparr>w_next := n\<rparr>) = safe_but S w" "safe_but S (w\<lparr>w_locked := l\<rparr>) = safe_but S w"
  "safe_but S (w\<lparr>w_sources := ss\<rparr>) = safe_but S w" "safe_but S (w\<lparr>w_staging := st\<rparr>) = safe_but S w"
  by (simp_all add: safe_but_def wf_def queryable_def)

lemma safe_frame [simp]:
  "safe (w\<lparr>w_clock := t\<rparr>) = safe w" "safe (w\<lparr>w_schedule := ms\<rparr>) = safe w"
  "safe (w\<lparr>w_next := n\<rparr>) = safe w" "safe (w\<lparr>w_locked := l\<rparr>) = safe w"
  "safe (w\<lparr>w_sources := ss\<rparr>) = safe w" "safe (w\<lparr>w_staging := st\<rparr>) = safe w"
  by (simp_all add: safe_def wf_def gate_def queryable_def)

lemma update_jobs_other [simp]:
  "cat_artifacts (update_jobs P f c) = cat_artifacts c" "cat_documents (update_jobs P f c) = cat_documents c"
  by (simp_all add: update_jobs_def)

lemma request_cancel_other [simp]:
  "cat_artifacts (snd (request_cancel jid now c)) = cat_artifacts c"
  "cat_documents (snd (request_cancel jid now c)) = cat_documents c"
  by (simp_all add: request_cancel_def Let_def)

lemma enqueue_pipeline_other:
  assumes "enqueue_pipeline d now i c = Some (k, c')"
  shows "cat_artifacts c' = cat_artifacts c" "cat_documents c' = cat_documents c"
  using assms by (auto simp: enqueue_pipeline_def insert_job_def split: option.splits if_splits)

lemma update_document_ids [simp]:
  assumes "\<And>x. doc_id (f x) = doc_id x"
  shows "map doc_id (cat_documents (update_document d f c)) = map doc_id (cat_documents c)"
  using assms by (simp add: update_document_def map_update_where)

lemma set_document_state_but:
  assumes "safe_but S w" and "st \<noteq> DOC_INDEX_READY"
  shows "safe_but S (w\<lparr>w_catalog := set_document_state d st err now (w_catalog w)\<rparr>)"
proof (rule but_catalog [OF assms(1)])
  have "distinct (map doc_id (cat_documents (w_catalog w)))" using assms(1) by (simp add: safe_but_def wf_def)
  then show "distinct (map doc_id (cat_documents (set_document_state d st err now (w_catalog w))))"
    by (simp add: set_document_state_def)
qed (use assms(2) in \<open>auto simp: set_document_state_def update_document_def set_update_where split: if_splits\<close>)

lemmas set_document_state_safe = set_document_state_but [where S = "{}", unfolded safe_but_empty]

lemma set_state_ids [simp]:
  "map doc_id (cat_documents (set_document_state d st e n c)) = map doc_id (cat_documents c)"
  by (simp add: set_document_state_def)

lemma close_gate_but:
  assumes "safe_but S w" shows "safe_but S (w\<lparr>w_catalog := close_gate force x now (w_catalog w)\<rparr>)"
  using assms set_document_state_but [OF assms, of DOC_PREPARED_NOT_INDEXED] by (simp add: close_gate_def)

lemma close_gate_ids [simp]:
  "map doc_id (cat_documents (close_gate force x now c)) = map doc_id (cat_documents c)"
  by (simp add: close_gate_def)

lemma enqueue_pipeline_but:
  assumes "safe_but S w" and "enqueue_pipeline d now i (w_catalog w) = Some (k, c)"
  shows "safe_but S (w\<lparr>w_catalog := c\<rparr>)"
  by (rule but_catalog [OF assms(1)])
    (use assms enqueue_pipeline_other [OF assms(2)] in \<open>simp_all add: safe_but_def wf_def\<close>)

lemma enqueue_document_but:
  assumes "safe_but S w"
  shows "safe_but S (snd (enqueue_document_pipeline force d w))"
proof (cases "get_document (w_catalog w) d")
  case (Some x)
  define w1 where "w1 = w\<lparr>w_catalog := close_gate force x (w_clock w) (w_catalog w), w_next := Suc (w_next w)\<rparr>"
  have s1: "safe_but S w1"
    using close_gate_but [OF assms, of force x "w_clock w"] by (simp add: w1_def)
  have "safe_but S (w1\<lparr>w_catalog := c2\<rparr>)" if "enqueue_pipeline d (w_clock w) (w_uuid w (w_next w)) (w_catalog w1) = Some (k, c2)" for k c2
    by (rule enqueue_pipeline_but [OF s1 that])
  then show ?thesis
    using assms s1
    by (auto simp: enqueue_document_pipeline_def Some w1_def [symmetric] Let_def split: option.splits)
qed (use assms in \<open>simp add: enqueue_document_pipeline_def\<close>)

lemma find_key_iff:
  "distinct (map key rows) \<Longrightarrow> find (\<lambda>x. key x = k) rows = Some r \<longleftrightarrow> r \<in> set rows \<and> key r = k"
  using find_SomeD [of "\<lambda>x. key x = k" rows r] find_distinct_key [of key rows r] by auto

lemma get_artifact_iff:
  "distinct (map art_id (cat_artifacts c)) \<Longrightarrow>
   get_artifact c a = Some r \<longleftrightarrow> r \<in> set (cat_artifacts c) \<and> art_id r = a"
  by (simp add: get_artifact_def find_key_iff)

lemma map_of_filter_keys: "Q k \<Longrightarrow> map_of (filter (\<lambda>p. Q (fst p)) xs) k = map_of xs k"
  by (induction xs) auto

lemma distinct_map_filter_keys: "distinct (map f xs) \<Longrightarrow> distinct (map f (filter P xs))"
  by (simp add: distinct_map_filter)

text \<open>Dropping one document with its artifacts leaves the other documents as they were.\<close>

lemma drop_document_but:
  assumes s: "safe_but S w" and docs: "cat_documents c = filter (\<lambda>x. doc_id x \<noteq> d) (cat_documents (w_catalog w))"
    and arts: "cat_artifacts c = filter (\<lambda>r. art_document r \<noteq> d) (cat_artifacts (w_catalog w))"
    and files: "fs = filter (\<lambda>p. fst (fst p) \<noteq> d) (w_artifacts w)"
  shows "safe_but (S - {d}) (w\<lparr>w_artifacts := fs, w_catalog := c\<rparr>)"
proof -
  have wf: "wf w" using s by (rule safe_but_wf)
  have di: "distinct (map art_id (cat_artifacts (w_catalog w)))" using wf by (simp add: wf_def)
  have "wf (w\<lparr>w_artifacts := fs, w_catalog := c\<rparr>)"
    using wf by (auto simp: wf_def docs arts files distinct_map_filter)
  moreover have "queryable (w\<lparr>w_artifacts := fs, w_catalog := c\<rparr>) x"
    if x: "x \<in> set (cat_documents c)" "doc_id x \<notin> S - {d}" "doc_state x = DOC_INDEX_READY" for x
  proof -
    from x docs have "x \<in> set (cat_documents (w_catalog w))" "doc_id x \<noteq> d" "doc_id x \<notin> S" by auto
    with s x(3) obtain a r db where q: "doc_artifact x = Some a" "get_artifact (w_catalog w) a = Some r"
      "art_document r = doc_id x" "map_of (w_artifacts w) (art_path r) = Some db" "fully_indexed db"
      by (auto simp: safe_but_def queryable_def)
    from q(2) di have r: "r \<in> set (cat_artifacts (w_catalog w))" "art_id r = a" by (simp_all add: get_artifact_iff)
    with wf q(3) have p: "art_path r = (doc_id x, a)" by (auto simp: wf_def)
    have "get_artifact c a = Some r"
      using r q(3) \<open>doc_id x \<noteq> d\<close> by (subst get_artifact_iff) (use di in \<open>auto simp: arts distinct_map_filter\<close>)
    moreover have "map_of fs (art_path r) = Some db"
      unfolding files by (subst map_of_filter_keys [where Q = "\<lambda>k. fst k \<noteq> d"])
        (use p q(4) \<open>doc_id x \<noteq> d\<close> in auto)
    ultimately show ?thesis using q by (auto simp: queryable_def)
  qed
  ultimately show ?thesis by (auto simp: safe_but_def)
qed

lemma cancel_for_document_other [simp]:
  "cat_artifacts (snd (cancel_for_document d now c)) = cat_artifacts c"
  "cat_documents (snd (cancel_for_document d now c)) = cat_documents c"
  by (simp_all add: cancel_for_document_def Let_def)

lemma enqueue_manifest_other [simp]:
  "cat_artifacts (enqueue_control_manifest d p now c) = cat_artifacts c"
  "cat_documents (enqueue_control_manifest d p now c) = cat_documents c"
  "cat_jobs (enqueue_control_manifest d p now c) = cat_jobs c"
  by (simp_all add: enqueue_control_manifest_def Let_def)

lemma delete_completed_but:
  assumes "safe_but S w" shows "safe_but S (delete_completed d w)"
proof -
  let ?c = "snd (cancel_for_document d (w_clock w) (w_catalog w))"
  let ?c2 = "enqueue_control_manifest d (deleted_manifest d) (w_clock w) (delete_rows d ?c)"
  let ?fs = "filter (\<lambda>p. fst (fst p) \<noteq> d) (w_artifacts w)"
  have "safe_but (S - {d}) (w\<lparr>w_artifacts := ?fs, w_catalog := ?c2\<rparr>)"
    by (rule drop_document_but [OF assms]) (simp_all add: delete_rows_def)
  then have "safe_but S (w\<lparr>w_artifacts := ?fs, w_catalog := ?c2\<rparr>)" by (rule safe_but_mono) auto
  moreover have "safe_but S (delete_completed d w) = safe_but S (w\<lparr>w_artifacts := ?fs, w_catalog := ?c2\<rparr>)"
    if "is_uuid d" "get_document (w_catalog w) d \<noteq> None"
    using that by (auto simp: delete_completed_def Let_def remove_sources_def remove_artifact_tree_def
        safe_but_def wf_def queryable_def)
  ultimately show ?thesis using assms by (cases "is_uuid d \<and> get_document (w_catalog w) d \<noteq> None")
      (auto simp: delete_completed_def)
qed

section \<open>Assertions that hold across boundaries\<close>

text \<open>
  An assertion that no other thread can break and that does not depend on the clock. The rules for
  the steps of the worker are proved once for all such assertions; \<open>safe\<close> and \<open>owns\<close> are two.
\<close>

locale boundary_assertion =
  fixes I :: "world \<Rightarrow> bool"
  assumes interfere_keeps: "I w \<Longrightarrow> I (interfere w i)"
    and tick_keeps: "I w \<Longrightarrow> w_schedule w = m # ms \<Longrightarrow> I (w\<lparr>w_clock := mo_time m, w_schedule := ms\<rparr>)"
begin

lemma interferences_keep: "I w \<Longrightarrow> I (foldl interfere w is)"
  by (induction "is" arbitrary: w) (auto intro: interfere_keeps)

lemma boundary_keeps: "I w \<Longrightarrow> I (snd (boundary w))"
proof (cases "w_schedule w")
  case (Cons m ms)
  assume "I w"
  then have "I (foldl interfere (w\<lparr>w_clock := mo_time m, w_schedule := ms\<rparr>) (mo_actions m))"
    by (rule interferences_keep [OF tick_keeps [OF _ Cons]])
  then show ?thesis by (cases "mo_fault m") (simp_all add: boundary_def Cons Let_def)
qed (simp add: boundary_def)

lemma boundary_triple:
  assumes "\<And>w e. I w \<Longrightarrow> E e w" shows "triple I boundary (\<lambda>_. I) E"
  unfolding triple_def
proof (intro allI impI)
  fix w assume "I w"
  from boundary_keeps [OF this] show "case boundary w of (Inr x, t) \<Rightarrow> I t | (Inl e, t) \<Rightarrow> E e t"
    by (cases "boundary w"; cases "fst (boundary w)") (auto intro: assms)
qed

lemma triple_here:
  assumes "\<And>w x w'. I w \<Longrightarrow> f w = (Inr x, w') \<Longrightarrow> Q x w'"
    and "\<And>w e w'. I w \<Longrightarrow> f w = (Inl e, w') \<Longrightarrow> E e w'"
  shows "triple I f Q E"
  using assms by (fastforce simp: triple_def split: prod.splits sum.splits)

lemma triple_step:
  assumes "\<And>w x w'. I w \<Longrightarrow> f w = (Inr x, w') \<Longrightarrow> Q x w'"
    and "\<And>w e w'. I w \<Longrightarrow> f w = (Inl e, w') \<Longrightarrow> E e w'" and "\<And>w e. I w \<Longrightarrow> E e w"
  shows "triple I (step_op f) Q E"
  unfolding step_op_def by (rule triple_seq [OF boundary_triple triple_here]) (use assms in auto)

lemma triple_file:
  assumes "\<And>w x w'. I w \<Longrightarrow> f w = (Inr x, w') \<Longrightarrow> Q x w'"
    and "\<And>w e w'. I w \<Longrightarrow> f w = (Inl e, w') \<Longrightarrow> E e w'" and "\<And>w e. I w \<Longrightarrow> E e w"
  shows "triple I (file_op f) Q E"
  unfolding file_op_def
  by (rule triple_seq [OF triple_catch [OF boundary_triple [of "\<lambda>_. I"]] triple_here])
    (use assms in \<open>auto intro: triple_raise split: failure.splits\<close>)

lemma triple_tx:
  assumes "\<And>w x c. I w \<Longrightarrow> f (w_clock w) (w_catalog w) = (x, c) \<Longrightarrow> Q x (w\<lparr>w_catalog := c\<rparr>)"
    and "\<And>w e. I w \<Longrightarrow> E e w"
  shows "triple I (tx f) Q E"
  unfolding tx_def by (rule triple_step) (use assms in \<open>auto split: prod.splits\<close>)

lemma triple_tx_do:
  assumes "\<And>w. I w \<Longrightarrow> Q (w\<lparr>w_catalog := f (w_clock w) (w_catalog w)\<rparr>)" and "\<And>w e. I w \<Longrightarrow> E e w"
  shows "triple I (tx_do f) (\<lambda>_. Q) E"
  unfolding tx_do_def by (rule triple_tx) (use assms in auto)

lemma triple_tx_get:
  assumes "\<And>w. I w \<Longrightarrow> Q (f (w_catalog w)) w" and "\<And>w e. I w \<Longrightarrow> E e w"
  shows "triple I (tx_get f) Q E"
  unfolding tx_get_def by (rule triple_tx) (use assms in auto)

lemma keeps_step:
  assumes "\<And>w. I w \<Longrightarrow> I (snd (f w))" shows "keeps I (step_op f)"
  using boundary_keeps assms by (fastforce simp: keeps_def step_op_def seq_op_apply split: prod.splits sum.splits)

lemma keeps_tx:
  assumes "\<And>w x c. I w \<Longrightarrow> f (w_clock w) (w_catalog w) = (x, c) \<Longrightarrow> I (w\<lparr>w_catalog := c\<rparr>)"
  shows "keeps I (tx f)"
  unfolding tx_def by (rule keeps_step) (use assms in \<open>auto split: prod.splits\<close>)

lemma keeps_tx_do:
  "(\<And>w. I w \<Longrightarrow> I (w\<lparr>w_catalog := f (w_clock w) (w_catalog w)\<rparr>)) \<Longrightarrow> keeps I (tx_do f)"
  unfolding tx_do_def by (rule keeps_tx) auto

lemma keeps_tx_get: "keeps I (tx_get f)"
  unfolding tx_get_def by (rule keeps_tx) auto

end

lemma triple_try:
  assumes "triple P m Q R" and "\<And>e. triple (R (Raised e)) (h e) Q E" and "\<And>w. R Died w \<Longrightarrow> E Died w"
  shows "triple P (try_except m h) Q E"
  unfolding try_except_def
  by (rule triple_catch [OF assms(1)]) (use assms(2,3) in \<open>auto intro: triple_raise split: failure.splits\<close>)

lemma keeps_try: "keeps P m \<Longrightarrow> (\<And>e. keeps P (h e)) \<Longrightarrow> keeps P (try_except m h)"
  unfolding try_except_def by (rule keeps_catch) (auto simp: keeps_raise split: failure.splits)

lemma keeps_triple: "keeps P m \<Longrightarrow> triple P m (\<lambda>_. P) (\<lambda>_. P)"
  by (fastforce simp: keeps_def triple_def split: prod.splits sum.splits)

lemma triple_keeps: "triple P m (\<lambda>_. P) (\<lambda>_. P) \<Longrightarrow> keeps P m"
  unfolding keeps_def triple_def by (metis (mono_tags, lifting) old.prod.case old.sum.simps(5,6) prod.collapse sum.exhaust)

lemma but_same:
  assumes "safe_but S w" and "cat_documents c = cat_documents (w_catalog w)" and "cat_artifacts c = cat_artifacts (w_catalog w)"
  shows "safe_but S (w\<lparr>w_catalog := c\<rparr>)"
  by (rule but_catalog [OF assms(1)]) (use assms in \<open>simp_all add: safe_but_def wf_def\<close>)

lemmas safe_same = but_same [where S = "{}", unfolded safe_but_empty]

lemma interfere_but: "safe_but S w \<Longrightarrow> safe_but S (interfere w i)"
  by (cases i) (simp_all add: interfere_def enqueue_document_but delete_completed_but but_same)

lemmas interfere_safe = interfere_but [where S = "{}", unfolded safe_but_empty]

interpretation gate: boundary_assertion safe
  by unfold_locales (simp_all add: interfere_safe)

section \<open>The document under the lock\<close>

text \<open>
  What the holder of the lock of document \<open>d\<close> sees of it: its row, its artifact rows, its files. No
  other thread changes any of this, so every assertion about the view holds across boundaries.
\<close>

record doc_view =
  dv_documents :: "local_document list"
  dv_artifacts :: "local_artifact list"
  dv_files :: "ident \<Rightarrow> artifact_db option"
  dv_staging :: "ident \<Rightarrow> artifact_db option option"
  dv_source :: "bytes option option"

definition view :: "ident \<Rightarrow> world \<Rightarrow> doc_view" where
  "view d w = \<lparr>dv_documents = filter (\<lambda>x. doc_id x = d) (cat_documents (w_catalog w)),
     dv_artifacts = filter (\<lambda>r. art_document r = d) (cat_artifacts (w_catalog w)),
     dv_files = (\<lambda>a. map_of (w_artifacts w) (d, a)),
     dv_staging = (\<lambda>a. map_of (w_staging w) (d, a)),
     dv_source = map_of (w_sources w) (source_path d)\<rparr>"

definition owns :: "ident \<Rightarrow> (doc_view \<Rightarrow> bool) \<Rightarrow> world \<Rightarrow> bool" where
  "owns d Q w \<longleftrightarrow> safe w \<and> w_locked w = Some d \<and> Q (view d w)"

lemma owns_safe: "owns d Q w \<Longrightarrow> safe w"
  by (simp add: owns_def)

lemma owns_mono: "owns d Q w \<Longrightarrow> (\<And>v. Q v \<Longrightarrow> R v) \<Longrightarrow> owns d R w"
  by (auto simp: owns_def)

lemma view_same:
  assumes "cat_documents c = cat_documents (w_catalog w)" and "cat_artifacts c = cat_artifacts (w_catalog w)"
  shows "view d (w\<lparr>w_catalog := c\<rparr>) = view d w"
  using assms by (simp add: view_def)

lemma view_frame [simp]:
  "view d (w\<lparr>w_clock := t\<rparr>) = view d w" "view d (w\<lparr>w_schedule := ms\<rparr>) = view d w"
  "view d (w\<lparr>w_next := n\<rparr>) = view d w" "view d (w\<lparr>w_locked := l\<rparr>) = view d w"
  by (simp_all add: view_def)

lemma filter_update_where_other:
  "(\<And>x. doc_id (f x) = doc_id x) \<Longrightarrow> d \<noteq> d' \<Longrightarrow>
   filter (\<lambda>x. doc_id x = d) (update_where (\<lambda>x. doc_id x = d') f xs) = filter (\<lambda>x. doc_id x = d) xs"
  by (induction xs) auto

lemma view_enqueue:
  assumes "d' \<noteq> d"
  shows "view d (snd (enqueue_document_pipeline force d' w)) = view d w"
proof (cases "get_document (w_catalog w) d'")
  case (Some x)
  define w1 where "w1 = w\<lparr>w_catalog := close_gate force x (w_clock w) (w_catalog w), w_next := Suc (w_next w)\<rparr>"
  have v1: "view d w1 = view d w"
    using assms get_document_SomeD [OF Some] by (simp add: w1_def view_def close_gate_def set_document_state_def
        update_document_def filter_update_where_other)
  have "view d (w1\<lparr>w_catalog := c2\<rparr>) = view d w"
    if "enqueue_pipeline d' (w_clock w) (w_uuid w (w_next w)) (w_catalog w1) = Some (k, c2)" for k c2
    using enqueue_pipeline_other [OF that] v1 by (simp add: view_same)
  then show ?thesis
    using v1 by (auto simp: enqueue_document_pipeline_def Some w1_def [symmetric] Let_def split: option.splits)
qed (simp add: enqueue_document_pipeline_def)

lemma drop_other_key: "d' \<noteq> d \<Longrightarrow> filter (\<lambda>x. key x \<noteq> d' \<and> key x = d) xs = filter (\<lambda>x. key x = d) xs"
  by (intro filter_cong) auto

lemma source_path_eq [simp]: "source_path d = source_path d' \<longleftrightarrow> d = d'"
  by (simp add: source_path_def)

lemma map_of_drop_owner: "d' \<noteq> d \<Longrightarrow> map_of (filter (\<lambda>p. fst (fst p) \<noteq> d') xs) (d, a) = map_of xs (d, a)"
  by (intro map_of_filter_keys [where Q = "\<lambda>k. fst k \<noteq> d'"]) auto

lemma map_of_drop_source:
  "d' \<noteq> d \<Longrightarrow> map_of (filter (\<lambda>p. fst p \<noteq> source_path d') xs) (source_path d) = map_of xs (source_path d)"
  by (intro map_of_filter_keys [where Q = "\<lambda>k. k \<noteq> source_path d'"]) auto

lemma view_delete:
  assumes "d' \<noteq> d" shows "view d (delete_completed d' w) = view d w"
  using assms by (simp add: drop_other_key map_of_drop_owner map_of_drop_source delete_completed_def Let_def
      view_def remove_sources_def remove_artifact_tree_def delete_rows_def)

lemma enqueue_locked [simp]: "w_locked (snd (enqueue_document_pipeline force d w)) = w_locked w"
  by (auto simp: enqueue_document_pipeline_def Let_def split: option.splits)

lemma delete_completed_locked [simp]: "w_locked (delete_completed d w) = w_locked w"
  by (simp add: delete_completed_def Let_def remove_sources_def remove_artifact_tree_def)

lemma interfere_owned: "owns d Q w \<Longrightarrow> owns d Q (interfere w i)"
  using interfere_safe [of w i]
  by (cases i) (auto simp: owns_def interfere_def view_same view_enqueue view_delete)

interpretation owned: boundary_assertion "owns d Q" for d Q
  by unfold_locales (auto simp: interfere_owned, simp add: owns_def)

section \<open>What may be written under the lock\<close>

text \<open>An artifact is quiet when its document is not being answered from it.\<close>

definition quiet :: "ident \<Rightarrow> doc_view \<Rightarrow> bool" where
  "quiet a v \<longleftrightarrow> (\<forall>x \<in> set (dv_documents v). \<not> (doc_state x = DOC_INDEX_READY \<and> doc_artifact x = Some a))"

definition owned_row :: "ident \<Rightarrow> doc_view \<Rightarrow> bool" where
  "owned_row a v \<longleftrightarrow> a \<in> set (map art_id (dv_artifacts v))"

text \<open>One transaction on an artifact database; an exception rolls it back, a missing file raises.\<close>

definition db_tx :: "ident \<times> ident \<Rightarrow> (artifact_db \<Rightarrow> py_exn + 'a \<times> artifact_db) \<Rightarrow> 'a wop" where
  "db_tx p f = step_op (\<lambda>w. case map_of (w_artifacts w) p of
       None \<Rightarrow> (Inl (Raised OtherException), w)
     | Some db \<Rightarrow> (case f db of
           Inl e \<Rightarrow> (Inl (Raised e), w)
         | Inr (x, db') \<Rightarrow> (Inr x, w\<lparr>w_artifacts := AList.update p db' (w_artifacts w)\<rparr>)))"

lemma queryable_catalog:
  assumes "queryable w x" and "get_artifact c = map_option g \<circ> get_artifact (w_catalog w)"
    and "\<And>r. art_document (g r) = art_document r" and "\<And>r. art_path (g r) = art_path r"
  shows "queryable (w\<lparr>w_catalog := c\<rparr>) x"
  using assms by (fastforce simp: queryable_def)

lemma safe_update:
  assumes s: "safe w" and arts: "cat_artifacts c = map g (cat_artifacts (w_catalog w))"
    and g: "\<And>r. art_id (g r) = art_id r" "\<And>r. art_document (g r) = art_document r" "\<And>r. art_path (g r) = art_path r"
    and ids: "distinct (map doc_id (cat_documents c))"
    and ready: "\<And>x. x \<in> set (cat_documents c) \<Longrightarrow> doc_state x = DOC_INDEX_READY
      \<Longrightarrow> x \<in> set (cat_documents (w_catalog w)) \<or> queryable w x"
  shows "safe (w\<lparr>w_catalog := c\<rparr>)"
proof -
  have ga: "get_artifact c = map_option g \<circ> get_artifact (w_catalog w)"
    by (auto simp: get_artifact_def arts find_map_key g(1) fun_eq_iff)
  have "wf (w\<lparr>w_catalog := c\<rparr>)"
    using s ids by (auto simp: safe_def wf_def arts g comp_def)
  moreover have "queryable (w\<lparr>w_catalog := c\<rparr>) x" if "x \<in> set (cat_documents c)" "doc_state x = DOC_INDEX_READY" for x
    using ready [OF that] s that(2) queryable_catalog [OF _ ga g(2,3)] by (auto simp: safe_def gate_def)
  ultimately show ?thesis by (auto simp: safe_def gate_def)
qed

lemma owned_queryable:
  assumes "owns d Q w" and "owned_row a (view d w)" and "dv_files (view d w) a = Some db" and "fully_indexed db"
    and "doc_id x = d" and "doc_artifact x = Some a"
  shows "queryable w x"
proof -
  have wf: "wf w" using assms(1) by (simp add: owns_def safe_def)
  obtain r where r: "r \<in> set (cat_artifacts (w_catalog w))" "art_document r = d" "art_id r = a"
    using assms(2) by (auto simp: owned_row_def view_def)
  then have "get_artifact (w_catalog w) a = Some r" using wf by (simp add: get_artifact_iff wf_def)
  moreover have "art_path r = (d, a)" using wf r by (auto simp: wf_def)
  ultimately show ?thesis using assms r by (auto simp: queryable_def view_def)
qed

lemma set_alist_update: "set (AList.update k v xs) \<subseteq> insert (k, v) (set xs)"
  by (induction xs) auto

lemma write_artifact_safe:
  assumes s: "safe w" and inv: "db_inv db'"
    and ok: "quiet a (view d w) \<or> (\<forall>db. map_of (w_artifacts w) (d, a) = Some db \<longrightarrow> fully_indexed db \<longrightarrow> fully_indexed db')"
  shows "safe (w\<lparr>w_artifacts := AList.update (d, a) db' (w_artifacts w)\<rparr>)"
proof -
  let ?w = "w\<lparr>w_artifacts := AList.update (d, a) db' (w_artifacts w)\<rparr>"
  have wf: "wf w" using s by (simp add: safe_def)
  have "set (AList.update (d, a) db' (w_artifacts w)) \<subseteq> insert ((d, a), db') (set (w_artifacts w))"
    by (rule set_alist_update)
  then have "wf ?w" using wf inv by (auto simp: wf_def distinct_update)
  moreover have "queryable ?w x" if x: "x \<in> set (cat_documents (w_catalog w))" "doc_state x = DOC_INDEX_READY" for x
  proof -
    from s x obtain b r db where q: "doc_artifact x = Some b" "get_artifact (w_catalog w) b = Some r"
      "art_document r = doc_id x" "map_of (w_artifacts w) (art_path r) = Some db" "fully_indexed db"
      by (auto simp: safe_def gate_def queryable_def)
    have p: "art_path r = (doc_id x, b)"
      using wf q(3) get_artifact_SomeD [OF q(2)] by (auto simp: wf_def)
    show ?thesis
    proof (cases "art_path r = (d, a)")
      case True
      with p x q(1) have "\<not> quiet a (view d w)" by (auto simp: quiet_def view_def)
      with ok True q show ?thesis by (auto simp: queryable_def update_conv')
    qed (use q in \<open>auto simp: queryable_def update_conv'\<close>)
  qed
  ultimately show ?thesis by (auto simp: safe_def gate_def)
qed

lemma view_write:
  "view d (w\<lparr>w_artifacts := AList.update (d, a) db' (w_artifacts w)\<rparr>)
     = (view d w)\<lparr>dv_files := (dv_files (view d w))(a := Some db')\<rparr>"
  by (auto simp: view_def update_conv')

lemma file_inv: "safe w \<Longrightarrow> map_of (w_artifacts w) p = Some db \<Longrightarrow> db_inv db"
  by (auto simp: safe_def wf_def dest: map_of_SomeD)

lemma triple_db:
  assumes "\<And>v db x db'. Q v \<Longrightarrow> dv_files v a = Some db \<Longrightarrow> db_inv db \<Longrightarrow> f db = Inr (x, db') \<Longrightarrow>
      db_inv db' \<and> (quiet a v \<or> (fully_indexed db \<longrightarrow> fully_indexed db'))
      \<and> R x (v\<lparr>dv_files := (dv_files v)(a := Some db')\<rparr>)"
  shows "triple (owns d Q) (db_tx (d, a) f) (\<lambda>x. owns d (R x)) (\<lambda>_. owns d Q)"
  unfolding db_tx_def
proof (rule owned.triple_step)
  fix w x w'
  assume o: "owns d Q w" and e: "(case map_of (w_artifacts w) (d, a) of None \<Rightarrow> (Inl (Raised OtherException), w)
     | Some db \<Rightarrow> (case f db of Inl e \<Rightarrow> (Inl (Raised e), w)
         | Inr (x, db') \<Rightarrow> (Inr x, w\<lparr>w_artifacts := AList.update (d, a) db' (w_artifacts w)\<rparr>))) = (Inr x, w')"
  then obtain db db' where f: "map_of (w_artifacts w) (d, a) = Some db" "f db = Inr (x, db')"
    "w' = w\<lparr>w_artifacts := AList.update (d, a) db' (w_artifacts w)\<rparr>"
    by (auto split: option.splits sum.splits)
  have q: "Q (view d w)" "safe w" "w_locked w = Some d" using o by (simp_all add: owns_def)
  have v: "dv_files (view d w) a = Some db" using f(1) by (simp add: view_def)
  note h = assms [OF q(1) v file_inv [OF q(2) f(1)] f(2)]
  have "safe w'" unfolding f(3) by (rule write_artifact_safe [OF q(2)]) (use h f(1) in auto)
  then show "owns d (R x) w'" using h q(3) by (simp add: owns_def f(3) view_write)
qed (auto split: option.splits sum.splits prod.splits)

lemma owned_jobs:
  assumes "\<And>t c. cat_documents (f t c) = cat_documents c" and "\<And>t c. cat_artifacts (f t c) = cat_artifacts c"
  shows "triple (owns d Q) (tx_do f) (\<lambda>_. owns d Q) (\<lambda>_. owns d Q)"
  by (rule owned.triple_tx_do) (use assms in \<open>auto simp: owns_def safe_same view_same\<close>)

lemma owned_get: "triple (owns d Q) (tx_get f) (\<lambda>_. owns d Q) (\<lambda>_. owns d Q)"
  by (rule keeps_triple [OF owned.keeps_tx_get])

lemma safe_jobs:
  assumes "\<And>t c. cat_documents (f t c) = cat_documents c" and "\<And>t c. cat_artifacts (f t c) = cat_artifacts c"
  shows "keeps safe (tx_do f)"
  by (rule gate.keeps_tx_do) (use assms in \<open>auto simp: safe_same\<close>)

lemma with_lock_triple:
  assumes "triple (owns d (\<lambda>_. True)) m (\<lambda>x. owns d (Q x)) (\<lambda>_. safe)"
  shows "triple safe (with_lock d m) (\<lambda>x w. safe w \<and> Q x (view d w)) (\<lambda>_. safe)"
  unfolding triple_def
proof (intro allI impI)
  fix w assume "safe w"
  then have "owns d (\<lambda>_. True) (w\<lparr>w_locked := Some d\<rparr>)" by (simp add: owns_def)
  then show "case with_lock d m w of (Inr x, t) \<Rightarrow> safe t \<and> Q x (view d t) | (Inl e, t) \<Rightarrow> safe t"
    using tripleD [OF assms, of "w\<lparr>w_locked := Some d\<rparr>"] by (cases "m (w\<lparr>w_locked := Some d\<rparr>)")
      (auto simp: with_lock_def owns_def split: sum.splits)
qed

end
