(* ===== verification/Indexing.thy ===== *)
theory Indexing
  imports Artifacts
begin

text \<open>
  The index service (\<open>app/local_compute/indexing.py\<close>) and the embedder it drives
  (\<open>app/indexing/embedder.py\<close>). An artifact is indexed in batches, each one transaction on its
  database; a restart rebuilds the tables from the beginning. The encoder of the model is a
  parameter; so is what loading it gives.
\<close>

section \<open>The embedder\<close>

record embedder =
  eb_model :: string
  eb_contract :: e5_contract
  eb_encode :: "pytext list \<Rightarrow> py_exn + vector list"

definition encode_batch :: "embedder \<Rightarrow> (ident \<times> pytext) list \<Rightarrow> py_exn + vector list" where
  "encode_batch e xs =
     (if xs = [] then Inr []
      else if list_ex (\<lambda>x. \<not> fits (eb_contract e) (snd x)) xs then Inl OtherException
      else eb_encode e (map (\<lambda>x. passage_prefix @ snd x) xs))"

section \<open>Small steps\<close>

definition lift_result :: "py_exn + 'a \<Rightarrow> 'a wop" where
  "lift_result r = (case r of Inl e \<Rightarrow> raise_op (Raised e) | Inr x \<Rightarrow> return_op x)"

definition cancel_if_requested :: "ident \<Rightarrow> unit wop" where
  "cancel_if_requested jid = then_op (tx_get (\<lambda>c. is_cancel_requested c jid))
     (\<lambda>b. if b then raise_code JOB_CANCELLED else return_op ())"

definition index_progress :: "bool \<Rightarrow> int \<Rightarrow> int" where
  "index_progress pipeline p = (let q = max 0 (min 100 p) in
     if pipeline then min (60 + (4 * q + 5) div 10) 99 else q)"

definition update_index_job :: "ident \<Rightarrow> string \<Rightarrow> int \<Rightarrow> bool \<Rightarrow> unit wop" where
  "update_index_job jid stage p pipeline =
     tx_do (update_job jid RUNNING stage (index_progress pipeline p) None)"

definition artifact_path :: "ident \<Rightarrow> (ident \<times> ident) wop" where
  "artifact_path a = then_op (tx_get (\<lambda>c. get_artifact c a)) (\<lambda>r. case r of
     None \<Rightarrow> raise_code CAPABILITY_UNAVAILABLE | Some x \<Rightarrow> return_op (art_path x))"

definition require_artifact_owner :: "ident \<Rightarrow> ident \<Rightarrow> unit wop" where
  "require_artifact_owner a d = then_op
     (tx_get (\<lambda>c. list_ex (\<lambda>r. art_id r = a \<and> art_document r = d) (cat_artifacts c)))
     (\<lambda>b. if b then return_op () else raise_code CAPABILITY_UNAVAILABLE)"

definition db_read :: "ident \<times> ident \<Rightarrow> (artifact_db \<Rightarrow> 'a) \<Rightarrow> 'a wop" where
  "db_read p f = db_tx p (\<lambda>db. Inr (f db, db))"

section \<open>Index tables\<close>

definition initialize_index_tables :: "ident \<times> ident \<Rightarrow> unit wop" where
  "initialize_index_tables p = db_tx p (\<lambda>db. Inr ((), set_index_meta ''INDEXING''
     (db\<lparr>ad_embeddings := [], ad_fts := [], ad_index_tables := True\<rparr>)))"

text \<open>\<open>LIMIT\<close> with a negative bound is no limit.\<close>

definition next_rows :: "int \<Rightarrow> int \<Rightarrow> artifact_db \<Rightarrow> chunk_row list" where
  "next_rows last_index b db =
     (let rows = filter (\<lambda>r. last_index < int (cr_index r)) (sort_key cr_index (ad_chunks db))
      in if b < 0 then rows else take (nat b) rows)"

text \<open>The vectors of one batch: reused ones by their exact input text, the others from the encoder.\<close>

definition rows_to_embed :: "(pytext \<times> vector) list \<Rightarrow> chunk_row list \<Rightarrow> (ident \<times> pytext) list" where
  "rows_to_embed reusable rows = map (\<lambda>r. (cr_id r, cr_embedding r))
     (filter (\<lambda>r. map_of reusable (cr_embedding r) = None) rows)"

definition generate_vectors :: "embedder \<Rightarrow> (ident \<times> pytext) list \<Rightarrow> py_exn + vector list" where
  "generate_vectors e xs = (if xs = [] then Inr [] else case encode_batch e xs of
       Inl (Compute x) \<Rightarrow> Inl (Compute x)
     | Inl _ \<Rightarrow> Inl (compute_exn PREPARATION_FAILED)
     | Inr vs \<Rightarrow> if length vs = length xs then Inr vs else Inl (compute_exn PREPARATION_FAILED))"

definition batch_vectors ::
  "embedder \<Rightarrow> (pytext \<times> vector) list \<Rightarrow> chunk_row list \<Rightarrow> py_exn + (ident \<times> vector) list" where
  "batch_vectors e reusable rows = map_sum id (\<lambda>vs.
       zip (map fst (rows_to_embed reusable rows)) vs
       @ concat (map (\<lambda>r. case map_of reusable (cr_embedding r) of None \<Rightarrow> [] | Some v \<Rightarrow> [(cr_id r, v)]) rows))
     (generate_vectors e (rows_to_embed reusable rows))"

definition insert_embedding :: "string \<Rightarrow> ident \<Rightarrow> vector \<Rightarrow> artifact_db \<Rightarrow> py_exn + artifact_db" where
  "insert_embedding model k v db =
     (if \<not> valid_vector v then Inl (compute_exn PREPARATION_FAILED)
      else if k \<in> set (embedded db) \<or> k \<notin> set (map cr_id (ad_chunks db)) then Inl IntegrityError
      else Inr (db\<lparr>ad_embeddings := ad_embeddings db @ [\<lparr>em_chunk = k, em_model = model,
             em_dimension = int embedding_dimension, em_normalized = 1, em_version = index_version,
             em_vector = v\<rparr>]\<rparr>))"

fun insert_embeddings ::
  "string \<Rightarrow> (ident \<times> vector) list \<Rightarrow> chunk_row list \<Rightarrow> artifact_db \<Rightarrow> py_exn + artifact_db" where
  "insert_embeddings model vs [] db = Inr db"
| "insert_embeddings model vs (r # rs) db = (case map_of vs (cr_id r) of
       None \<Rightarrow> Inl OtherException
     | Some v \<Rightarrow> and_then (insert_embedding model (cr_id r) v db) (insert_embeddings model vs rs))"

definition insert_batch ::
  "string \<Rightarrow> (ident \<times> vector) list \<Rightarrow> chunk_row list \<Rightarrow> artifact_db \<Rightarrow> py_exn + unit \<times> artifact_db" where
  "insert_batch model vs rows db = map_sum id
     (\<lambda>x. ((), x\<lparr>ad_fts := ad_fts x @ map (\<lambda>r. (cr_id r, cr_content r)) rows\<rparr>))
     (insert_embeddings model vs rows db)"

text \<open>The batches of one run; the two counters are the reused and the generated embeddings.\<close>

function index_loop ::
  "ident \<Rightarrow> bool \<Rightarrow> int \<Rightarrow> ident \<times> ident \<Rightarrow> embedder \<Rightarrow> (pytext \<times> vector) list \<Rightarrow> nat \<Rightarrow>
   nat \<Rightarrow> int \<Rightarrow> nat \<times> nat \<Rightarrow> (nat \<times> nat \<times> nat) wop" where
  "index_loop jid pipeline b p e reusable count processed last_index (old, new) =
     (if \<not> processed < count then return_op (processed, old, new)
      else seq_op (cancel_if_requested jid)
        (then_op (db_read p (next_rows last_index b)) (\<lambda>rows.
          if rows = [] then return_op (processed, old, new)
          else then_op (lift_result (batch_vectors e reusable rows)) (\<lambda>vs.
            let n = length (rows_to_embed reusable rows); done' = processed + length rows in
            seq_op (cancel_if_requested jid)
              (seq_op (db_tx p (insert_batch (eb_model e) vs rows))
                (seq_op (update_index_job jid ''INDEXING'' (10 + int (80 * done' div count)) pipeline)
                  (index_loop jid pipeline b p e reusable count done' (int (cr_index (last rows)))
                    (old + (length rows - n), new + n))))))))"
  by pat_completeness auto
termination
  by (relation "measure (\<lambda>(jid, pipeline, b, p, e, reusable, count, processed, rest). count - processed)")
    (auto simp flip: length_greater_0_conv)

declare index_loop.simps [simp del]

section \<open>Validation\<close>

definition index_valid :: "nat \<Rightarrow> string \<Rightarrow> artifact_db \<Rightarrow> bool" where
  "index_valid n model db \<longleftrightarrow> length (ad_embeddings db) = n \<and> length (ad_fts db) = n
     \<and> list_all (valid_row model) (ad_embeddings db)"

definition validate_index :: "ident \<times> ident \<Rightarrow> nat \<Rightarrow> string \<Rightarrow> unit wop" where
  "validate_index p n model = then_op (db_read p (index_valid n model))
     (\<lambda>b. if b then return_op () else raise_code PREPARATION_FAILED)"

section \<open>Reuse\<close>

definition reusable_rows :: "artifact_db \<Rightarrow> (pytext \<times> vector) list" where
  "reusable_rows db = concat (map (\<lambda>c. map (\<lambda>e. (cr_embedding c, em_vector e))
     (filter (\<lambda>e. em_chunk e = cr_id c \<and> em_dimension e = int embedding_dimension
        \<and> em_normalized e = 1 \<and> em_version e = index_version) (ad_embeddings db))) (ad_chunks db))"

definition reusable_from :: "artifact_db \<Rightarrow> py_exn + (pytext \<times> vector) list" where
  "reusable_from db =
     (if \<not> ad_index_tables db then Inl OtherException
      else if \<not> list_all (\<lambda>x. valid_vector (snd x)) (reusable_rows db) then Inl (compute_exn PREPARATION_FAILED)
      else Inr (fold (\<lambda>x d. od_setdefault (fst x) (snd x) d) (reusable_rows db) []))"

definition reusable_vectors :: "ident option \<Rightarrow> (pytext \<times> vector) list wop" where
  "reusable_vectors a = (case a of
       None \<Rightarrow> return_op []
     | Some a \<Rightarrow> then_op (artifact_path a) (\<lambda>p. step_op (\<lambda>w. case map_of (w_artifacts w) p of
           None \<Rightarrow> (Inl (Raised (compute_exn CAPABILITY_UNAVAILABLE)), w)
         | Some db \<Rightarrow> (case reusable_from db of Inl e \<Rightarrow> (Inl (Raised e), w) | Inr x \<Rightarrow> (Inr x, w)))))"

section \<open>The service\<close>

definition set_artifact_ready :: "ident \<Rightarrow> seconds option \<Rightarrow> catalog \<Rightarrow> catalog" where
  "set_artifact_ready a promoted c = c\<lparr>cat_artifacts := update_where (\<lambda>r. art_id r = a)
     (\<lambda>r. r\<lparr>art_state := ART_INDEX_READY,
            art_promoted := (case promoted of None \<Rightarrow> art_promoted r | Some t \<Rightarrow> Some t)\<rparr>) (cat_artifacts c)\<rparr>"

definition make_document_ready :: "ident \<Rightarrow> ident \<Rightarrow> seconds \<Rightarrow> catalog \<Rightarrow> catalog" where
  "make_document_ready d a now = update_document d (\<lambda>x. x\<lparr>doc_artifact := Some a,
     doc_state := DOC_INDEX_READY, doc_error := None, doc_updated := now\<rparr>)"

definition finish_index :: "bool \<Rightarrow> ident \<Rightarrow> ident \<Rightarrow> seconds \<Rightarrow> catalog \<Rightarrow> catalog" where
  "finish_index activate d a now c = (let c1 = set_artifact_ready a None c in
     if activate then make_document_ready d a now c1 else c1)"

text \<open>\<open>_restore_not_indexed\<close>: the mark on the file is best effort, the document is not.\<close>

definition unmark_file :: "ident \<Rightarrow> unit wop" where
  "unmark_file a = then_op (artifact_path a) (\<lambda>p. step_op (\<lambda>w. case map_of (w_artifacts w) p of
       None \<Rightarrow> (Inr (), w)
     | Some db \<Rightarrow> (Inr (), w\<lparr>w_artifacts := AList.update p (set_index_meta ''PREPARED_NOT_INDEXED'' db) (w_artifacts w)\<rparr>)))"

definition restore_not_indexed :: "ident \<Rightarrow> ident \<Rightarrow> string \<Rightarrow> bool \<Rightarrow> unit wop" where
  "restore_not_indexed a d code activate = seq_op (try_except (unmark_file a) (\<lambda>_. return_op ()))
     (when_op activate (tx_do (set_document_state d DOC_PREPARED_NOT_INDEXED (Some code))))"

definition end_job :: "ident \<Rightarrow> compute_error \<Rightarrow> unit wop" where
  "end_job jid e = tx_do (if err_code e = JOB_CANCELLED
     then update_job jid CANCELLED ''CANCELLED'' 100 (Some (durable_code e))
     else update_job jid FAILED ''FAILED'' 100 (Some (durable_code e)))"

definition index_failed :: "ident \<Rightarrow> ident \<Rightarrow> ident \<Rightarrow> bool \<Rightarrow> py_exn \<Rightarrow> 'a wop" where
  "index_failed jid d a activate x = (case x of
       Compute e \<Rightarrow> seq_op (restore_not_indexed a d (durable_code e) activate)
         (seq_op (end_job jid e) (raise_op (Raised x)))
     | _ \<Rightarrow> seq_op (restore_not_indexed a d (code_value PREPARATION_FAILED) activate)
         (seq_op (end_job jid (compute_error PREPARATION_FAILED)) (raise_code PREPARATION_FAILED)))"

record index_result =
  ir_job :: ident
  ir_document :: ident
  ir_artifact :: ident
  ir_count :: nat
  ir_reused :: nat
  ir_generated :: nat

definition load_embedder :: "py_exn + embedder \<Rightarrow> embedder wop" where
  "load_embedder load = (case load of
       Inl _ \<Rightarrow> raise_op (Raised (Compute (diagnosed_error MODEL_ARTIFACT_UNAVAILABLE ''model_load_failed'')))
     | Inr e \<Rightarrow> return_op e)"

text \<open>The body of the \<open>try\<close> of \<open>_index_document_locked\<close>, from the tables to the ready mark.\<close>

definition build_index ::
  "ident \<Rightarrow> bool \<Rightarrow> int \<Rightarrow> ident \<times> ident \<Rightarrow> embedder \<Rightarrow> (pytext \<times> vector) list \<Rightarrow> (nat \<times> nat \<times> nat) wop" where
  "build_index jid pipeline b p e reusable =
     then_op (db_read p (\<lambda>db. length (ad_chunks db))) (\<lambda>n.
       if n = 0 then raise_code PREPARATION_FAILED
       else seq_op (initialize_index_tables p) (seq_op (update_index_job jid ''INDEXING'' 10 pipeline)
         (then_op (index_loop jid pipeline b p e reusable n 0 (- 1) (0, 0)) (\<lambda>(processed, old, new).
           if processed \<noteq> n then raise_code PREPARATION_FAILED
           else seq_op (cancel_if_requested jid) (seq_op (update_index_job jid ''VALIDATING_INDEX'' 94 pipeline)
             (seq_op (validate_index p n (eb_model e))
               (seq_op (db_tx p (\<lambda>db. Inr ((), set_index_meta ''INDEX_READY'' db)))
                 (return_op (n, old, new)))))))))"

definition run_index ::
  "py_exn + embedder \<Rightarrow> int \<Rightarrow> ident \<Rightarrow> ident \<Rightarrow> bool \<Rightarrow> ident \<Rightarrow> bool \<Rightarrow> ident option \<Rightarrow> index_result wop" where
  "run_index load b d jid pipeline a activate reuse =
     seq_op (cancel_if_requested jid) (seq_op (update_index_job jid ''LOADING_EMBEDDING_MODEL'' 5 pipeline)
       (then_op (load_embedder load) (\<lambda>e.
         seq_op (cancel_if_requested jid) (then_op (artifact_path a) (\<lambda>p.
           then_op (reusable_vectors reuse) (\<lambda>reusable.
             then_op (build_index jid pipeline b p e reusable) (\<lambda>(n, old, new).
               seq_op (tx_do (finish_index activate d a))
                 (seq_op (tx_do (update_job jid SUCCEEDED ''INDEX_READY'' 100 None))
                   (return_op \<lparr>ir_job = jid, ir_document = d, ir_artifact = a, ir_count = n,
                      ir_reused = old, ir_generated = new\<rparr>)))))))))"

text \<open>The job of the run: the caller's, which must belong to the document, or a new one.\<close>

definition index_job :: "ident \<Rightarrow> ident \<Rightarrow> ident option \<Rightarrow> ident wop" where
  "index_job d a jid = (case jid of
       None \<Rightarrow> then_op new_uuid (\<lambda>u.
         then_op (tx (\<lambda>now c. case enqueue_skeleton index_document_op now u c of
             None \<Rightarrow> (None, c) | Some (k, c') \<Rightarrow> (Some k, c'))) (\<lambda>r. case r of
           None \<Rightarrow> raise_op (Raised IntegrityError)
         | Some k \<Rightarrow> seq_op (tx_do (\<lambda>now. update_jobs (\<lambda>j. job_id j = k) (\<lambda>j. j\<lparr>job_document := Some d,
               job_artifact := Some a, job_stage := Some ''INDEXING'', job_state := RUNNING,
               job_progress := 0, job_updated := now\<rparr>)))
             (return_op k)))
     | Some k \<Rightarrow> then_op (tx_get (\<lambda>c. get_job c k)) (\<lambda>j.
         if (case j of None \<Rightarrow> True | Some x \<Rightarrow> job_document x \<noteq> Some d) then raise_code INVALID_REQUEST
         else seq_op (tx_do (attach_artifact k a)) (return_op k)))"

definition chosen_artifact :: "ident option \<Rightarrow> local_document \<Rightarrow> ident option" where
  "chosen_artifact art x = (let a = (if art = None \<or> art = Some [] then doc_artifact x else art)
     in if a = Some [] then None else a)"

definition index_document_locked ::
  "py_exn + embedder \<Rightarrow> int \<Rightarrow> ident \<Rightarrow> ident option \<Rightarrow> ident option \<Rightarrow> bool \<Rightarrow> ident option \<Rightarrow> index_result wop" where
  "index_document_locked load b d job art activate reuse =
     then_op (tx_get (\<lambda>c. get_document c d)) (\<lambda>doc. case doc of
       None \<Rightarrow> raise_code DOCUMENT_NOT_FOUND
     | Some x \<Rightarrow>
         if doc_state x \<notin> {DOC_PREPARED_NOT_INDEXED, DOC_INDEX_READY} then raise_code CAPABILITY_UNAVAILABLE
         else (case chosen_artifact art x of
           None \<Rightarrow> raise_code CAPABILITY_UNAVAILABLE
         | Some a \<Rightarrow> seq_op (require_artifact_owner a d)
             (seq_op (case reuse of None \<Rightarrow> return_op () | Some r \<Rightarrow> require_artifact_owner r d)
               (then_op (index_job d a job) (\<lambda>jid.
                 seq_op (when_op activate (tx_do (set_document_state d DOC_INDEXING None)))
                   (try_except (run_index load b d jid (job \<noteq> None) a activate reuse)
                     (index_failed jid d a activate)))))))"

definition index_document ::
  "py_exn + embedder \<Rightarrow> int \<Rightarrow> ident \<Rightarrow> ident option \<Rightarrow> ident option \<Rightarrow> bool \<Rightarrow> ident option \<Rightarrow> index_result wop" where
  "index_document load b d job art activate reuse =
     with_lock d (index_document_locked load b d job art activate reuse)"

text \<open>\<open>activate_indexed_artifact\<close>: promotion of a replacement whose file says that it is indexed.\<close>

definition activate_indexed_artifact :: "ident \<Rightarrow> ident \<Rightarrow> unit wop" where
  "activate_indexed_artifact d a = with_lock d
     (seq_op (require_artifact_owner a d) (then_op (artifact_path a) (\<lambda>p.
       then_op (db_read p index_meta) (\<lambda>s.
         if s \<noteq> Some ''INDEX_READY'' then raise_code CAPABILITY_UNAVAILABLE
         else tx_do (\<lambda>now c. make_document_ready d a now (set_artifact_ready a (Some now) c))))))"

section \<open>The tables of an artifact\<close>

lemma insert_embedding_inv:
  assumes "insert_embedding model k v db = Inr db'"
  shows "embedded db' = embedded db @ [k]" "ad_chunks db' = ad_chunks db" "ad_fts db' = ad_fts db"
    "ad_metadata db' = ad_metadata db" "k \<notin> set (embedded db)" "k \<in> set (map cr_id (ad_chunks db))"
  using assms by (auto simp: insert_embedding_def embedded_def split: if_splits)

lemma insert_embeddings_inv:
  assumes "insert_embeddings model vs rows db = Inr db'" and "distinct (embedded db)"
    and "set (embedded db) \<subseteq> set (map cr_id (ad_chunks db))"
  shows "embedded db' = embedded db @ map cr_id rows \<and> ad_chunks db' = ad_chunks db \<and> ad_fts db' = ad_fts db
    \<and> ad_metadata db' = ad_metadata db \<and> distinct (embedded db @ map cr_id rows) \<and> set (map cr_id rows) \<subseteq> set (map cr_id (ad_chunks db))"
  using assms
proof (induction rows arbitrary: db)
  case (Cons r rs)
  then obtain v db1 where i: "insert_embedding model (cr_id r) v db = Inr db1" "insert_embeddings model vs rs db1 = Inr db'"
    by (auto simp: and_then_Inr split: option.splits)
  note f = insert_embedding_inv [OF i(1)]
  have "distinct (embedded db1)" "set (embedded db1) \<subseteq> set (map cr_id (ad_chunks db1))"
    using Cons.prems(2,3) f(5,6) by (auto simp: f(1,2))
  from Cons.IH [OF i(2) this] f show ?case by (simp add: f(1,2) disjoint_iff)
qed simp

lemma embedded_frame [simp]:
  "embedded (db\<lparr>ad_fts := x\<rparr>) = embedded db" "embedded (db\<lparr>ad_index_tables := t\<rparr>) = embedded db"
  "embedded (db\<lparr>ad_embeddings := []\<rparr>) = []"
  by (simp_all add: embedded_def)

lemma insert_batch_inv:
  assumes "insert_batch model vs rows db = Inr (u, db')" and "db_inv db" and "index_meta db \<noteq> Some ''INDEX_READY''"
  shows "db_inv db' \<and> ad_chunks db' = ad_chunks db \<and> index_meta db' = index_meta db"
proof -
  obtain x where x: "insert_embeddings model vs rows db = Inr x"
    "db' = x\<lparr>ad_fts := ad_fts x @ map (\<lambda>r. (cr_id r, cr_content r)) rows\<rparr>"
    using assms(1) by (cases "insert_embeddings model vs rows db") (auto simp: insert_batch_def)
  have i: "distinct (embedded db)" "set (embedded db) \<subseteq> set (map cr_id (ad_chunks db))" "map fst (ad_fts db) = embedded db"
    "distinct (map cr_id (ad_chunks db))" using assms(2) by (simp_all add: db_inv_def)
  show ?thesis using insert_embeddings_inv [OF x(1) i(1,2)] i assms(3)
    by (auto simp: x(2) db_inv_def index_meta_def comp_def)
qed

lemma index_valid_full:
  assumes "db_inv db" and "index_valid n model db" and "n = length (ad_chunks db)" and "n \<noteq> 0"
  shows "fully_indexed db"
proof -
  have d: "distinct (embedded db)" "set (embedded db) \<subseteq> set (map cr_id (ad_chunks db))"
    "map fst (ad_fts db) = embedded db" "distinct (map cr_id (ad_chunks db))"
    using assms(1) by (simp_all add: db_inv_def)
  have "length (embedded db) = n" using assms(2) by (simp add: index_valid_def embedded_def)
  then have "card (set (embedded db)) = card (set (map cr_id (ad_chunks db)))"
    using d(1,4) assms(3) by (metis distinct_card length_map)
  with d(2) have "set (embedded db) = set (map cr_id (ad_chunks db))" by (intro card_subset_eq) auto
  with d assms(2,3,4) show ?thesis by (auto simp: fully_indexed_def index_valid_def list_all_iff)
qed

lemma index_meta_set [simp]: "index_meta (set_index_meta v db) = Some v"
  by (simp add: index_meta_def set_index_meta_def update_conv')

lemma set_index_meta_frame [simp]:
  "embedded (set_index_meta v db) = embedded db" "ad_chunks (set_index_meta v db) = ad_chunks db"
  "ad_fts (set_index_meta v db) = ad_fts db" "fully_indexed (set_index_meta v db) = fully_indexed db"
  by (simp_all add: set_index_meta_def embedded_def fully_indexed_def)

lemma set_index_meta_inv:
  "db_inv db \<Longrightarrow> (v = ''INDEX_READY'' \<Longrightarrow> fully_indexed db) \<Longrightarrow> db_inv (set_index_meta v db)"
  by (auto simp: db_inv_def)

lemma cleared_inv:
  "db_inv db \<Longrightarrow> db_inv (set_index_meta ''INDEXING'' (db\<lparr>ad_embeddings := [], ad_fts := [], ad_index_tables := True\<rparr>))"
  by (simp add: db_inv_def)

section \<open>Steps of the lock holder\<close>

lemma update_job_other [simp]:
  "cat_artifacts (update_job j st g p e now c) = cat_artifacts c" "cat_documents (update_job j st g p e now c) = cat_documents c"
  by (simp_all add: update_job_def)

lemma attach_artifact_other [simp]:
  "cat_artifacts (attach_artifact j a now c) = cat_artifacts c" "cat_documents (attach_artifact j a now c) = cat_documents c"
  by (simp_all add: attach_artifact_def)

lemma safe_exit: "triple P m Q (\<lambda>_. owns d R) \<Longrightarrow> triple P m Q (\<lambda>_. safe)"
  by (erule triple_weaken) (auto dest: owns_safe)

lemma owns_fact: "(F \<Longrightarrow> triple (owns d Q) m R E) \<Longrightarrow> triple (owns d (\<lambda>v. Q v \<and> F)) m R E"
  by (fastforce simp: triple_def owns_def)

lemma owns_pre: "triple (owns d Q') m R E \<Longrightarrow> (\<And>v. Q v \<Longrightarrow> Q' v) \<Longrightarrow> triple (owns d Q) m R E"
  by (erule triple_weaken) (auto simp: owns_def)

lemma owned_job_step: "triple (owns d Q) (update_index_job jid st p pipeline) (\<lambda>_. owns d Q) (\<lambda>_. safe)"
  unfolding update_index_job_def by (rule safe_exit [OF owned_jobs]) simp_all

lemma owned_read: "triple (owns d Q) (tx_get f) (\<lambda>_. owns d Q) (\<lambda>_. safe)"
  by (rule safe_exit [OF owned_get])

lemma owned_raise: "triple (owns d Q) (raise_op e) R (\<lambda>_. safe)" "triple (owns d Q) (raise_code c) R (\<lambda>_. safe)"
  by (auto simp: raise_code_def owns_def intro!: triple_raise)

lemma owned_return: "(\<And>v. Q v \<Longrightarrow> R x v) \<Longrightarrow> triple (owns d Q) (return_op x) (\<lambda>x. owns d (R x)) (\<lambda>_. safe)"
  by (rule triple_return) (simp add: owns_def)

lemma owned_cancel_check: "triple (owns d Q) (cancel_if_requested jid) (\<lambda>_. owns d Q) (\<lambda>_. safe)"
  unfolding cancel_if_requested_def
  by (rule triple_then [OF owned_read]) (auto intro: owned_raise owned_return)

lemma owned_lift: "triple (owns d Q) (lift_result r) (\<lambda>_. owns d Q) (\<lambda>_. safe)"
  by (cases r) (auto simp: lift_result_def intro: owned_raise owned_return)

lemma owned_path:
  assumes "\<And>v. Q v \<Longrightarrow> owned_row a v"
  shows "triple (owns d Q) (artifact_path a) (\<lambda>p. owns d (\<lambda>v. Q v \<and> p = (d, a))) (\<lambda>_. safe)"
  unfolding artifact_path_def
proof (rule triple_then)
  show "triple (owns d Q) (tx_get (\<lambda>c. get_artifact c a))
      (\<lambda>r. owns d (\<lambda>v. Q v \<and> (r \<noteq> None \<longrightarrow> art_path (the r) = (d, a)))) (\<lambda>_. safe)"
  proof (rule owned.triple_tx_get)
    fix w assume o: "owns d Q w"
    then have wf: "wf w" and "owned_row a (view d w)" using assms by (auto simp: owns_def safe_def)
    then obtain r where r: "r \<in> set (cat_artifacts (w_catalog w))" "art_document r = d" "art_id r = a"
      by (auto simp: owned_row_def view_def)
    then have "get_artifact (w_catalog w) a = Some r" "art_path r = (d, a)"
      using wf by (auto simp: get_artifact_iff wf_def)
    with o show "owns d (\<lambda>v. Q v \<and> (get_artifact (w_catalog w) a \<noteq> None \<longrightarrow>
        art_path (the (get_artifact (w_catalog w) a)) = (d, a))) w" by (simp add: owns_def)
  qed (rule owns_safe)
next
  fix r
  show "triple (owns d (\<lambda>v. Q v \<and> (r \<noteq> None \<longrightarrow> art_path (the r) = (d, a))))
     (case r of None \<Rightarrow> raise_code CAPABILITY_UNAVAILABLE | Some x \<Rightarrow> return_op (art_path x))
     (\<lambda>p. owns d (\<lambda>v. Q v \<and> p = (d, a))) (\<lambda>_. safe)"
    by (cases r) (auto intro: owned_raise owned_return)
qed

lemmas owned_db = safe_exit [OF triple_db]

lemma owned_db_read:
  assumes "\<And>v db. Q v \<Longrightarrow> dv_files v a = Some db \<Longrightarrow> db_inv db \<Longrightarrow> R (f db) v"
  shows "triple (owns d Q) (db_read (d, a) f) (\<lambda>x. owns d (R x)) (\<lambda>_. safe)"
  unfolding db_read_def
proof (rule owned_db)
  fix v db x db' assume "Q v" "dv_files v a = Some db" "db_inv db" "Inr (f db, db) = (Inr (x, db') :: py_exn + _)"
  moreover from \<open>dv_files v a = Some db\<close> have "v\<lparr>dv_files := (dv_files v)(a := Some db)\<rparr> = v"
    by (cases v) (simp add: fun_upd_idem)
  ultimately show "db_inv db' \<and> (quiet a v \<or> (fully_indexed db \<longrightarrow> fully_indexed db'))
      \<and> R x (v\<lparr>dv_files := (dv_files v)(a := Some db')\<rparr>)" using assms by auto
qed

section \<open>The run keeps the gate and ends with a full index\<close>

definition present :: "ident \<Rightarrow> doc_view \<Rightarrow> bool" where
  "present a v \<longleftrightarrow> owned_row a v \<and> dv_documents v \<noteq> [] \<and> quiet a v"

definition building :: "ident \<Rightarrow> nat \<Rightarrow> doc_view \<Rightarrow> bool" where
  "building a n v \<longleftrightarrow> present a v \<and> n \<noteq> 0 \<and> (\<exists>db. dv_files v a = Some db \<and> length (ad_chunks db) = n
     \<and> index_meta db \<noteq> Some ''INDEX_READY'')"

definition built :: "ident \<Rightarrow> doc_view \<Rightarrow> bool" where
  "built a v \<longleftrightarrow> present a v \<and> (\<exists>db. dv_files v a = Some db \<and> fully_indexed db)"

lemma present_files [simp]: "present a (v\<lparr>dv_files := fs\<rparr>) = present a v"
  by (simp add: present_def owned_row_def quiet_def)

lemma building_step:
  assumes "building a n v" and "dv_files v a = Some db" and "ad_chunks db' = ad_chunks db" and "index_meta db' = index_meta db"
  shows "building a n (v\<lparr>dv_files := (dv_files v)(a := Some db')\<rparr>)"
  using assms by (auto simp: building_def)

lemma building_quiet: "building a n v \<Longrightarrow> quiet a v"
  by (simp add: building_def present_def)

lemma index_loop_keeps:
  "triple (owns d (building a n)) (index_loop jid pipeline b (d, a) e reusable n processed last_index counts)
     (\<lambda>_. owns d (building a n)) (\<lambda>_. safe)"
proof (induction jid pipeline b "(d, a)" e reusable n processed last_index counts rule: index_loop.induct)
  case (1 jid pipeline b e reusable n processed last_index old new)
  show ?case
  proof (cases "processed < n")
    case True
    have db: "triple (owns d (building a n)) (db_tx (d, a) (insert_batch (eb_model e) vs rows))
        (\<lambda>_. owns d (building a n)) (\<lambda>_. safe)" for vs rows
    proof (rule owned_db)
      fix v db x db'
      assume b: "building a n v" "dv_files v a = Some db" and i: "db_inv db" "insert_batch (eb_model e) vs rows db = Inr (x, db')"
      then have "index_meta db \<noteq> Some ''INDEX_READY''" by (auto simp: building_def)
      note k = insert_batch_inv [OF i(2,1) this]
      then show "db_inv db' \<and> (quiet a v \<or> (fully_indexed db \<longrightarrow> fully_indexed db'))
          \<and> building a n (v\<lparr>dv_files := (dv_files v)(a := Some db')\<rparr>)"
        using building_step [OF b] building_quiet [OF b(1)] by simp
    qed
    have read: "triple (owns d (building a n)) (db_read (d, a) (next_rows last_index b)) (\<lambda>_. owns d (building a n)) (\<lambda>_. safe)"
      by (rule owned_db_read)
    have ih: "rows \<noteq> [] \<Longrightarrow> triple (owns d (building a n))
        (index_loop jid pipeline b (d, a) e reusable n (processed + length rows) (int (cr_index (last rows)))
          (old + (length rows - length (rows_to_embed reusable rows)), new + length (rows_to_embed reusable rows)))
        (\<lambda>_. owns d (building a n)) (\<lambda>_. safe)" for rows
      using 1 [OF _ _ refl refl] True by simp
    have "triple (owns d (building a n)) (if rows = [] then return_op (processed, old, new)
          else then_op (lift_result (batch_vectors e reusable rows)) (\<lambda>vs.
            let n' = length (rows_to_embed reusable rows); done' = processed + length rows in
            seq_op (cancel_if_requested jid)
              (seq_op (db_tx (d, a) (insert_batch (eb_model e) vs rows))
                (seq_op (update_index_job jid ''INDEXING'' (10 + int (80 * done' div n)) pipeline)
                  (index_loop jid pipeline b (d, a) e reusable n done' (int (cr_index (last rows)))
                    (old + (length rows - n'), new + n'))))))
        (\<lambda>_. owns d (building a n)) (\<lambda>_. safe)" for rows
    proof (cases "rows = []")
      case False
      then show ?thesis
        by (simp only: Let_def if_False) (intro triple_then [OF owned_lift] triple_seq [OF owned_cancel_check]
            triple_seq [OF db] triple_seq [OF owned_job_step] ih)
    qed (simp add: owned_return)
    then show ?thesis
      by (subst index_loop.simps) (simp only: True not_True_eq_False if_False,
        intro triple_seq [OF owned_cancel_check] triple_then [OF read])
  next
    case False
    then show ?thesis by (subst index_loop.simps) (simp add: owned_return)
  qed
qed

lemma build_index_full:
  "triple (owns d (present a)) (build_index jid pipeline b (d, a) e reusable)
     (\<lambda>_. owns d (built a)) (\<lambda>_. safe)"
  unfolding build_index_def
proof (rule triple_then)
  let ?Q = "\<lambda>n v. present a v \<and> (\<exists>db. dv_files v a = Some db \<and> length (ad_chunks db) = n)"
  show "triple (owns d (present a)) (db_read (d, a) (\<lambda>db. length (ad_chunks db))) (\<lambda>n. owns d (?Q n)) (\<lambda>_. safe)"
    by (rule owned_db_read) simp
  fix n
  have init: "triple (owns d (?Q n)) (initialize_index_tables (d, a)) (\<lambda>_. owns d (building a n)) (\<lambda>_. safe)" if "n \<noteq> 0"
    unfolding initialize_index_tables_def
    by (rule owned_db) (use that in \<open>auto simp: building_def present_def [of a v for v] cleared_inv owned_row_def quiet_def\<close>)
  have valid: "triple (owns d (building a n)) (validate_index (d, a) n (eb_model e))
      (\<lambda>_. owns d (\<lambda>v. building a n v \<and> (\<forall>db. dv_files v a = Some db \<longrightarrow> fully_indexed db))) (\<lambda>_. safe)"
    unfolding validate_index_def
  proof (rule triple_then)
    show "triple (owns d (building a n)) (db_read (d, a) (index_valid n (eb_model e)))
        (\<lambda>ok. owns d (\<lambda>v. building a n v \<and> (ok \<longrightarrow> (\<forall>db. dv_files v a = Some db \<longrightarrow> fully_indexed db)))) (\<lambda>_. safe)"
      by (rule owned_db_read) (auto simp: building_def intro: index_valid_full)
  qed (auto intro: owned_raise owned_return)
  have mark: "triple (owns d (\<lambda>v. building a n v \<and> (\<forall>db. dv_files v a = Some db \<longrightarrow> fully_indexed db)))
      (db_tx (d, a) (\<lambda>db. Inr ((), set_index_meta ''INDEX_READY'' db))) (\<lambda>_. owns d (built a)) (\<lambda>_. safe)"
    by (rule owned_db) (auto simp: building_def built_def intro: set_index_meta_inv)
  show "triple (owns d (?Q n)) (if n = 0 then raise_code PREPARATION_FAILED
       else seq_op (initialize_index_tables (d, a)) (seq_op (update_index_job jid ''INDEXING'' 10 pipeline)
         (then_op (index_loop jid pipeline b (d, a) e reusable n 0 (- 1) (0, 0)) (\<lambda>(processed, old, new).
           if processed \<noteq> n then raise_code PREPARATION_FAILED
           else seq_op (cancel_if_requested jid) (seq_op (update_index_job jid ''VALIDATING_INDEX'' 94 pipeline)
             (seq_op (validate_index (d, a) n (eb_model e))
               (seq_op (db_tx (d, a) (\<lambda>db. Inr ((), set_index_meta ''INDEX_READY'' db)))
                 (return_op (n, old, new)))))))))
     (\<lambda>_. owns d (built a)) (\<lambda>_. safe)"
  proof (cases "n = 0")
    case False
    have tail: "triple (owns d (building a n)) (case r of (processed, old, new) \<Rightarrow>
           if processed \<noteq> n then raise_code PREPARATION_FAILED
           else seq_op (cancel_if_requested jid) (seq_op (update_index_job jid ''VALIDATING_INDEX'' 94 pipeline)
             (seq_op (validate_index (d, a) n (eb_model e))
               (seq_op (db_tx (d, a) (\<lambda>db. Inr ((), set_index_meta ''INDEX_READY'' db)))
                 (return_op (n, old, new)))))) (\<lambda>_. owns d (built a)) (\<lambda>_. safe)" for r
    proof (cases "fst r = n")
      case True
      then show ?thesis
        by (cases r) (simp, intro triple_seq [OF owned_cancel_check] triple_seq [OF owned_job_step]
            triple_seq [OF valid] triple_seq [OF mark] owned_return)
    qed (cases r, simp add: owned_raise)
    show ?thesis
      unfolding if_not_P [OF False]
      by (intro triple_seq [OF init [OF False]] triple_seq [OF owned_job_step] triple_then [OF index_loop_keeps] tail)
  qed (simp add: owned_raise)
qed

definition live :: "ident \<Rightarrow> doc_view \<Rightarrow> bool" where
  "live a v \<longleftrightarrow> dv_documents v \<noteq> [] \<and>
     (\<forall>x \<in> set (dv_documents v). doc_state x = DOC_INDEX_READY \<and> doc_artifact x = Some a)"

definition full :: "ident \<Rightarrow> doc_view \<Rightarrow> bool" where
  "full a v \<longleftrightarrow> (\<exists>db. dv_files v a = Some db \<and> fully_indexed db)"

lemma set_ready_frame [simp]:
  "cat_documents (set_artifact_ready a t c) = cat_documents c" by (simp add: set_artifact_ready_def)

lemma make_ready_row:
  "x \<in> set (cat_documents (make_document_ready d a now c)) \<Longrightarrow>
     (doc_id x = d \<longrightarrow> doc_state x = DOC_INDEX_READY \<and> doc_artifact x = Some a)
     \<and> (doc_id x \<noteq> d \<longrightarrow> x \<in> set (cat_documents c))"
  by (auto simp: make_document_ready_def update_document_def set_update_where)

lemma make_ready_ids [simp]:
  "map doc_id (cat_documents (make_document_ready d a now c)) = map doc_id (cat_documents c)"
  by (simp add: make_document_ready_def)

lemma filter_key_nonempty: "filter (\<lambda>x. key x = k) xs \<noteq> [] \<longleftrightarrow> k \<in> set (map key xs)"
  by (auto simp: filter_empty_conv)

lemma promote_safe:
  assumes o: "owns d Q w" and row: "owned_row a (view d w)" and f: "full a (view d w)"
    and c: "c = make_document_ready d a now (set_artifact_ready a t (w_catalog w))"
  shows "owns d (\<lambda>v. full a v \<and> (dv_documents (view d w) \<noteq> [] \<longrightarrow> live a v)) (w\<lparr>w_catalog := c\<rparr>)"
proof -
  have wf: "wf w" "safe w" using o by (simp_all add: owns_def safe_def)
  let ?g = "\<lambda>r :: local_artifact. if art_id r = a then r\<lparr>art_state := ART_INDEX_READY,
            art_promoted := (case t of None \<Rightarrow> art_promoted r | Some x \<Rightarrow> Some x)\<rparr> else r"
  have "safe (w\<lparr>w_catalog := c\<rparr>)"
  proof (rule safe_update [OF wf(2), where g = ?g])
    show "cat_artifacts c = map ?g (cat_artifacts (w_catalog w))"
      by (simp add: c make_document_ready_def update_document_def set_artifact_ready_def update_where_def)
    show "distinct (map doc_id (cat_documents c))" using wf(1) by (simp add: c wf_def)
    fix x assume x: "x \<in> set (cat_documents c)" "doc_state x = DOC_INDEX_READY"
    show "x \<in> set (cat_documents (w_catalog w)) \<or> queryable w x"
    proof (cases "doc_id x = d")
      case True
      then have a: "doc_artifact x = Some a" using make_ready_row [of x d a now] x(1) unfolding c by blast
      from f obtain db where "dv_files (view d w) a = Some db" "fully_indexed db" by (auto simp: full_def)
      then show ?thesis using owned_queryable [OF o row _ _ True a] by blast
    qed (use make_ready_row [OF x(1) [unfolded c]] in simp)
  qed (simp_all)
  moreover have "live a (view d (w\<lparr>w_catalog := c\<rparr>))" if ne: "dv_documents (view d w) \<noteq> []"
  proof -
    have "dv_documents (view d (w\<lparr>w_catalog := c\<rparr>)) \<noteq> []"
      using ne by (simp add: view_def filter_key_nonempty c del: set_map)
    then show ?thesis
      using make_ready_row [of _ d a now "set_artifact_ready a t (w_catalog w)"] by (auto simp: live_def view_def c)
  qed
  moreover have "full a (view d (w\<lparr>w_catalog := c\<rparr>))" using f by (simp add: full_def view_def)
  ultimately show ?thesis using o by (simp add: owns_def)
qed

lemma finish_index_triple:
  "triple (owns d (built a)) (tx_do (finish_index activate d a))
     (\<lambda>_. owns d (\<lambda>v. full a v \<and> (activate \<longrightarrow> live a v))) (\<lambda>_. safe)"
proof (rule owned.triple_tx_do)
  fix w assume o: "owns d (built a) w"
  then have b: "owned_row a (view d w)" "full a (view d w)" "dv_documents (view d w) \<noteq> []" "safe w" "w_locked w = Some d"
    by (auto simp: owns_def built_def present_def full_def)
  show "owns d (\<lambda>v. full a v \<and> (activate \<longrightarrow> live a v)) (w\<lparr>w_catalog := finish_index activate d a (w_clock w) (w_catalog w)\<rparr>)"
  proof (cases activate)
    case True
    show ?thesis
      using promote_safe [OF o b(1,2) refl, of "w_clock w" None] True b(3) by (simp add: finish_index_def Let_def owns_def)
  next
    case False
    let ?g = "\<lambda>r :: local_artifact. if art_id r = a then r\<lparr>art_state := ART_INDEX_READY,
            art_promoted := art_promoted r\<rparr> else r"
    have "safe (w\<lparr>w_catalog := set_artifact_ready a None (w_catalog w)\<rparr>)"
      by (rule safe_update [OF b(4), where g = ?g])
        (use b(4) in \<open>auto simp: set_artifact_ready_def update_where_def safe_def wf_def\<close>)
    with False b show ?thesis by (simp add: finish_index_def owns_def full_def view_def)
  qed
qed (rule owns_safe)

lemma owned_load: "triple (owns d Q) (load_embedder l) (\<lambda>_. owns d Q) (\<lambda>_. safe)"
  by (cases l) (auto simp: load_embedder_def intro: owned_raise owned_return)

lemma owned_reusable: "triple (owns d Q) (reusable_vectors r) (\<lambda>_. owns d Q) (\<lambda>_. safe)"
proof (cases r)
  case (Some a)
  have path: "triple (owns d Q) (artifact_path a) (\<lambda>_. owns d Q) (\<lambda>_. safe)"
    unfolding artifact_path_def
    by (rule triple_then [OF owned_read]) (auto intro: owned_raise owned_return split: option.splits)
  have "triple (owns d Q) (step_op (\<lambda>w. case map_of (w_artifacts w) p of
           None \<Rightarrow> (Inl (Raised (compute_exn CAPABILITY_UNAVAILABLE)), w)
         | Some db \<Rightarrow> (case reusable_from db of Inl e \<Rightarrow> (Inl (Raised e), w) | Inr x \<Rightarrow> (Inr x, w))))
      (\<lambda>_. owns d Q) (\<lambda>_. safe)" for p
    by (rule owned.triple_step) (auto split: option.splits sum.splits dest: owns_safe)
  then show ?thesis unfolding reusable_vectors_def Some option.case by (intro triple_then [OF path])
qed (simp add: reusable_vectors_def owned_return)

lemma owned_job_do:
  assumes "\<And>t c. cat_documents (f t c) = cat_documents c" and "\<And>t c. cat_artifacts (f t c) = cat_artifacts c"
  shows "triple (owns d Q) (tx_do f) (\<lambda>_. owns d Q) (\<lambda>_. safe)"
  by (rule safe_exit [OF owned_jobs]) (use assms in auto)

lemma run_index_triple:
  "triple (owns d (present a)) (run_index load b d jid pipeline a activate reuse)
     (\<lambda>_. owns d (\<lambda>v. full a v \<and> (activate \<longrightarrow> live a v))) (\<lambda>_. safe)"
proof -
  have fin: "triple (owns d (built a)) (case r of (n, old, new) \<Rightarrow>
               seq_op (tx_do (finish_index activate d a))
                 (seq_op (tx_do (update_job jid SUCCEEDED ''INDEX_READY'' 100 None))
                   (return_op \<lparr>ir_job = jid, ir_document = d, ir_artifact = a, ir_count = n,
                      ir_reused = old, ir_generated = new\<rparr>)))
      (\<lambda>_. owns d (\<lambda>v. full a v \<and> (activate \<longrightarrow> live a v))) (\<lambda>_. safe)" for r
    by (cases r) (simp, intro triple_seq [OF finish_index_triple] triple_seq [OF owned_job_do] owned_return, simp_all)
  have build: "triple (owns d (\<lambda>v. present a v \<and> p = (d, a)))
      (then_op (reusable_vectors reuse) (\<lambda>reusable. then_op (build_index jid pipeline b p e reusable) (\<lambda>(n, old, new).
               seq_op (tx_do (finish_index activate d a))
                 (seq_op (tx_do (update_job jid SUCCEEDED ''INDEX_READY'' 100 None))
                   (return_op \<lparr>ir_job = jid, ir_document = d, ir_artifact = a, ir_count = n,
                      ir_reused = old, ir_generated = new\<rparr>)))))
      (\<lambda>_. owns d (\<lambda>v. full a v \<and> (activate \<longrightarrow> live a v))) (\<lambda>_. safe)" for p e
    by (rule owns_fact) (simp only:, intro triple_then [OF owned_reusable] triple_then [OF build_index_full] fin)
  show ?thesis
    unfolding run_index_def
    by (intro triple_seq [OF owned_cancel_check] triple_seq [OF owned_job_step] triple_then [OF owned_load]
        triple_then [OF owned_path] build) (simp add: present_def)
qed

lemma run_index_artifact: "run_index load b d jid pipeline a activate reuse w = (Inr r, w') \<Longrightarrow> ir_artifact r = a"
  by (auto simp: run_index_def then_op_apply seq_op_apply split: prod.splits sum.splits)

text \<open>The exception handlers never endanger the gate, whatever state the run stopped in.\<close>

lemma unmark_safe:
  assumes "safe w" and "map_of (w_artifacts w) p = Some db"
  shows "safe (w\<lparr>w_artifacts := AList.update p (set_index_meta ''PREPARED_NOT_INDEXED'' db) (w_artifacts w)\<rparr>)"
  using write_artifact_safe [OF assms(1) set_index_meta_inv [OF file_inv [OF assms]], of "''PREPARED_NOT_INDEXED''" "snd p" "fst p"]
    assms(2) by simp

lemma unmark_keeps: "keeps safe (unmark_file a)"
  unfolding unmark_file_def artifact_path_def
proof (intro keeps_then gate.keeps_tx_get gate.keeps_step)
  fix p w assume "safe w"
  then show "safe (snd (case map_of (w_artifacts w) p of None \<Rightarrow> (Inr (), w)
     | Some db \<Rightarrow> (Inr (), w\<lparr>w_artifacts := AList.update p (set_index_meta ''PREPARED_NOT_INDEXED'' db) (w_artifacts w)\<rparr>)))"
    by (simp add: unmark_safe split: option.splits)
qed (auto simp: raise_code_def split: option.splits intro: keeps_raise keeps_return)

lemma keeps_raise_code [triple_intro]: "keeps P (raise_code c)"
  by (simp add: raise_code_def keeps_raise)

lemma restore_keeps: "keeps safe (restore_not_indexed a d code activate)"
  unfolding restore_not_indexed_def
  by (intro keeps_seq keeps_try unmark_keeps keeps_return keeps_when gate.keeps_tx_do set_document_state_safe) simp_all

lemma end_job_keeps: "keeps safe (end_job jid e)"
  unfolding end_job_def by (rule safe_jobs) simp_all

lemma index_failed_keeps: "keeps safe (index_failed jid d a activate x)"
  unfolding index_failed_def
  by (cases x) (simp_all add: keeps_seq restore_keeps end_job_keeps keeps_raise keeps_raise_code)

lemma raising: 
  assumes "keeps safe m" and "\<And>w. \<exists>e w'. m w = (Inl e, w')"
  shows "triple safe m Q (\<lambda>_. safe)"
  unfolding triple_def
proof (intro allI impI)
  fix w assume "safe w"
  obtain e w' where m: "m w = (Inl e, w')" using assms(2) by blast
  then have "safe w'" using keepsD [OF assms(1) \<open>safe w\<close>] by blast
  then show "case m w of (Inr x, t) \<Rightarrow> Q x t | (Inl e, t) \<Rightarrow> safe t" by (simp add: m)
qed

lemma seq_raises: "(\<And>w. \<exists>e w'. k w = (Inl e, w')) \<Longrightarrow> \<exists>e w'. seq_op m k w = (Inl e, w')"
  by (cases "m w"; cases "fst (m w)") (auto simp: seq_op_apply)

lemma index_failed_triple: "triple safe (index_failed jid d a activate x) Q (\<lambda>_. safe)"
proof (rule raising [OF index_failed_keeps])
  fix w show "\<exists>e w'. index_failed jid d a activate x w = (Inl e, w')"
    unfolding index_failed_def by (cases x) (simp_all add: seq_raises raise_code_def)
qed

lemma owned_new_uuid: "triple (owns d Q) new_uuid (\<lambda>_. owns d Q) (\<lambda>_. safe)"
  by (simp add: triple_def new_uuid_def owns_def)

lemma enqueue_skeleton_other:
  assumes "enqueue_skeleton op now i c = Some (k, c')"
  shows "cat_artifacts c' = cat_artifacts c" "cat_documents c' = cat_documents c"
  using assms by (auto simp: enqueue_skeleton_def insert_job_def split: if_splits)

lemma owned_index_job: "triple (owns d Q) (index_job d a job) (\<lambda>_. owns d Q) (\<lambda>_. safe)"
proof (cases job)
  case None
  have "triple (owns d Q) (tx (\<lambda>now c. case enqueue_skeleton index_document_op now u c of
             None \<Rightarrow> (None, c) | Some (k, c') \<Rightarrow> (Some k, c'))) (\<lambda>_. owns d Q) (\<lambda>_. safe)" for u
    by (rule owned.triple_tx)
      (auto split: option.splits prod.splits simp: owns_def safe_same view_same enqueue_skeleton_other)
  then show ?thesis unfolding index_job_def None option.case
    by (intro triple_then [OF owned_new_uuid] triple_then) (auto split: option.splits
        intro!: owned_raise triple_seq [OF owned_job_do] owned_return)
next
  case (Some k)
  have "triple (owns d Q) (if c then raise_code INVALID_REQUEST
      else seq_op (tx_do (attach_artifact k a)) (return_op k)) (\<lambda>_. owns d Q) (\<lambda>_. safe)" for c
    by (auto intro!: owned_raise triple_seq [OF owned_job_do] owned_return)
  then show ?thesis unfolding index_job_def Some option.case by (intro triple_then [OF owned_read])
qed

lemma owned_require:
  "triple (owns d Q) (require_artifact_owner a d) (\<lambda>_. owns d (\<lambda>v. Q v \<and> owned_row a v)) (\<lambda>_. safe)"
  unfolding require_artifact_owner_def
proof (rule triple_then)
  show "triple (owns d Q) (tx_get (\<lambda>c. list_ex (\<lambda>r. art_id r = a \<and> art_document r = d) (cat_artifacts c)))
      (\<lambda>ok. owns d (\<lambda>v. Q v \<and> (ok \<longrightarrow> owned_row a v))) (\<lambda>_. safe)"
    by (rule owned.triple_tx_get) (auto simp: owns_def owned_row_def view_def list_ex_iff)
qed (auto intro: owned_raise owned_return)

lemma owned_document:
  "triple (owns d Q) (tx_get (\<lambda>c. get_document c d))
     (\<lambda>x. owns d (\<lambda>v. Q v \<and> (x \<noteq> None \<longrightarrow> dv_documents v \<noteq> []))) (\<lambda>_. safe)"
  by (rule owned.triple_tx_get)
    (auto simp: owns_def view_def filter_empty_conv dest: get_document_SomeD)

lemma set_state_row:
  "x \<in> set (cat_documents (set_document_state d st err now c)) \<Longrightarrow> doc_id x = d \<longrightarrow> doc_state x = st"
proof
  assume "x \<in> set (cat_documents (set_document_state d st err now c))" and d: "doc_id x = d"
  let ?f = "\<lambda>x. x\<lparr>doc_state := st, doc_error := err, doc_updated := now\<rparr>"
  have "x \<in> set (update_where (\<lambda>x. doc_id x = d) ?f (cat_documents c))"
    using \<open>x \<in> _\<close> by (simp add: set_document_state_def update_document_def)
  then obtain y where y: "x = (if doc_id y = d then ?f y else y)"
    unfolding set_update_where by (rule imageE)
  show "doc_state x = st" using d unfolding y by (cases "doc_id y = d") simp_all
qed

text \<open>Closing the gate of the document makes every artifact of it quiet.\<close>

lemma close_triple:
  "triple (owns d (\<lambda>v. owned_row a v \<and> dv_documents v \<noteq> [] \<and> (activate \<or> quiet a v)))
     (when_op activate (tx_do (set_document_state d DOC_INDEXING None))) (\<lambda>_. owns d (present a)) (\<lambda>_. safe)"
proof (cases activate)
  case True
  have "triple (owns d (\<lambda>v. owned_row a v \<and> dv_documents v \<noteq> [])) (tx_do (set_document_state d DOC_INDEXING None))
      (\<lambda>_. owns d (present a)) (\<lambda>_. safe)"
  proof (rule owned.triple_tx_do)
    fix w assume o: "owns d (\<lambda>v. owned_row a v \<and> dv_documents v \<noteq> []) w"
    let ?c = "set_document_state d DOC_INDEXING None (w_clock w) (w_catalog w)"
    have "dv_documents (view d (w\<lparr>w_catalog := ?c\<rparr>)) \<noteq> []"
      using o by (simp add: owns_def view_def filter_key_nonempty del: set_map)
    moreover have "quiet a (view d (w\<lparr>w_catalog := ?c\<rparr>))"
      by (auto simp: quiet_def view_def dest!: set_state_row)
    moreover have "owned_row a (view d (w\<lparr>w_catalog := ?c\<rparr>))"
      using o by (simp add: owns_def owned_row_def view_def set_document_state_def update_document_def)
    ultimately show "owns d (present a) (w\<lparr>w_catalog := ?c\<rparr>)"
      using o by (simp add: owns_def present_def set_document_state_safe)
  qed (rule owns_safe)
  with True show ?thesis by (simp add: when_op_def)
next
  case False
  then show ?thesis by (simp add: when_op_def present_def owned_return)
qed

lemma chosen_quiet:
  assumes "chosen_artifact art x = Some a" and "activate \<or> (\<exists>a. art = Some a \<and> a \<noteq> [] \<and> quiet a v)"
  shows "activate \<or> quiet a v"
  using assms by (auto simp: chosen_artifact_def Let_def split: if_splits)

lemma index_locked_triple:
  "triple (owns d (\<lambda>v. activate \<or> (\<exists>a. art = Some a \<and> a \<noteq> [] \<and> quiet a v)))
     (index_document_locked load b d job art activate reuse)
     (\<lambda>r. owns d (\<lambda>v. full (ir_artifact r) v \<and> (activate \<longrightarrow> live (ir_artifact r) v))) (\<lambda>_. safe)"
proof -
  let ?P = "\<lambda>v. activate \<or> (\<exists>a. art = Some a \<and> a \<noteq> [] \<and> quiet a v)"
  let ?R = "\<lambda>r. owns d (\<lambda>v. full (ir_artifact r) v \<and> (activate \<longrightarrow> live (ir_artifact r) v))"
  have reuse: "triple (owns d Q) (case reuse of None \<Rightarrow> return_op () | Some r \<Rightarrow> require_artifact_owner r d)
      (\<lambda>_. owns d Q) (\<lambda>_. safe)" for Q
    by (cases reuse) (auto intro: owned_return triple_weaken [OF owned_require] simp: owns_def)
  have run: "triple (owns d (present a)) (try_except (run_index load b d jid pipeline a activate reuse) (index_failed jid d a activate))
      ?R (\<lambda>_. safe)" for jid pipeline a
  proof (rule triple_try)
    have "triple (owns d (present a)) (run_index load b d jid pipeline a activate reuse)
      (\<lambda>r. owns d (\<lambda>v. full a v \<and> (activate \<longrightarrow> live a v) \<and> ir_artifact r = a)) (\<lambda>_. safe)"
      using run_index_artifact run_index_triple
      by (fastforce simp: triple_def owns_def split: prod.splits sum.splits)
    then show "triple (owns d (present a)) (run_index load b d jid pipeline a activate reuse) ?R (\<lambda>_. safe)"
      by (rule triple_weaken) (auto simp: owns_def)
  qed (auto intro: index_failed_triple)
  have body: "triple (owns d (\<lambda>v. ?P v \<and> dv_documents v \<noteq> []))
     (seq_op (require_artifact_owner a d)
             (seq_op (case reuse of None \<Rightarrow> return_op () | Some r \<Rightarrow> require_artifact_owner r d)
               (then_op (index_job d a job) (\<lambda>jid.
                 seq_op (when_op activate (tx_do (set_document_state d DOC_INDEXING None)))
                   (try_except (run_index load b d jid (job \<noteq> None) a activate reuse)
                     (index_failed jid d a activate))))))
     ?R (\<lambda>_. safe)" if a: "chosen_artifact art x = Some a" for x a
    by (intro triple_seq [OF owned_require] triple_seq [OF reuse] triple_then [OF owned_index_job]
        triple_seq [OF owns_pre [OF close_triple]] run) (use chosen_quiet [OF a] in \<open>auto intro: run\<close>)
  show ?thesis
    unfolding index_document_locked_def
  proof (rule triple_then [OF owned_document])
    fix doc
    show "triple (owns d (\<lambda>v. ?P v \<and> (doc \<noteq> None \<longrightarrow> dv_documents v \<noteq> []))) (case doc of
       None \<Rightarrow> raise_code DOCUMENT_NOT_FOUND
     | Some x \<Rightarrow>
         if doc_state x \<notin> {DOC_PREPARED_NOT_INDEXED, DOC_INDEX_READY} then raise_code CAPABILITY_UNAVAILABLE
         else (case chosen_artifact art x of
           None \<Rightarrow> raise_code CAPABILITY_UNAVAILABLE
         | Some a \<Rightarrow> seq_op (require_artifact_owner a d)
             (seq_op (case reuse of None \<Rightarrow> return_op () | Some r \<Rightarrow> require_artifact_owner r d)
               (then_op (index_job d a job) (\<lambda>jid.
                 seq_op (when_op activate (tx_do (set_document_state d DOC_INDEXING None)))
                   (try_except (run_index load b d jid (job \<noteq> None) a activate reuse)
                     (index_failed jid d a activate))))))) ?R (\<lambda>_. safe)"
    proof (cases doc)
      case (Some x)
      show ?thesis
      proof (cases "chosen_artifact art x")
        case None
        then show ?thesis by (simp add: Some owned_raise)
      next
        case ca: (Some a)
        show ?thesis
        proof (cases "doc_state x \<notin> {DOC_PREPARED_NOT_INDEXED, DOC_INDEX_READY}")
          case True
          then show ?thesis by (simp add: Some owned_raise)
        next
          case False
          have "doc \<noteq> None" by (simp add: Some)
          then show ?thesis
            unfolding Some option.case ca if_not_P [OF False] by (intro owns_pre [OF body [OF ca]]) auto
        qed
      qed
    qed (simp add: owned_raise)
  qed
qed

lemma activate_keeps: "keeps safe (activate_indexed_artifact d a)"
proof (rule triple_keeps)
  have final: "triple (owns d (\<lambda>v. owned_row a v \<and> full a v)) (tx_do (\<lambda>now c. make_document_ready d a now (set_artifact_ready a (Some now) c)))
      (\<lambda>_. owns d (\<lambda>_. True)) (\<lambda>_. safe)"
  proof (rule owned.triple_tx_do)
    fix w assume o: "owns d (\<lambda>v. owned_row a v \<and> full a v) w"
    then have "owned_row a (view d w)" "full a (view d w)" by (simp_all add: owns_def)
    from owns_mono [OF promote_safe [OF o this refl]]
    show "owns d (\<lambda>_. True) (w\<lparr>w_catalog := make_document_ready d a (w_clock w)
        (set_artifact_ready a (Some (w_clock w)) (w_catalog w))\<rparr>)" by simp
  qed (rule owns_safe)
  have check: "triple (owns d (\<lambda>v. owned_row a v \<and> p = (d, a))) (then_op (db_read p index_meta) (\<lambda>s.
         if s \<noteq> Some ''INDEX_READY'' then raise_code CAPABILITY_UNAVAILABLE
         else tx_do (\<lambda>now c. make_document_ready d a now (set_artifact_ready a (Some now) c))))
      (\<lambda>_. owns d (\<lambda>_. True)) (\<lambda>_. safe)" for p
  proof (rule owns_fact, simp only:, rule triple_then)
    show "triple (owns d (owned_row a)) (db_read (d, a) index_meta)
        (\<lambda>s. owns d (\<lambda>v. owned_row a v \<and> (s = Some ''INDEX_READY'' \<longrightarrow> full a v))) (\<lambda>_. safe)"
      by (rule owned_db_read) (auto simp: full_def db_inv_def)
  qed (auto intro: owned_raise owns_pre [OF final])
  have row: "triple (owns d (\<lambda>_. True)) (require_artifact_owner a d) (\<lambda>_. owns d (owned_row a)) (\<lambda>_. safe)"
    by (rule triple_weaken [OF owned_require]) (auto simp: owns_def)
  have "triple safe (activate_indexed_artifact d a) (\<lambda>_ w. safe w \<and> (\<lambda>_ _. True) () (view d w)) (\<lambda>_. safe)"
    unfolding activate_indexed_artifact_def
    by (rule with_lock_triple [OF triple_seq [OF row triple_then [OF owned_path check]]])
  then show "triple safe (activate_indexed_artifact d a) (\<lambda>_. safe) (\<lambda>_. safe)"
    by (rule triple_weaken) auto
qed

lemma index_document_triple:
  "triple safe (index_document load b d job art True reuse)
     (\<lambda>r w. safe w \<and> full (ir_artifact r) (view d w) \<and> live (ir_artifact r) (view d w)) (\<lambda>_. safe)"
  unfolding index_document_def
  by (rule triple_weaken [OF with_lock_triple [where Q = "\<lambda>r v. full (ir_artifact r) v \<and> live (ir_artifact r) v"]])
    (use index_locked_triple [of d True] in simp_all)

lemma live_queryable:
  assumes "safe w" and "live a (view d w)"
  shows "\<exists>x. get_document (w_catalog w) d = Some x \<and> doc_state x = DOC_INDEX_READY \<and> doc_artifact x = Some a \<and> queryable w x"
proof -
  obtain x where x: "x \<in> set (cat_documents (w_catalog w))" "doc_id x = d"
    using assms(2) by (auto simp: live_def view_def filter_empty_conv)
  then have "doc_state x = DOC_INDEX_READY" "doc_artifact x = Some a"
    using assms(2) by (auto simp: live_def view_def)
  moreover have "get_document (w_catalog w) d = Some x"
    using x assms(1) unfolding get_document_def by (subst find_key_iff) (auto simp: safe_def wf_def)
  ultimately show ?thesis using assms(1) x by (auto simp: safe_def gate_def)
qed

text \<open>
  C9. The gate of the index service. Whatever the schedule of failures, process deaths and actions of
  other threads, indexing a document leaves every document that is marked \<open>INDEX_READY\<close> with a
  complete index; and when the call returns, the document itself is ready and its active artifact has
  exactly one valid embedding and one lexical row for each of its chunks.
\<close>

theorem index_document_sound:
  assumes "safe w" and "index_document load b d job art True reuse w = (r, w')"
  shows "safe w' \<and> (case r of
      Inl _ \<Rightarrow> True
    | Inr res \<Rightarrow> \<exists>x. get_document (w_catalog w') d = Some x \<and> doc_state x = DOC_INDEX_READY
        \<and> doc_artifact x = Some (ir_artifact res) \<and> queryable w' x)"
  using tripleD [OF index_document_triple assms] by (auto intro: live_queryable split: sum.splits)

section \<open>A concrete run\<close>

definition unit_vector :: vector where "unit_vector = Some 1 # replicate 767 (Some 0)"

lemma unit_vector_valid: "valid_vector unit_vector"
  by (simp add: valid_vector_def unit_vector_def embedding_dimension_def square_norm_def sum_list_replicate power2_eq_square)

definition sample_chunk_row :: chunk_row where
  "sample_chunk_row = \<lparr>cr_id = ''c1'', cr_document = ''d1'', cr_unit = ''u1'', cr_index = 0,
     cr_content = [65], cr_embedding = [65], cr_tokens = 3, cr_page_start = 1, cr_page_end = 1,
     cr_char_start = 0, cr_char_end = 1\<rparr>"

definition sample_db :: artifact_db where
  "sample_db = \<lparr>ad_schema = [1], ad_metadata = [], ad_pages = [], ad_text = [65], ad_offsets = [], ad_units = [],
     ad_chunks = [sample_chunk_row], ad_embeddings = [], ad_fts = [], ad_index_tables = False\<rparr>"

definition sample_document :: local_document where
  "sample_document = \<lparr>doc_id = ''d1'', doc_sha256 = ''s'', doc_filename = [97], doc_mime = ''application/pdf'',
     doc_size = 1, doc_source_path = source_path ''d1'', doc_state = DOC_PREPARED_NOT_INDEXED,
     doc_artifact = Some ''a1'', doc_error = None, doc_created = 1, doc_updated = 1\<rparr>"

definition sample_artifact :: local_artifact where
  "sample_artifact = \<lparr>art_id = ''a1'', art_document = ''d1'', art_profile_id = ''zkd-local-artifact-v1'',
     art_fingerprint = ''f'', art_path = (''d1'', ''a1''), art_state = ART_PREPARED_NOT_INDEXED,
     art_integrity = None, art_page_count = 1, art_chunk_count = 1, art_created = 1, art_promoted = None\<rparr>"

definition sample_world :: world where
  "sample_world = \<lparr>w_catalog = empty_catalog\<lparr>cat_documents := [sample_document], cat_artifacts := [sample_artifact]\<rparr>,
     w_sources = [], w_staging = [], w_artifacts = [((''d1'', ''a1''), sample_db)], w_clock = 5,
     w_uuid = (\<lambda>n. replicate (Suc n) CHR ''j''), w_next = 0, w_locked = None, w_schedule = []\<rparr>"

definition sample_embedder :: embedder where
  "sample_embedder = \<lparr>eb_model = ''m'', eb_contract = \<lparr>ec_tokenizer = \<lparr>tk_count = int \<circ> length, tk_offsets = (\<lambda>_. [])\<rparr>, ec_max_tokens = 512\<rparr>,
     eb_encode = (\<lambda>xs. Inr (map (\<lambda>_. unit_vector) xs))\<rparr>"

lemma sample_safe: "safe sample_world"
  by (simp add: safe_def wf_def gate_def sample_world_def sample_document_def sample_artifact_def sample_db_def
      db_inv_def embedded_def index_meta_def empty_catalog_def)

text \<open>The definitions that evaluate a run by the simplifier.\<close>

lemmas run_defs = index_document_def with_lock_def index_document_locked_def tx_get_def tx_def tx_do_def step_op_def boundary_def
  seq_op_apply then_op_apply index_job_def when_op_def try_except_def catch_op_apply run_index_def cancel_if_requested_def
  require_artifact_owner_def chosen_artifact_def new_uuid_def update_index_job_def load_embedder_def artifact_path_def reusable_vectors_def
  build_index_def db_read_def db_tx_def initialize_index_tables_def

lemma sample_index: "\<exists>r w'. index_document (Inr sample_embedder) 32 ''d1'' None None True None sample_world = (Inr r, w')"
  by (simp add: run_defs sample_world_def get_document_def sample_document_def sample_artifact_def empty_catalog_def
    enqueue_skeleton_def insert_job_def update_jobs_def is_cancel_requested_def get_job_def get_artifact_def set_document_state_def update_document_def
    update_job_def sample_db_def index_loop.simps
    next_rows_def sample_chunk_row_def lift_result_def batch_vectors_def rows_to_embed_def generate_vectors_def encode_batch_def
    sample_embedder_def fits_def count_final_tokens_def passage_prefix_def insert_batch_def insert_embedding_def
    validate_index_def index_valid_def valid_row_def unit_vector_valid set_index_meta_def embedded_def finish_index_def Let_def
    embedding_dimension_def)

theorem index_document_sound_witness:
  "\<exists>r w' x. index_document (Inr sample_embedder) 32 ''d1'' None None True None sample_world = (Inr r, w')
     \<and> get_document (w_catalog w') ''d1'' = Some x \<and> doc_state x = DOC_INDEX_READY \<and> queryable w' x"
proof -
  obtain r w' where run: "index_document (Inr sample_embedder) 32 ''d1'' None None True None sample_world = (Inr r, w')"
    using sample_index by blast
  from index_document_sound [OF sample_safe this] run show ?thesis by auto
qed

end
