(* ===== verification/PyRegex.thy ===== *)
theory PyRegex
  imports PyText
begin

text \<open>
  The part of Python's \<open>re\<close> that the program uses, as a backtracking matcher. A pattern is matched at a position of
  the whole text and gives all ways to match, in the order in which \<open>re\<close> tries them (left branch first, a greedy
  repetition long to short, a lazy one short to long); \<open>re.match\<close> takes the first one, \<open>re.search\<close> the first one
  at the first position that has one. Repetitions stop at an empty iteration, so the length of the text
  bounds them.
\<close>

section \<open>Patterns and matching\<close>

datatype rx =
    Rx_Empty
  | Rx_Char "codepoint \<Rightarrow> bool"
  | Rx_Seq rx rx
  | Rx_Alt rx rx
  | Rx_Star bool rx
  | Rx_Group nat rx
  | Rx_Assert "codepoint option \<Rightarrow> codepoint option \<Rightarrow> bool"

type_synonym rx_groups = "(nat \<times> nat \<times> nat) list"
type_synonym rx_state = "nat \<times> rx_groups"

fun iterate :: "nat \<Rightarrow> bool \<Rightarrow> (rx_state \<Rightarrow> rx_state list) \<Rightarrow> rx_state \<Rightarrow> rx_state list" where
  "iterate 0 greedy step s = [s]"
| "iterate (Suc k) greedy step s =
     (let more = concat (map (iterate k greedy step) (filter (\<lambda>t. fst s < fst t) (step s)))
      in if greedy then more @ [s] else s # more)"

definition char_at :: "pytext \<Rightarrow> nat \<Rightarrow> codepoint option" where
  "char_at t i = (if i < length t then Some (t ! i) else None)"

definition char_before :: "pytext \<Rightarrow> nat \<Rightarrow> codepoint option" where
  "char_before t i = (case i of 0 \<Rightarrow> None | Suc j \<Rightarrow> char_at t j)"

primrec rx_run :: "rx \<Rightarrow> pytext \<Rightarrow> rx_state \<Rightarrow> rx_state list" where
  "rx_run Rx_Empty t s = [s]"
| "rx_run (Rx_Char p) t s = (case char_at t (fst s) of None \<Rightarrow> []
     | Some c \<Rightarrow> if p c then [(Suc (fst s), snd s)] else [])"
| "rx_run (Rx_Seq a b) t s = concat (map (rx_run b t) (rx_run a t s))"
| "rx_run (Rx_Alt a b) t s = rx_run a t s @ rx_run b t s"
| "rx_run (Rx_Star greedy a) t s = iterate (length t - fst s) greedy (rx_run a t) s"
| "rx_run (Rx_Group k a) t s = map (\<lambda>r. (fst r, (k, fst s, fst r) # snd r)) (rx_run a t s)"
| "rx_run (Rx_Assert p) t s = (if p (char_before t (fst s)) (char_at t (fst s)) then [s] else [])"

definition rx_match_at :: "rx \<Rightarrow> pytext \<Rightarrow> nat \<Rightarrow> rx_state option" where
  "rx_match_at r t i = (case rx_run r t (i, []) of [] \<Rightarrow> None | s # _ \<Rightarrow> Some s)"

abbreviation rx_match :: "rx \<Rightarrow> pytext \<Rightarrow> rx_state option" where
  "rx_match r t \<equiv> rx_match_at r t 0"

fun rx_search_from :: "rx \<Rightarrow> pytext \<Rightarrow> nat list \<Rightarrow> (nat \<times> rx_state) option" where
  "rx_search_from r t [] = None"
| "rx_search_from r t (i # is) = (case rx_match_at r t i of Some s \<Rightarrow> Some (i, s) | None \<Rightarrow> rx_search_from r t is)"

definition rx_search :: "rx \<Rightarrow> pytext \<Rightarrow> (nat \<times> rx_state) option" where
  "rx_search r t = rx_search_from r t [0..<Suc (length t)]"

text \<open>\<open>m.group(k)\<close>, of a group that took part in the match.\<close>

definition rx_group :: "pytext \<Rightarrow> rx_state \<Rightarrow> nat \<Rightarrow> pytext" where
  "rx_group t s k = (case map_of (snd s) k of None \<Rightarrow> [] | Some (a, b) \<Rightarrow> take (b - a) (drop a t))"

section \<open>Derived patterns\<close>

abbreviation rx_opt :: "rx \<Rightarrow> rx" where
  "rx_opt r \<equiv> Rx_Alt r Rx_Empty"

abbreviation rx_many :: "rx \<Rightarrow> rx" where
  "rx_many r \<equiv> Rx_Star True r"

abbreviation rx_some :: "rx \<Rightarrow> rx" where
  "rx_some r \<equiv> Rx_Seq r (Rx_Star True r)"

definition rx_seq :: "rx list \<Rightarrow> rx" where
  "rx_seq rs = foldr Rx_Seq rs Rx_Empty"

definition rx_literal :: "pytext \<Rightarrow> rx" where
  "rx_literal cs = rx_seq (map (\<lambda>c. Rx_Char ((=) c)) cs)"

definition rx_literal_by :: "(codepoint \<Rightarrow> codepoint \<Rightarrow> bool) \<Rightarrow> pytext \<Rightarrow> rx" where
  "rx_literal_by same cs = rx_seq (map (\<lambda>c. Rx_Char (same c)) cs)"

text \<open>\<open>\<s>\<close>, \<open>.\<close> and \<open>$\<close> on a text without a line break at its end, \<open>\<b>\<close>, and a class or the end ahead.\<close>

abbreviation rx_space :: rx where
  "rx_space \<equiv> Rx_Char py_space"

abbreviation rx_dot :: rx where
  "rx_dot \<equiv> Rx_Char (\<lambda>c. c \<noteq> 10)"

abbreviation rx_end :: rx where
  "rx_end \<equiv> Rx_Assert (\<lambda>_ b. b = None)"

definition holds_at :: "(codepoint \<Rightarrow> bool) \<Rightarrow> codepoint option \<Rightarrow> bool" where
  "holds_at p c = (case c of None \<Rightarrow> False | Some x \<Rightarrow> p x)"

definition rx_word_boundary :: "(codepoint \<Rightarrow> bool) \<Rightarrow> rx" where
  "rx_word_boundary word = Rx_Assert (\<lambda>a b. holds_at word a \<noteq> holds_at word b)"

definition rx_ahead_or_end :: "(codepoint \<Rightarrow> bool) \<Rightarrow> rx" where
  "rx_ahead_or_end p = Rx_Assert (\<lambda>_ b. case b of None \<Rightarrow> True | Some c \<Rightarrow> p c)"

definition rx_not_behind :: "(codepoint \<Rightarrow> bool) \<Rightarrow> rx" where
  "rx_not_behind p = Rx_Assert (\<lambda>a _. case a of None \<Rightarrow> True | Some c \<Rightarrow> \<not> p c)"

section \<open>Bounds of a match\<close>

text \<open>The reached position and every captured span lie in the text, behind the start.\<close>

definition rx_in :: "pytext \<Rightarrow> nat \<Rightarrow> rx_state \<Rightarrow> bool" where
  "rx_in t i s \<longleftrightarrow> i \<le> fst s \<and> fst s \<le> length t \<and> (\<forall>(k, a, b) \<in> set (snd s). i \<le> a \<and> a \<le> b \<and> b \<le> length t)"

lemma iterate_keeps:
  assumes step: "\<And>s r. P s \<Longrightarrow> r \<in> set (step s) \<Longrightarrow> P r" and "P s" and "r \<in> set (iterate k greedy step s)"
  shows "P r"
  using assms(2,3)
proof (induction k arbitrary: s)
  case (Suc k)
  from Suc.prems(2) consider "r = s"
    | u where "u \<in> set (step s)" "r \<in> set (iterate k greedy step u)"
    by (auto simp: Let_def split: if_splits)
  then show ?case
  proof cases
    case 2
    then show ?thesis using Suc.IH step Suc.prems(1) by blast
  qed (use Suc.prems in simp)
qed simp

lemma rx_run_pos:
  "i \<le> fst s \<and> fst s \<le> length t \<Longrightarrow> r \<in> set (rx_run p t s) \<Longrightarrow> i \<le> fst r \<and> fst r \<le> length t"
proof (induction p arbitrary: s r)
  case (Rx_Seq a b)
  from Rx_Seq.prems(2) obtain u where "u \<in> set (rx_run a t s)" "r \<in> set (rx_run b t u)" by auto
  with Rx_Seq.IH Rx_Seq.prems(1) show ?case by blast
next
  case (Rx_Star g a)
  have r: "r \<in> set (iterate (length t - fst s) g (rx_run a t) s)" using Rx_Star.prems(2) by simp
  show ?case
    by (rule iterate_keeps [where P = "\<lambda>s. i \<le> fst s \<and> fst s \<le> length t", OF _ Rx_Star.prems(1) r]) (rule Rx_Star.IH)
next
  case (Rx_Char q)
  then show ?case by (simp add: char_at_def split: option.splits if_splits)
next
  case (Rx_Group k a)
  from Rx_Group.prems(2) obtain q where "q \<in> set (rx_run a t s)" "fst r = fst q" by auto
  with Rx_Group.IH Rx_Group.prems(1) show ?case by metis
next
  case (Rx_Alt a b)
  from Rx_Alt.prems(2) consider "r \<in> set (rx_run a t s)" | "r \<in> set (rx_run b t s)" by auto
  then show ?case
  proof cases
    case 1
    with Rx_Alt.IH(1) Rx_Alt.prems(1) show ?thesis by blast
  next
    case 2
    with Rx_Alt.IH(2) Rx_Alt.prems(1) show ?thesis by blast
  qed
next
  case (Rx_Assert q)
  then have "r = s" by (cases "q (char_before t (fst s)) (char_at t (fst s))") simp_all
  with Rx_Assert.prems(1) show ?case by simp
qed simp_all

lemma rx_run_in: "rx_in t i s \<Longrightarrow> r \<in> set (rx_run p t s) \<Longrightarrow> rx_in t i r"
proof (induction p arbitrary: s r)
  case (Rx_Seq a b)
  from Rx_Seq.prems(2) obtain u where "u \<in> set (rx_run a t s)" "r \<in> set (rx_run b t u)" by auto
  with Rx_Seq.IH Rx_Seq.prems(1) show ?case by blast
next
  case (Rx_Star g a)
  have r: "r \<in> set (iterate (length t - fst s) g (rx_run a t) s)" using Rx_Star.prems(2) by simp
  show ?case
    by (rule iterate_keeps [where P = "rx_in t i", OF _ Rx_Star.prems(1) r]) (rule Rx_Star.IH)
next
  case (Rx_Group k a)
  then obtain q where q: "q \<in> set (rx_run a t s)" "r = (fst q, (k, fst s, fst q) # snd q)" by auto
  then have "rx_in t i q" using Rx_Group by blast
  moreover have "fst s \<le> fst q" using rx_run_pos [OF _ q(1), of "fst s"] Rx_Group.prems(1) by (simp add: rx_in_def)
  ultimately show ?case using q(2) Rx_Group.prems(1) by (simp add: rx_in_def)
next
  case (Rx_Char q)
  then show ?case by (simp add: char_at_def rx_in_def split: option.splits if_splits)
next
  case (Rx_Alt a b)
  from Rx_Alt.prems(2) consider "r \<in> set (rx_run a t s)" | "r \<in> set (rx_run b t s)" by auto
  then show ?case
  proof cases
    case 1
    with Rx_Alt.IH(1) Rx_Alt.prems(1) show ?thesis by blast
  next
    case 2
    with Rx_Alt.IH(2) Rx_Alt.prems(1) show ?thesis by blast
  qed
next
  case (Rx_Assert q)
  then have "r = s" by (cases "q (char_before t (fst s)) (char_at t (fst s))") simp_all
  with Rx_Assert.prems(1) show ?case by simp
qed simp_all

lemma rx_match_in: "rx_match_at p t i = Some s \<Longrightarrow> i \<le> length t \<Longrightarrow> rx_in t i s"
  unfolding rx_match_at_def
  by (rule rx_run_in [of t i "(i, [])" _ p]) (auto simp: rx_in_def split: list.splits)

lemma rx_search_from_Some:
  "rx_search_from p t is = Some (i, s) \<Longrightarrow> i \<in> set is \<and> rx_match_at p t i = Some s"
  by (induction "is") (simp_all split: option.splits)

lemma rx_search_in:
  assumes "rx_search p t = Some (i, s)"
  shows "i \<le> length t" "rx_match_at p t i = Some s" "rx_in t i s"
proof -
  have m: "i \<in> set [0..<Suc (length t)]" "rx_match_at p t i = Some s"
    using rx_search_from_Some [of p t "[0..<Suc (length t)]"] assms unfolding rx_search_def by blast+
  then show "i \<le> length t" "rx_match_at p t i = Some s" by auto
  then show "rx_in t i s" by (rule rx_match_in [rotated])
qed

lemma set_rx_group: "set (rx_group t s k) \<subseteq> set t"
  by (auto simp: rx_group_def dest: in_set_takeD in_set_dropD split: option.splits)

text \<open>No fuel is missing: one more iteration than the text has room for adds nothing.\<close>

lemma iterate_enough:
  assumes "\<And>s r. r \<in> set (step s) \<Longrightarrow> fst r \<le> n" and "n - fst s \<le> k"
  shows "iterate (Suc k) greedy step s = iterate k greedy step s"
  using assms(2)
proof (induction k arbitrary: s)
  case 0
  then have "\<not> fst s < fst r" if "r \<in> set (step s)" for r using assms(1) [OF that] 0 by simp
  then have "filter (\<lambda>t. fst s < fst t) (step s) = []" by (simp add: filter_empty_conv)
  then show ?case by simp
next
  case (Suc k)
  have "iterate (Suc k) greedy step r = iterate k greedy step r"
    if "r \<in> set (filter (\<lambda>t. fst s < fst t) (step s))" for r
    using that Suc.prems by (intro Suc.IH) auto
  then have "map (iterate (Suc k) greedy step) (filter (\<lambda>t. fst s < fst t) (step s))
      = map (iterate k greedy step) (filter (\<lambda>t. fst s < fst t) (step s))" by (rule map_cong [OF refl])
  then show ?case by (metis iterate.simps(2))
qed

end
