(* ===== verification/Parser.thy ===== *)
theory Parser
  imports Chunker Reconstruction PyRegex
begin

text \<open>
  The legal parser (\<open>app/processing/parser.py\<close>): it reads the normalised text line by line and builds the tree of
  legal units. The objects on the parser's stack are frames, the top first; a frame holds its closed
  children, and an open child is the frame anc it. The dict of the next category number, keyed by the
  identity of an appendix object, is a field of its frame. \<open>None\<close> is the \<open>ValueError\<close> of \<open>int\<close> on more than
  4300 digits.
\<close>

section \<open>The stack\<close>

record frame =
  fr_type :: string
  fr_number :: pytext
  fr_title :: pytext
  fr_start :: int
  fr_level :: int
  fr_children :: "legal_unit list"
  fr_next :: "nat option"

definition hierarchy_levels :: "(string \<times> int) list" where
  "hierarchy_levels = [(''PREAMBLE'', 0), (''PART'', 1), (''APPENDIX'', 2), (''CHAPTER'', 2), (''SECTION'', 3),
     (''TABLE_CATEGORY'', 4), (''ARTICLE'', 4), (''CLAUSE'', 5), (''POINT'', 6)]"

definition level_of :: "string \<Rightarrow> int" where
  "level_of ty = the (map_of hierarchy_levels ty)"

definition new_frame :: "string \<Rightarrow> pytext \<Rightarrow> pytext \<Rightarrow> int \<Rightarrow> int \<Rightarrow> frame" where
  "new_frame ty number title start lv = \<lparr>fr_type = ty, fr_number = number, fr_title = title, fr_start = start,
     fr_level = lv, fr_children = [], fr_next = None\<rparr>"

definition close_frame :: "int \<Rightarrow> frame \<Rightarrow> legal_unit" where
  "close_frame e f = Legal_Unit (fr_type f) (fr_number f) (fr_title f) (fr_start f) e (fr_level f) (fr_children f)"

text \<open>\<open>stack.pop()\<close> with \<open>end_char = e\<close>.\<close>

fun pop_frame :: "int \<Rightarrow> frame list \<Rightarrow> frame list" where
  "pop_frame e (f # g # st) = g\<lparr>fr_children := fr_children g @ [close_frame e f]\<rparr> # st"
| "pop_frame e st = []"

lemma length_pop_frame: "st \<noteq> [] \<Longrightarrow> length (pop_frame e st) < length st"
  by (cases "(e, st)" rule: pop_frame.cases) auto

function close_to :: "int \<Rightarrow> int \<Rightarrow> frame list \<Rightarrow> frame list" where
  "close_to lv e st = (if st \<noteq> [] \<and> lv \<le> fr_level (hd st) then close_to lv e (pop_frame e st) else st)"
  by pat_completeness auto
termination
  by (relation "measure (\<lambda>(lv, e, st). length st)") (auto simp: length_pop_frame)

declare close_to.simps [simp del]

text \<open>\<open>_add_unit\<close>: the root is never closed, its level is below every level of the table.\<close>

definition add_unit :: "string \<Rightarrow> pytext \<Rightarrow> pytext \<Rightarrow> int \<Rightarrow> frame list \<Rightarrow> frame list" where
  "add_unit ty number title start st = (let st1 = close_to (level_of ty) (start - 1) st;
     st2 = (if fr_type (hd st1) = ''PREAMBLE'' then pop_frame (start - 1) st1 else st1)
     in new_frame ty number title start (level_of ty) # st2)"

section \<open>Titles\<close>

definition in_chars :: "codepoint list \<Rightarrow> codepoint \<Rightarrow> bool" where
  "in_chars cs c \<longleftrightarrow> c \<in> set cs"

fun contains_text :: "pytext \<Rightarrow> pytext \<Rightarrow> bool" where
  "contains_text p [] \<longleftrightarrow> p = []"
| "contains_text p (c # cs) \<longleftrightarrow> starts_with p (c # cs) \<or> contains_text p cs"

abbreviation rx_digit :: "unicode_tables \<Rightarrow> rx" where
  "rx_digit u \<equiv> Rx_Char (uc_digit u)"

text \<open>\<open>\b\d{1,2}:\d{2}(?::\d{2})?\b\<close>.\<close>

definition timestamp_rx :: "unicode_tables \<Rightarrow> rx" where
  "timestamp_rx u = rx_seq [rx_word_boundary (uc_word u), rx_digit u, rx_opt (rx_digit u), Rx_Char ((=) 58),
     rx_digit u, rx_digit u, rx_opt (rx_seq [Rx_Char ((=) 58), rx_digit u, rx_digit u]), rx_word_boundary (uc_word u)]"

definition valid_heading_title :: "unicode_tables \<Rightarrow> pytext \<Rightarrow> bool" where
  "valid_heading_title u v \<longleftrightarrow> v \<noteq> [] \<and> length v \<le> 400 \<and> rx_search (timestamp_rx u) v = None
     \<and> list_ex (uc_alpha u) v"

section \<open>Headings\<close>

text \<open>
  The patterns. \<open>[.:-\<emdash>]\<close> in the lookahead is the full stop and the range from the colon to the em dash, not the
  four characters; \<open>(?i:...)\<close> ignores case.
\<close>

definition ascii_digit :: "codepoint \<Rightarrow> bool" where
  "ascii_digit c \<longleftrightarrow> 48 \<le> c \<and> c \<le> 57"

definition roman :: "codepoint \<Rightarrow> bool" where
  "roman = in_chars (ascii ''IVXLCDM'')"

definition viet_word :: "unicode_tables \<Rightarrow> codepoint \<Rightarrow> bool" where
  "viet_word u c \<longleftrightarrow> uc_word u c \<or> 192 \<le> c \<and> c \<le> 7929"

definition heading_ahead :: rx where
  "heading_ahead = rx_ahead_or_end (\<lambda>c. py_space c \<or> c = 46 \<or> 58 \<le> c \<and> c \<le> 8212)"

definition part_word :: pytext where "part_word = ascii ''Ph'' @ [7847] @ ascii ''n''"
definition appendix_word :: pytext where "appendix_word = ascii ''Ph'' @ [7909]"
definition appendix_word2 :: pytext where "appendix_word2 = ascii ''l'' @ [7909] @ ascii ''c''"
definition chapter_word :: pytext where "chapter_word = ascii ''Ch'' @ [432, 417] @ ascii ''ng''"
definition section_word :: pytext where "section_word = ascii ''M'' @ [7909] @ ascii ''c''"
definition article_word :: pytext where "article_word = [272] @ ascii ''i'' @ [7873] @ ascii ''u''"
definition ordinal_word :: pytext where "ordinal_word = ascii ''th'' @ [7913]"

definition part_number :: "unicode_tables \<Rightarrow> rx" where
  "part_number u = Rx_Alt (rx_some (Rx_Char roman)) (Rx_Alt (rx_some (rx_digit u))
     (rx_seq [rx_literal ordinal_word, rx_some rx_space, rx_some (Rx_Char (\<lambda>c. viet_word u c \<or> c = 45))]))"

definition part_head :: "unicode_tables \<Rightarrow> rx" where
  "part_head u = rx_seq [rx_literal_by (uc_same u) part_word, rx_some rx_space, Rx_Group 1 (part_number u), heading_ahead]"

definition appendix_head :: "unicode_tables \<Rightarrow> rx" where
  "appendix_head u = rx_seq [rx_literal_by (uc_same u) appendix_word, rx_some rx_space,
     rx_literal_by (uc_same u) appendix_word2, rx_some rx_space,
     Rx_Group 1 (rx_some (Rx_Char (\<lambda>c. ascii_digit c \<or> roman c))), heading_ahead]"

definition chapter_head :: "unicode_tables \<Rightarrow> rx" where
  "chapter_head u = rx_seq [rx_literal_by (uc_same u) chapter_word, rx_some rx_space,
     Rx_Group 1 (rx_some (Rx_Char roman)), heading_ahead]"

definition section_head :: "unicode_tables \<Rightarrow> (codepoint \<Rightarrow> bool) \<Rightarrow> rx" where
  "section_head u digit_class = rx_seq [rx_literal_by (uc_same u) section_word, rx_some rx_space,
     Rx_Group 1 (rx_some (Rx_Char digit_class)), heading_ahead]"

definition article_head :: "unicode_tables \<Rightarrow> (codepoint \<Rightarrow> bool) \<Rightarrow> rx" where
  "article_head u digit_class = rx_seq [rx_literal_by (uc_same u) article_word, rx_some rx_space,
     Rx_Group 1 (rx_some (Rx_Char digit_class)), rx_many rx_space, Rx_Char ((=) 46)]"

definition clause_head :: "(codepoint \<Rightarrow> bool) \<Rightarrow> rx" where
  "clause_head digit_class = rx_seq [Rx_Group 1 (rx_some (Rx_Char digit_class)), Rx_Char ((=) 46), rx_some rx_space]"

definition point_head :: rx where
  "point_head = rx_seq [Rx_Group 1 (Rx_Char (\<lambda>c. 97 \<le> c \<and> c \<le> 122 \<or> c = 273)), Rx_Char ((=) 41), rx_some rx_space]"

text \<open>\<open>(.*)$\<close> after a head.\<close>

definition with_rest :: "rx \<Rightarrow> rx" where
  "with_rest head = rx_seq [head, Rx_Group 2 (rx_many rx_dot), rx_end]"

definition number_rx :: "unicode_tables \<Rightarrow> rx" where
  "number_rx u = rx_seq [rx_some (rx_digit u), rx_end]"

definition row_rx :: "unicode_tables \<Rightarrow> rx" where
  "row_rx u = rx_seq [Rx_Group 1 (rx_some (rx_digit u)), rx_some rx_space, Rx_Group 2 (rx_some rx_dot), rx_end]"

definition embedded_rx :: "unicode_tables \<Rightarrow> rx" where
  "embedded_rx u = rx_seq [rx_not_behind (viet_word u), article_head u ascii_digit, rx_many rx_space,
     Rx_Group 2 (rx_some rx_dot), rx_end]"

definition candidate_kind :: "unicode_tables \<Rightarrow> pytext \<Rightarrow> string option" where
  "candidate_kind u line = (
     if rx_match (part_head u) line \<noteq> None then Some ''PART''
     else if rx_match (appendix_head u) line \<noteq> None then Some ''APPENDIX''
     else if rx_match (chapter_head u) line \<noteq> None then Some ''CHAPTER''
     else if rx_match (section_head u (uc_digit u)) line \<noteq> None then Some ''SECTION''
     else if rx_match (article_head u (uc_digit u)) line \<noteq> None then Some ''ARTICLE''
     else if rx_match (clause_head (uc_digit u)) line \<noteq> None then Some ''CLAUSE''
     else if rx_match point_head line \<noteq> None then Some ''POINT''
     else None)"

text \<open>\<open>get_title\<close>; \<open>later\<close> are the lines after the current one.\<close>

definition next_line_title :: "unicode_tables \<Rightarrow> pytext list \<Rightarrow> pytext" where
  "next_line_title u later = (case dropWhile (\<lambda>l. py_strip l = []) later of
       [] \<Rightarrow> []
     | l # _ \<Rightarrow> let n = py_strip l in
         if candidate_kind u n \<noteq> None then [] else if valid_heading_title u n then n else [])"

definition get_title :: "unicode_tables \<Rightarrow> pytext list \<Rightarrow> pytext \<Rightarrow> pytext" where
  "get_title u later current = (if current \<noteq> []
     then (let cleaned = py_strip (dropWhile (in_chars [46, 58, 45, 8212, 32]) current) in
       if valid_heading_title u cleaned then cleaned else [])
     else next_line_title u later)"

section \<open>Recognition\<close>

text \<open>\<open>int\<close> of a string of decimal digits.\<close>

definition digits_int :: "unicode_tables \<Rightarrow> pytext \<Rightarrow> nat option" where
  "digits_int u ds = (if 4300 < length ds then None else Some (foldl (\<lambda>n d. 10 * n + uc_value u d) 0 ds))"

definition active_appendix :: "frame list \<Rightarrow> frame option" where
  "active_appendix st = find (\<lambda>f. fr_type f = ''APPENDIX'') st"

definition conversion_row :: "unicode_tables \<Rightarrow> pytext \<Rightarrow> bool" where
  "conversion_row u title \<longleftrightarrow> 61 \<in> set title
     \<or> contains_text (ascii ''ti'' @ [7871] @ ascii ''t h'' @ [7885] @ ascii ''c'') (uc_casefold u title)
     \<or> contains_text (ascii ''gi'' @ [7901] @ ascii '' t'' @ [237] @ ascii ''n ch'' @ [7881]) (uc_casefold u title)
     \<or> contains_text (ascii ''ph'' @ [250] @ ascii ''t'') (uc_casefold u title)"

text \<open>\<open>_is_table_category\<close>. The number matched \<open>\d+\<close>, so \<open>isdigit\<close> holds.\<close>

definition is_table_category :: "unicode_tables \<Rightarrow> frame list \<Rightarrow> pytext \<Rightarrow> pytext \<Rightarrow> bool option" where
  "is_table_category u st number title = (case active_appendix st of
       None \<Rightarrow> Some False
     | Some appendix \<Rightarrow> let expected = (case fr_next appendix of None \<Rightarrow> 1 | Some k \<Rightarrow> k) in
         (case digits_int u number of
            None \<Rightarrow> None
          | Some n \<Rightarrow> Some (n = expected \<and> valid_heading_title u title \<and> \<not> (expected = 1 \<and> conversion_row u title))))"

text \<open>
  A recognised heading: type, number, title, offset, and for a category the next number its appendix then expects.
  The article numbers on the stack matched \<open>[0-9]+\<close>, so they are digits.
\<close>

type_synonym heading = "string \<times> pytext \<times> pytext \<times> int \<times> nat option"

definition embedded_article :: "unicode_tables \<Rightarrow> pytext \<Rightarrow> frame list \<Rightarrow> (pytext \<times> pytext \<times> nat) option option" where
  "embedded_article u line st = (case rx_search (embedded_rx u) line of
       None \<Rightarrow> Some None
     | Some (i, m) \<Rightarrow> if i = 0 then Some None
         else (let prior = map (\<lambda>f. digits_int u (fr_number f)) (filter (\<lambda>f. fr_type f = ''ARTICLE'') st) in
           if None \<in> set prior then None
           else if prior = [] then Some None
           else (case digits_int u (rx_group line m 1) of
               None \<Rightarrow> None
             | Some n \<Rightarrow> if Some n \<noteq> map_option Suc (hd prior) then Some None
                 else (let title = py_strip (rx_group line m 2) in
                   if valid_heading_title u title then Some (Some (rx_group line m 1, title, i)) else Some None))))"

definition number_category ::
  "unicode_tables \<Rightarrow> pytext \<Rightarrow> pytext \<Rightarrow> pytext list \<Rightarrow> int \<Rightarrow> heading option" where
  "number_category u previous line later off = (let t = next_line_title u later;
     title = (if previous \<noteq> [] \<and> in_chars [44, 58, 8212, 45] (last previous) \<and> t \<noteq> [] then previous @ [32] @ t else t)
     in if valid_heading_title u title
        then Some (''TABLE_CATEGORY'', line, title, off, map_option Suc (digits_int u line)) else None)"

definition table_heading ::
  "unicode_tables \<Rightarrow> pytext \<Rightarrow> pytext \<Rightarrow> pytext list \<Rightarrow> int \<Rightarrow> frame list \<Rightarrow> heading option option" where
  "table_heading u previous line later off st = Option.bind
     (if rx_match (number_rx u) line \<noteq> None then is_table_category u st line (next_line_title u later) else Some False)
     (\<lambda>by_number. if by_number then Some (number_category u previous line later off)
        else (case rx_match (row_rx u) line of
            None \<Rightarrow> Some None
          | Some m \<Rightarrow> (let number = rx_group line m 1; title = py_strip (rx_group line m 2) in
              Option.bind (is_table_category u st number title) (\<lambda>row. Some (
                if row \<and> valid_heading_title u title
                then Some (''TABLE_CATEGORY'', number, title, off, map_option Suc (digits_int u number)) else None)))))"

definition titled :: "unicode_tables \<Rightarrow> string \<Rightarrow> pytext \<Rightarrow> rx_state \<Rightarrow> pytext list \<Rightarrow> int \<Rightarrow> heading option option" where
  "titled u ty line m later off =
     Some (Some (ty, py_strip (rx_group line m 1), get_title u later (py_strip (rx_group line m 2)), off, None))"

definition numbered :: "string \<Rightarrow> bool \<Rightarrow> pytext \<Rightarrow> rx_state \<Rightarrow> int \<Rightarrow> heading option option" where
  "numbered ty allowed line m off =
     Some (if allowed then Some (ty, py_strip (rx_group line m 1), [], off, None) else None)"

definition has_open :: "string \<Rightarrow> frame list \<Rightarrow> bool" where
  "has_open ty st \<longleftrightarrow> list_ex (\<lambda>f. fr_type f = ty) st"

definition line_heading ::
  "unicode_tables \<Rightarrow> pytext \<Rightarrow> pytext \<Rightarrow> pytext list \<Rightarrow> int \<Rightarrow> frame list \<Rightarrow> heading option option" where
  "line_heading u previous line later off st = (case rx_match (with_rest (part_head u)) line of
      Some m \<Rightarrow> titled u ''PART'' line m later off
    | None \<Rightarrow> (case rx_match (with_rest (appendix_head u)) line of
      Some m \<Rightarrow> titled u ''APPENDIX'' line m later off
    | None \<Rightarrow> (case rx_match (with_rest (chapter_head u)) line of
      Some m \<Rightarrow> titled u ''CHAPTER'' line m later off
    | None \<Rightarrow> (case rx_match (with_rest (section_head u ascii_digit)) line of
      Some m \<Rightarrow> titled u ''SECTION'' line m later off
    | None \<Rightarrow> (case rx_match (with_rest (article_head u ascii_digit)) line of
      Some m \<Rightarrow> titled u ''ARTICLE'' line m later off
    | None \<Rightarrow> (case rx_match (with_rest (clause_head ascii_digit)) line of
      Some m \<Rightarrow> numbered ''CLAUSE'' (has_open ''ARTICLE'' st) line m off
    | None \<Rightarrow> (case rx_match (with_rest point_head) line of
      Some m \<Rightarrow> numbered ''POINT'' (has_open ''CLAUSE'' st) line m off
    | None \<Rightarrow> table_heading u previous line later off st)))))))"

definition recognize ::
  "unicode_tables \<Rightarrow> pytext \<Rightarrow> pytext \<Rightarrow> pytext list \<Rightarrow> int \<Rightarrow> frame list \<Rightarrow> heading option option" where
  "recognize u previous line later off st = Option.bind (embedded_article u line st) (\<lambda>embedded. case embedded of
       Some (number, title, i) \<Rightarrow> Some (Some (''ARTICLE'', number, get_title u later title, off + int i, None))
     | None \<Rightarrow> line_heading u previous line later off st)"

section \<open>The parser\<close>

fun note_category :: "nat \<Rightarrow> frame list \<Rightarrow> frame list" where
  "note_category k [] = []"
| "note_category k (f # st) = (if fr_type f = ''APPENDIX'' then f\<lparr>fr_next := Some k\<rparr> # st else f # note_category k st)"

fun enter :: "heading option \<Rightarrow> frame list \<Rightarrow> frame list" where
  "enter None st = st"
| "enter (Some (ty, number, title, start, next_number)) st = (let st1 = add_unit ty number title start st in
     case next_number of None \<Rightarrow> st1 | Some k \<Rightarrow> note_category k st1)"

fun parse_lines :: "unicode_tables \<Rightarrow> pytext \<Rightarrow> int \<Rightarrow> pytext list \<Rightarrow> frame list \<Rightarrow> frame list option" where
  "parse_lines u previous off [] st = Some st"
| "parse_lines u previous off (l # later) st = (let line = py_strip l in Option.bind
     (if line = [] then Some st
      else Option.bind (recognize u previous line later off st) (\<lambda>h. Some (enter h st)))
     (parse_lines u line (off + int (length l) + 1) later))"

fun close_all :: "int \<Rightarrow> frame list \<Rightarrow> legal_unit list" where
  "close_all e [] = []"
| "close_all e [f] = fr_children f"
| "close_all e (f # g # st) = close_all e (g\<lparr>fr_children := fr_children g @ [close_frame e f]\<rparr> # st)"

definition initial_stack :: "frame list" where
  "initial_stack = [new_frame ''PREAMBLE'' [] (ascii ''Preamble'') 0 (level_of ''PREAMBLE''), new_frame ''ROOT'' [] [] 0 (- 1)]"

definition parse :: "unicode_tables \<Rightarrow> pytext \<Rightarrow> legal_unit list option" where
  "parse u t = map_option (close_all (int (length t))) (parse_lines u [] 0 (split_on 10 t) initial_stack)"

section \<open>What the parser promises\<close>

text \<open>
  A unit under the given ancestor types (the innermost first): its level is the level of its type and deeper than every
  ancestor, a preamble has nothing below it, and clauses, points and categories lie where they may.
\<close>

definition required :: "string \<Rightarrow> string list \<Rightarrow> bool" where
  "required ty anc \<longleftrightarrow> (ty = ''CLAUSE'' \<longrightarrow> ''ARTICLE'' \<in> set anc) \<and> (ty = ''POINT'' \<longrightarrow> ''CLAUSE'' \<in> set anc)
     \<and> (ty = ''TABLE_CATEGORY'' \<longrightarrow> ''APPENDIX'' \<in> set anc)"

definition well_placed :: "string list \<Rightarrow> string \<Rightarrow> int \<Rightarrow> bool" where
  "well_placed anc ty lv \<longleftrightarrow> ty \<in> fst ` set hierarchy_levels \<and> lv = level_of ty \<and> required ty anc
     \<and> (\<forall>a \<in> set anc. level_of a < lv) \<and> ''PREAMBLE'' \<notin> set anc"

fun unit_ok :: "string list \<Rightarrow> legal_unit \<Rightarrow> bool" where
  "unit_ok anc (Legal_Unit ty n t s e lv cs) \<longleftrightarrow> well_placed anc ty lv \<and> (\<forall>c \<in> set cs. unit_ok (ty # anc) c)"

text \<open>A row of units ends at \<open>e\<close>: each unit ends one before the next one starts, the last at \<open>e\<close>, on every level.\<close>

fun closes :: "int \<Rightarrow> legal_unit \<Rightarrow> bool" and closes_row :: "int \<Rightarrow> legal_unit list \<Rightarrow> bool" where
  "closes e (Legal_Unit ty n t s e' lv cs) \<longleftrightarrow> e' = e \<and> closes_row e cs"
| "closes_row e [] \<longleftrightarrow> True"
| "closes_row e [c] \<longleftrightarrow> closes e c"
| "closes_row e (c # d # cs) \<longleftrightarrow> closes (lu_start d - 1) c \<and> closes_row e (d # cs)"

text \<open>Types and offsets in the order of the text.\<close>

definition unit_flat :: "legal_unit \<Rightarrow> (string \<times> int) list" where
  "unit_flat u = map (\<lambda>v. (lu_type v, lu_start v)) (all_units u)"

definition frame_flat :: "frame \<Rightarrow> (string \<times> int) list" where
  "frame_flat f = (fr_type f, fr_start f) # concat (map unit_flat (fr_children f))"

definition flat :: "frame list \<Rightarrow> (string \<times> int) list" where
  "flat st = concat (map frame_flat (rev st))"

section \<open>The invariant of the stack\<close>

definition open_types :: "frame list \<Rightarrow> string list" where
  "open_types st = map fr_type (butlast st)"

definition frame_ok :: "string list \<Rightarrow> frame \<Rightarrow> bool" where
  "frame_ok anc f \<longleftrightarrow> well_placed anc (fr_type f) (fr_level f) \<and> (\<forall>c \<in> set (fr_children f). unit_ok (fr_type f # anc) c)"

fun stack_ok :: "frame list \<Rightarrow> bool" where
  "stack_ok [] \<longleftrightarrow> False"
| "stack_ok [r] \<longleftrightarrow> fr_type r = ''ROOT'' \<and> fr_level r = - 1 \<and> (\<forall>c \<in> set (fr_children r). unit_ok [] c)"
| "stack_ok (f # g # st) \<longleftrightarrow> frame_ok (open_types (g # st)) f \<and> stack_ok (g # st)"

fun stack_closes :: "int \<Rightarrow> frame list \<Rightarrow> bool" where
  "stack_closes e [] \<longleftrightarrow> True"
| "stack_closes e (f # st) \<longleftrightarrow> closes_row e (fr_children f) \<and> stack_closes (fr_start f - 1) st"

text \<open>What popping the top frame with the end \<open>e\<close> keeps.\<close>

definition popped :: "int \<Rightarrow> frame list \<Rightarrow> frame list \<Rightarrow> bool" where
  "popped e st st' \<longleftrightarrow> stack_ok st' \<and> (stack_closes e st \<longrightarrow> stack_closes e st') \<and> flat st' = flat st
     \<and> set (open_types st') \<subseteq> set (open_types st)"

lemma closes_row_snoc:
  "closes_row e (cs @ [c]) \<longleftrightarrow> closes_row (lu_start c - 1) cs \<and> closes e c"
proof (induction cs)
  case (Cons d cs)
  then show ?case by (cases cs) auto
qed simp

lemma unit_ok_close [simp]: "unit_ok anc (close_frame e f) \<longleftrightarrow> frame_ok anc f"
  by (simp add: close_frame_def frame_ok_def)

lemma closes_close [simp]: "closes e (close_frame e f) \<longleftrightarrow> closes_row e (fr_children f)"
  by (simp add: close_frame_def)

lemma close_frame_start [simp]: "lu_start (close_frame e f) = fr_start f"
  by (simp add: close_frame_def)

lemma unit_flat_close [simp]: "unit_flat (close_frame e f) = frame_flat f"
  by (simp add: unit_flat_def [abs_def] frame_flat_def close_frame_def map_concat o_def)

lemma open_types_Cons: "open_types (f # g # st) = fr_type f # open_types (g # st)"
  by (simp add: open_types_def)

lemma open_types_update [simp]: "open_types (g\<lparr>fr_children := cs\<rparr> # st) = open_types (g # st)"
  by (simp add: open_types_def)

lemma pop_frame_popped:
  assumes "stack_ok (f # g # st)"
  shows "popped e (f # g # st) (pop_frame e (f # g # st))"
proof -
  have "stack_ok (pop_frame e (f # g # st))"
    using assms by (cases st) (auto simp: frame_ok_def open_types_def)
  moreover have "stack_closes e (f # g # st) \<Longrightarrow> stack_closes e (pop_frame e (f # g # st))"
    by (simp add: closes_row_snoc)
  moreover have "flat (pop_frame e (f # g # st)) = flat (f # g # st)"
    by (simp add: flat_def frame_flat_def)
  ultimately show ?thesis by (auto simp: popped_def open_types_Cons)
qed

lemma popped_refl: "stack_ok st \<Longrightarrow> popped e st st"
  by (simp add: popped_def)

lemma popped_trans: "popped e st st' \<Longrightarrow> popped e st' st'' \<Longrightarrow> popped e st st''"
  unfolding popped_def by auto

lemma stack_okE:
  assumes "stack_ok st" "0 \<le> fr_level (hd st)"
  obtains f g rest where "st = f # g # rest"
  using assms by (cases st rule: stack_ok.cases) auto

lemma close_to_popped:
  assumes "stack_ok st" and "0 \<le> lv"
  shows "popped e st (close_to lv e st) \<and> fr_level (hd (close_to lv e st)) < lv"
  using assms
proof (induction lv e st rule: close_to.induct)
  case (1 lv e st)
  show ?case
  proof (cases "st \<noteq> [] \<and> lv \<le> fr_level (hd st)")
    case True
    with "1.prems" obtain f g rest where st: "st = f # g # rest" by (elim stack_okE) auto
    have p: "popped e st (pop_frame e st)" using pop_frame_popped "1.prems"(1) unfolding st by blast
    then have "stack_ok (pop_frame e st)" by (simp add: popped_def)
    from "1.IH" [OF True this "1.prems"(2)] p show ?thesis
      using True popped_trans by (simp add: close_to.simps [of lv e st])
  next
    case False
    then have "close_to lv e st = st" by (subst close_to.simps) auto
    moreover have "st \<noteq> []" using "1.prems"(1) by auto
    ultimately show ?thesis using False "1.prems"(1) popped_refl by auto
  qed
qed

lemma close_to_keeps_open:
  assumes "stack_ok st" and "0 \<le> lv" and "a \<in> set (open_types st)" and "level_of a < lv"
  shows "a \<in> set (open_types (close_to lv e st))"
  using assms
proof (induction lv e st rule: close_to.induct)
  case (1 lv e st)
  show ?case
  proof (cases "st \<noteq> [] \<and> lv \<le> fr_level (hd st)")
    case True
    with "1.prems" obtain f g rest where st: "st = f # g # rest" by (elim stack_okE) auto
    have "stack_ok (pop_frame e st)" using pop_frame_popped "1.prems"(1) unfolding st popped_def by blast
    moreover have "a \<in> set (open_types (pop_frame e st))"
      using "1.prems" True by (auto simp: st open_types_Cons frame_ok_def well_placed_def)
    ultimately show ?thesis using "1.IH" True "1.prems" by (simp add: close_to.simps [of lv e st])
  next
    case False
    then show ?thesis using "1.prems"(3) by (subst close_to.simps) auto
  qed
qed

lemma level_range: "ty \<in> fst ` set hierarchy_levels \<Longrightarrow> 0 \<le> level_of ty"
  by (auto simp: hierarchy_levels_def level_of_def)

lemma level_preamble: "ty \<in> fst ` set hierarchy_levels \<Longrightarrow> ty \<noteq> ''PREAMBLE'' \<Longrightarrow> 1 \<le> level_of ty"
  by (auto simp: hierarchy_levels_def level_of_def)

lemma stack_top:
  assumes "stack_ok st"
  shows "(\<forall>a \<in> set (open_types st). level_of a \<le> fr_level (hd st))
    \<and> (if fr_type (hd st) = ''PREAMBLE'' then set (open_types st) \<subseteq> insert ''PREAMBLE'' (set (open_types (pop_frame e st)))
           \<and> ''PREAMBLE'' \<notin> set (open_types (pop_frame e st))
         else ''PREAMBLE'' \<notin> set (open_types st))"
proof (cases st rule: stack_ok.cases)
  case (3 f g rest)
  with assms have "well_placed (open_types (g # rest)) (fr_type f) (fr_level f)" by (simp add: frame_ok_def)
  then show ?thesis unfolding 3 by (auto simp: open_types_Cons well_placed_def less_imp_le)
qed (use assms in \<open>auto simp: open_types_def\<close>)

lemma pop_preamble:
  assumes "stack_ok st" and "fr_type (hd st) = ''PREAMBLE''"
  shows "popped e st (pop_frame e st) \<and> pop_frame e st \<noteq> []"
proof (cases st rule: stack_ok.cases)
  case (3 f g rest)
  then show ?thesis using pop_frame_popped assms(1) by auto
qed (use assms in auto)

lemma levels [simp]:
  "level_of ''APPENDIX'' = 2" "level_of ''TABLE_CATEGORY'' = 4" "level_of ''ARTICLE'' = 4"
  "level_of ''CLAUSE'' = 5" "level_of ''POINT'' = 6" "level_of ''PREAMBLE'' = 0"
  by (simp_all add: level_of_def hierarchy_levels_def)

lemma required_keeps:
  assumes "required ty xs"
    and "\<And>a. a \<in> set xs \<Longrightarrow> level_of a < level_of ty \<Longrightarrow> a \<noteq> ''PREAMBLE'' \<Longrightarrow> a \<in> set ys"
  shows "required ty ys"
  using assms(1) assms(2) [of "''ARTICLE''"] assms(2) [of "''CLAUSE''"] assms(2) [of "''APPENDIX''"]
  by (auto simp: required_def)

text \<open>The types open below the new unit: what the levels leave, without the preamble.\<close>

lemma add_unit_pushes:
  assumes ok: "stack_ok st" and ty: "ty \<in> fst ` set hierarchy_levels" "ty \<noteq> ''PREAMBLE''" and req: "required ty (open_types st)"
  shows "stack_ok (add_unit ty n t s st) \<and> flat (add_unit ty n t s st) = flat st @ [(ty, s)]
    \<and> ((\<forall>e. stack_closes e st) \<longrightarrow> (\<forall>e. stack_closes e (add_unit ty n t s st)))"
proof -
  let ?lv = "level_of ty"
  let ?st1 = "close_to ?lv (s - 1) st"
  let ?st2 = "if fr_type (hd ?st1) = ''PREAMBLE'' then pop_frame (s - 1) ?st1 else ?st1"
  have lv: "0 \<le> ?lv" by (rule level_range [OF ty(1)])
  have st1: "popped (s - 1) st ?st1" "fr_level (hd ?st1) < ?lv"
    using close_to_popped [OF ok lv] by blast+
  then have ok1: "stack_ok ?st1" by (simp add: popped_def)
  have st2: "popped (s - 1) ?st1 ?st2 \<and> ?st2 \<noteq> []"
    using pop_preamble [OF ok1] popped_refl [OF ok1] ok1 by (cases "?st1 = []") simp_all
  then have all: "popped (s - 1) st ?st2" using st1(1) popped_trans by blast
  have top: "\<forall>a \<in> set (open_types ?st1). level_of a < ?lv" "''PREAMBLE'' \<notin> set (open_types ?st2)"
    "set (open_types ?st1) - {''PREAMBLE''} \<subseteq> set (open_types ?st2)"
    using stack_top [OF ok1, of "s - 1"] st1(2) by auto
  have "required ty (open_types ?st2)"
  proof (rule required_keeps [OF req])
    fix a
    assume "a \<in> set (open_types st)" "level_of a < ?lv" "a \<noteq> ''PREAMBLE''"
    then show "a \<in> set (open_types ?st2)" using close_to_keeps_open [OF ok lv, where e = "s - 1"] top(3) by blast
  qed
  moreover have "\<forall>a \<in> set (open_types ?st2). level_of a < ?lv"
    using top st2 by (auto simp: popped_def)
  ultimately have well_placed: "well_placed (open_types ?st2) ty ?lv" using ty(1) top by (simp add: well_placed_def)
  obtain f r where st2f: "?st2 = f # r" using st2 by (cases ?st2) auto
  have "stack_ok (new_frame ty n t s ?lv # ?st2)"
    using well_placed all unfolding st2f by (simp add: popped_def frame_ok_def new_frame_def)
  moreover have "flat (new_frame ty n t s ?lv # ?st2) = flat st @ [(ty, s)]"
    using all by (simp add: popped_def flat_def frame_flat_def new_frame_def)
  moreover have "(\<forall>e. stack_closes e st) \<Longrightarrow> stack_closes e (new_frame ty n t s ?lv # ?st2)" for e
    using all by (simp add: popped_def new_frame_def)
  ultimately show ?thesis unfolding add_unit_def Let_def by blast
qed

section \<open>What a line may add\<close>

lemma open_types_butlast: "open_types st = butlast (map fr_type st)"
  by (simp add: open_types_def map_butlast)

lemma note_category_types [simp]: "map fr_type (note_category k st) = map fr_type st"
  by (induction k st rule: note_category.induct) auto

lemma note_category_Nil [simp]: "note_category k st = [] \<longleftrightarrow> st = []"
  by (cases st) auto

lemma frame_ok_next [simp]: "frame_ok xs (f\<lparr>fr_next := k\<rparr>) = frame_ok xs f"
  by (simp add: frame_ok_def)

lemma note_category_ok: "stack_ok st \<Longrightarrow> stack_ok (note_category k st)"
proof (induction st rule: stack_ok.induct)
  case (3 f g st)
  show ?case
  proof (cases "fr_type f = ''APPENDIX''")
    case True
    then show ?thesis using "3.prems" by simp
  next
    case False
    obtain g' st' where n: "note_category k (g # st) = g' # st'" by (cases "note_category k (g # st)") (simp_all del: note_category.simps)
    have "open_types (note_category k (g # st)) = open_types (g # st)"
      by (simp only: open_types_butlast note_category_types)
    with 3 False n show ?thesis by simp
  qed
qed auto

lemma note_category_closes [simp]: "stack_closes e (note_category k st) = stack_closes e st"
  by (induction k st arbitrary: e rule: note_category.induct) auto

lemma note_category_flat [simp]: "flat (note_category k st) = flat st"
  unfolding flat_def by (induction k st rule: note_category.induct) (auto simp: frame_flat_def)

lemma has_open_types: "stack_ok st \<Longrightarrow> ty \<noteq> ''ROOT'' \<Longrightarrow> has_open ty st \<longleftrightarrow> ty \<in> set (open_types st)"
  by (induction st rule: stack_ok.induct) (auto simp: has_open_def open_types_def)

lemma active_appendix_open: "active_appendix st \<noteq> None \<longleftrightarrow> has_open ''APPENDIX'' st"
  by (auto simp: active_appendix_def has_open_def find_None_iff list_ex_iff)

definition heading_ok :: "pytext \<Rightarrow> int \<Rightarrow> frame list \<Rightarrow> heading \<Rightarrow> bool" where
  "heading_ok line off st h \<longleftrightarrow> (case h of (ty, n, t, s, k) \<Rightarrow> ty \<in> fst ` set hierarchy_levels \<and> ty \<noteq> ''PREAMBLE''
     \<and> (ty = ''CLAUSE'' \<longrightarrow> has_open ''ARTICLE'' st) \<and> (ty = ''POINT'' \<longrightarrow> has_open ''CLAUSE'' st)
     \<and> (ty = ''TABLE_CATEGORY'' \<longrightarrow> has_open ''APPENDIX'' st)
     \<and> (s = off \<or> ty = ''ARTICLE'' \<and> off \<le> s \<and> s \<le> off + int (length line)))"

lemma is_table_category_True: "is_table_category u st n t = Some True \<Longrightarrow> has_open ''APPENDIX'' st"
  unfolding active_appendix_open [symmetric]
  by (auto simp: is_table_category_def split: option.splits)

lemma table_heading_ok:
  "table_heading u previous line later off st = Some (Some h) \<Longrightarrow> heading_ok line off st h"
  by (auto simp: table_heading_def number_category_def heading_ok_def hierarchy_levels_def Let_def bind_eq_Some_conv
      split: option.splits if_splits dest: is_table_category_True)

lemma line_heading_ok:
  "line_heading u previous line later off st = Some (Some h) \<Longrightarrow> heading_ok line off st h"
  unfolding line_heading_def
  by (auto simp: titled_def numbered_def heading_ok_def [where h = "(_, _)"] hierarchy_levels_def
      split: option.splits if_splits dest: table_heading_ok)

lemma embedded_article_in: "embedded_article u line st = Some (Some (n, t, i)) \<Longrightarrow> i \<le> length line"
  by (auto simp: embedded_article_def Let_def split: option.splits if_splits dest: rx_search_in(1))

lemma recognize_ok:
  "recognize u previous line later off st = Some (Some h) \<Longrightarrow> heading_ok line off st h"
  using embedded_article_in
  by (fastforce simp: recognize_def bind_eq_Some_conv heading_ok_def [where h = "(_, _)"] hierarchy_levels_def
      split: option.splits dest: line_heading_ok)

lemma enter_keeps:
  assumes "stack_ok st" and "heading_ok line off st (ty, n, t, s, k)"
  shows "stack_ok (enter (Some (ty, n, t, s, k)) st) \<and> flat (enter (Some (ty, n, t, s, k)) st) = flat st @ [(ty, s)]
    \<and> ((\<forall>e. stack_closes e st) \<longrightarrow> (\<forall>e. stack_closes e (enter (Some (ty, n, t, s, k)) st)))"
proof -
  have "required ty (open_types st)"
    using assms has_open_types [OF assms(1)] by (auto simp: heading_ok_def required_def)
  then have "stack_ok (add_unit ty n t s st) \<and> flat (add_unit ty n t s st) = flat st @ [(ty, s)]
      \<and> ((\<forall>e. stack_closes e st) \<longrightarrow> (\<forall>e. stack_closes e (add_unit ty n t s st)))"
    using assms by (intro add_unit_pushes) (auto simp: heading_ok_def)
  then show ?thesis using note_category_ok by (auto simp: Let_def split: option.splits)
qed

section \<open>The whole parse\<close>

text \<open>The offsets of the units: none but the first is a preamble, and each one starts at the start of the
  text, behind a line break, or is an article.\<close>

definition good_start :: "pytext \<Rightarrow> string \<times> int \<Rightarrow> bool" where
  "good_start t x \<longleftrightarrow> fst x \<noteq> ''PREAMBLE'' \<and> 0 \<le> snd x \<and> (snd x = 0 \<or> fst x = ''ARTICLE'' \<or> t ! (nat (snd x) - 1) = 10)"

definition in_order :: "pytext \<Rightarrow> int \<Rightarrow> (string \<times> int) list \<Rightarrow> bool" where
  "in_order t off ys \<longleftrightarrow> sorted_wrt (<) (map snd ys) \<and> (\<forall>x \<in> set ys. good_start t x \<and> snd x < off)"

definition parse_inv :: "pytext \<Rightarrow> int \<Rightarrow> frame list \<Rightarrow> bool" where
  "parse_inv t off st \<longleftrightarrow> stack_ok st \<and> (\<forall>e. stack_closes e st)
     \<and> (\<exists>ys. flat st = (''ROOT'', 0) # (''PREAMBLE'', 0) # ys \<and> in_order t off ys)"

lemma in_order_later: "in_order t off ys \<Longrightarrow> off \<le> off' \<Longrightarrow> in_order t off' ys"
  by (auto simp: in_order_def)

lemma in_order_snoc: "in_order t s ys \<Longrightarrow> good_start t (ty, s) \<Longrightarrow> s < off \<Longrightarrow> in_order t off (ys @ [(ty, s)])"
  by (auto simp: in_order_def sorted_wrt_append)

lemma parse_inv_later: "parse_inv t off st \<Longrightarrow> off \<le> off' \<Longrightarrow> parse_inv t off' st"
  unfolding parse_inv_def using in_order_later by blast

lemma parse_inv_enter:
  assumes inv: "parse_inv t off st" and h: "heading_ok line off st h" and line: "length line \<le> n"
    and start: "0 \<le> off" "off = 0 \<or> t ! (nat off - 1) = 10"
  shows "parse_inv t (off + int n + 1) (enter (Some h) st)"
proof -
  obtain ty num ti s k where hd: "h = (ty, num, ti, s, k)" by (cases h)
  from inv obtain ys where ys: "flat st = (''ROOT'', 0) # (''PREAMBLE'', 0) # ys" "in_order t off ys"
    by (auto simp: parse_inv_def)
  have s: "off \<le> s" "s < off + int n + 1" "good_start t (ty, s)"
    using h line start by (auto simp: hd heading_ok_def good_start_def)
  have "in_order t (off + int n + 1) (ys @ [(ty, s)])"
    using in_order_snoc [OF in_order_later [OF ys(2) s(1)] s(3,2)] .
  with enter_keeps [of st line off ty num ti s k] inv h ys(1) show ?thesis
    by (simp add: parse_inv_def hd del: enter.simps)
qed

lemma parse_lines_inv:
  assumes "parse_lines u previous off lines st = Some st'" and "parse_inv t off st"
    and "t = seen @ join_with [10] lines" and "lines \<noteq> []" and "off = int (length seen)" and "seen = [] \<or> last seen = 10"
  shows "parse_inv t (int (length t) + 1) st'"
  using assms
proof (induction u previous off lines st arbitrary: seen rule: parse_lines.induct)
  case (2 u previous off l later st)
  obtain st1 where st1: "parse_lines u (py_strip l) (off + int (length l) + 1) later st1 = Some st'"
    "(if py_strip l = [] then Some st else Option.bind (recognize u previous (py_strip l) later off st) (\<lambda>h. Some (enter h st)))
       = Some st1"
    using "2.prems"(1) by (auto simp: Let_def bind_eq_Some_conv)
  have start: "0 \<le> off" "off = 0 \<or> t ! (nat off - 1) = 10"
    using "2.prems"(3,5,6) by (cases seen rule: rev_cases; auto simp: nth_append)+
  have len: "length (py_strip l) \<le> length l" by (simp add: strip_by_def le_trans [OF length_dropWhile_le])
  have inv: "parse_inv t (off + int (length l) + 1) st1"
  proof (cases "py_strip l = []")
    case True
    then show ?thesis using st1(2) "2.prems"(2) parse_inv_later by auto
  next
    case False
    then obtain h where h: "recognize u previous (py_strip l) later off st = Some h" "st1 = enter h st"
      using st1(2) by (auto simp: bind_eq_Some_conv)
    show ?thesis
    proof (cases h)
      case None
      then show ?thesis using h(2) "2.prems"(2) parse_inv_later by auto
    next
      case (Some x)
      then show ?thesis
        using h parse_inv_enter [OF "2.prems"(2) recognize_ok len start] by blast
    qed
  qed
  show ?case
  proof (cases later)
    case Nil
    then show ?thesis using st1(1) inv "2.prems"(3,5) by (simp add: ac_simps)
  next
    case (Cons l2 rest)
    then show ?thesis
      using "2.IH" [OF refl st1(2,1) inv, of "seen @ l @ [10]"] "2.prems"(3,5) by simp
  qed
qed simp

lemma close_all_keeps:
  assumes "stack_ok st" and "stack_closes e st"
  shows "(\<forall>v \<in> set (close_all e st). unit_ok [] v) \<and> closes_row e (close_all e st)
    \<and> flat st = (''ROOT'', fr_start (last st)) # concat (map unit_flat (close_all e st))"
  using assms
proof (induction e st rule: close_all.induct)
  case (3 e f g st)
  have p: "popped e (f # g # st) (pop_frame e (f # g # st))" by (rule pop_frame_popped [OF "3.prems"(1)])
  with "3.IH" "3.prems"(2) show ?case by (cases st) (auto simp: popped_def)
qed (auto simp: flat_def frame_flat_def)

lemma initial_inv: "parse_inv t 0 initial_stack"
  by (auto simp: parse_inv_def initial_stack_def new_frame_def frame_ok_def well_placed_def required_def hierarchy_levels_def
      open_types_def flat_def frame_flat_def in_order_def)

lemma parsed_tree:
  assumes "parse u t = Some units"
  shows "(\<forall>v \<in> set units. unit_ok [] v) \<and> closes_row (int (length t)) units
    \<and> (\<exists>ys. concat (map unit_flat units) = (''PREAMBLE'', 0) # ys \<and> in_order t (int (length t) + 1) ys)"
proof -
  obtain st where st: "parse_lines u [] 0 (split_on 10 t) initial_stack = Some st" "units = close_all (int (length t)) st"
    using assms by (auto simp: parse_def)
  have "parse_inv t (int (length t) + 1) st"
    by (rule parse_lines_inv [where seen = "[]", OF st(1) initial_inv]) (simp_all add: join_split_on)
  then show ?thesis
    using close_all_keeps [of st "int (length t)"] by (auto simp: parse_inv_def st(2))
qed

text \<open>C12. The tree the parser returns. It starts with the preamble. Every unit has the level of its type, deeper than
  all its ancestors; a clause lies in an article, a point in a clause, a table category in an appendix, nothing
  in the preamble. On every level a unit ends one before the next one starts and the last at the end of
  its parent, the roots at the end of the text. In the order of the tree there is no other preamble, and the offsets increase
  strictly and lie in the text, each at its start, behind a line break, or at an article heading.\<close>

theorem parse_tree:
  assumes "parse u t = Some units"
  shows "(\<forall>v \<in> set units. unit_ok [] v) \<and> closes_row (int (length t)) units
    \<and> (\<exists>ys. concat (map unit_flat units) = (''PREAMBLE'', 0) # ys \<and> in_order t (int (length t) + 1) ys)"
  using parsed_tree [OF assms] .

section \<open>No text is lost\<close>

definition own_end :: "legal_unit \<Rightarrow> int" where
  "own_end v = (case lu_children v of [] \<Rightarrow> lu_end v | c # _ \<Rightarrow> lu_start c)"

definition covered :: "legal_unit list \<Rightarrow> int \<Rightarrow> bool" where
  "covered us p \<longleftrightarrow> (\<exists>v \<in> set (concat (map all_units us)). lu_start v \<le> p \<and> p < own_end v \<or> lu_start v = p + 1)"

lemma covered_mono: "covered us p \<Longrightarrow> set us \<subseteq> set vs \<Longrightarrow> covered vs p"
  by (auto simp: covered_def)

lemma tree_covers:
  "closes e v \<Longrightarrow> lu_start v \<le> p \<Longrightarrow> p < e \<Longrightarrow> covered [v] p"
  "closes_row e us \<Longrightarrow> us \<noteq> [] \<Longrightarrow> lu_start (hd us) \<le> p \<Longrightarrow> p < e \<Longrightarrow> covered us p"
proof (induction e v and e us rule: closes_closes_row.induct)
  case (1 e ty n t s e' lv cs)
  show ?case
  proof (cases "cs \<noteq> [] \<and> lu_start (hd cs) \<le> p")
    case True
    with 1 have "covered cs p" by simp
    then show ?thesis by (auto simp: covered_def)
  next
    case False
    with 1 show ?thesis by (cases cs) (auto simp: covered_def own_end_def)
  qed
next
  case (4 e c d cs)
  consider "p < lu_start d - 1" | "p = lu_start d - 1" | "lu_start d \<le> p" by linarith
  then show ?case
  proof cases
    case 1
    with 4 have "covered [c] p" by simp
    then show ?thesis by (rule covered_mono) simp
  next
    case 2
    then show ?thesis by (cases d) (auto simp: covered_def)
  next
    case 3
    with 4 have "covered (d # cs) p" by simp
    then show ?thesis by (rule covered_mono) auto
  qed
qed auto

lemma own_text_iff:
  assumes "0 \<le> lu_start v" "lu_start v \<le> int p" "int p < own_end v" "text_at t p"
  shows "own_text t v p"
proof -
  obtain a b where "own_span t v = (a, b)" by fastforce
  moreover from this have "a \<le> p" "p < b"
    using trim_keeps [of t "nat (lu_start v)" "own_end v" a b p] assms by (auto simp: own_span_def own_end_def)
  ultimately show ?thesis using assms(4) by (simp add: own_text_def)
qed

lemma unit_flat_mem: "v \<in> set (concat (map all_units us)) \<Longrightarrow> (lu_type v, lu_start v) \<in> set (concat (map unit_flat us))"
  by (force simp: unit_flat_def)

lemma parse_owns:
  assumes "parse u t = Some units" and "text_at t p"
  shows "\<exists>v \<in> set (concat (map all_units units)). own_text t v p \<or> lu_type v = ''ARTICLE'' \<and> lu_start v = int p + 1"
proof -
  have r: "closes_row (int (length t)) units" using parsed_tree [OF assms(1)] by blast
  obtain ys where ys: "concat (map unit_flat units) = (''PREAMBLE'', 0) # ys" "in_order t (int (length t) + 1) ys"
    using parsed_tree [OF assms(1)] by blast
  have p: "p < length t" "t ! p \<noteq> 10" using assms(2) by (auto simp: text_at_def py_space_def)
  obtain x xs where u: "units = x # xs" using ys(1) by (cases units) auto
  then have "lu_start (hd units) = 0" using ys(1) by (cases x) (simp add: unit_flat_def)
  then have "covered units (int p)" using tree_covers(2) [OF r, of "int p"] p(1) u by auto
  then obtain v where v: "v \<in> set (concat (map all_units units))"
    "lu_start v \<le> int p \<and> int p < own_end v \<or> lu_start v = int p + 1" by (auto simp: covered_def)
  have "(lu_type v, lu_start v) = (''PREAMBLE'', 0) \<or> (lu_type v, lu_start v) \<in> set ys"
    using unit_flat_mem [OF v(1)] ys(1) by simp
  then have start: "0 \<le> lu_start v" "lu_start v = 0 \<or> good_start t (lu_type v, lu_start v)"
    using ys(2) by (auto simp: in_order_def good_start_def)
  have article: "lu_type v = ''ARTICLE''" if "lu_start v = int p + 1"
    using start(2) p(2) that by (simp add: good_start_def nat_add_distrib)
  show ?thesis
    using v article own_text_iff [OF start(1) _ _ assms(2)] by blast
qed

text \<open>Nothing is lost between the document and its chunks. When the normalised text is parsed and chunked, with a tokenizer
  whose offsets start at the first character and never go back, every visible character of the text lies in the
  character range of a chunk, unless an article heading that was found inside a line starts right behind it.\<close>

theorem document_in_chunks:
  assumes "parse u t = Some units" and "generate_chunks c t units m = Inr chunks"
    and "good_offsets (ck_contract c)" and "0 \<le> ck_overlap c"
    and "text_at t p" and "(''ARTICLE'', int p + 1) \<notin> set (concat (map unit_flat units))"
  shows "\<exists>x \<in> set chunks. cd_start x \<le> p \<and> p < cd_end x"
proof -
  obtain v where v: "v \<in> set (concat (map all_units units))"
    "own_text t v p \<or> lu_type v = ''ARTICLE'' \<and> lu_start v = int p + 1"
    using parse_owns [OF assms(1,5)] by blast
  then have "own_text t v p" using unit_flat_mem [OF v(1)] assms(6) by auto
  then obtain xs x where "process_units c t m [] units = Inr xs" "chunks = number_chunks xs" "x \<in> set xs" "chunk_at v p x"
    using assms(2) process_cover(2) [OF assms(3,4) _ _ v(1)] by (fastforce simp: generate_chunks_eq and_then_Inr)
  then show ?thesis using number_chunks_at [of x xs v p] by (auto simp: chunk_at_def)
qed

named_theorems parse_run \<open>equations that run the parser on a given text\<close>

lemmas [parse_run] = parse_def initial_stack_def new_frame_def recognize_def embedded_article_def line_heading_def
  table_heading_def number_category_def titled_def numbered_def get_title_def next_line_title_def candidate_kind_def
  valid_heading_title_def with_rest_def part_head_def appendix_head_def chapter_head_def section_head_def article_head_def
  clause_head_def point_head_def number_rx_def row_rx_def embedded_rx_def timestamp_rx_def part_number_def heading_ahead_def
  part_word_def appendix_word_def appendix_word2_def chapter_word_def section_word_def article_word_def ordinal_word_def
  rx_seq_def rx_literal_def rx_literal_by_def rx_ahead_or_end_def rx_not_behind_def rx_word_boundary_def holds_at_def
  rx_search_def rx_match_at_def rx_group_def char_at_def char_before_def roman_def ascii_digit_def viet_word_def in_chars_def
  add_unit_def close_to.simps close_frame_def is_table_category_def active_appendix_def has_open_def strip_by_def py_space_def
  digits_int_def level_of_def hierarchy_levels_def Let_def

text \<open>A chapter in which the second article starts inside a line; the full stop before it is in no unit.\<close>

definition two_articles :: pytext where
  "two_articles = article_word @ ascii '' 1. A'' @ [10] @ ascii ''b.'' @ article_word @ ascii '' 2. C''"

lemma two_articles_parse:
  "parse sample_unicode two_articles = Some [Legal_Unit ''PREAMBLE'' [] (ascii ''Preamble'') 0 (- 1) 0 [],
     Legal_Unit ''ARTICLE'' (ascii ''1'') (ascii ''A'') 0 11 4 [], Legal_Unit ''ARTICLE'' (ascii ''2'') (ascii ''C'') 12 21 4 []]"
  by (simp add: parse_run two_articles_def sample_unicode_def)

lemma stop_in_no_unit:
  "text_at two_articles 11 \<and> \<not> (\<exists>units. parse sample_unicode two_articles = Some units
     \<and> (\<exists>v \<in> set (concat (map all_units units)). own_text two_articles v 11))"
  by (simp add: two_articles_parse) (simp add: two_articles_def article_word_def own_text_def own_span_def trim_span_def
      text_at_def slice_def py_space_def Let_def)

theorem parse_tree_witness:
  "\<exists>units. parse sample_unicode two_articles = Some units \<and> length units = 3 \<and> closes_row 21 units
     \<and> (\<exists>ys. concat (map unit_flat units) = (''PREAMBLE'', 0) # ys \<and> in_order two_articles 22 ys)"
proof -
  obtain units where p: "parse sample_unicode two_articles = Some units" and n: "length units = 3"
    by (simp add: two_articles_parse)
  moreover have "length two_articles = 21" by (simp add: two_articles_def article_word_def)
  ultimately show ?thesis using parse_tree [OF p] by auto
qed

text \<open>The words for software, in capitals in a heading, are read as the part with the roman number M.\<close>

lemma software_is_part_M:
  "parse sample_unicode (part_word @ [32, 77, 7873, 109]) = Some [Legal_Unit ''PREAMBLE'' [] (ascii ''Preamble'') 0 (- 1) 0 [],
     Legal_Unit ''PART'' (ascii ''M'') [7873, 109] 0 8 1 []]"
  by (simp add: parse_run sample_unicode_def)

end
