(* ===== verification/Metadata.thy ===== *)
theory Metadata
  imports Parser
begin

text \<open>
  The metadata of a document from the start of its text (\<open>app/processing/metadata_extractor.py\<close>). All five keys are
  always stored.
\<close>

section \<open>Patterns\<close>

definition government_caps :: pytext where "government_caps = ascii ''CH'' @ [205] @ ascii ''NH PH'' @ [7910]"
definition government_name :: pytext where "government_name = ascii ''Ch'' @ [237] @ ascii ''nh ph'' @ [7911]"
definition assembly_caps :: pytext where "assembly_caps = ascii ''QU'' @ [7888] @ ascii ''C H'' @ [7896] @ ascii ''I''"
definition assembly_name :: pytext where "assembly_name = ascii ''Qu'' @ [7889] @ ascii ''c h'' @ [7897] @ ascii ''i''"
definition decree_caps :: pytext where "decree_caps = ascii ''NGH'' @ [7882, 32, 272, 7882] @ ascii ''NH''"
definition decree_name :: pytext where "decree_name = ascii ''Ngh'' @ [7883, 32, 273, 7883] @ ascii ''nh''"
definition law_caps :: pytext where "law_caps = ascii ''LU'' @ [7852] @ ascii ''T''"
definition law_name :: pytext where "law_name = ascii ''Lu'' @ [7853] @ ascii ''t''"
definition decision_caps :: pytext where "decision_caps = ascii ''QUY'' @ [7870] @ ascii ''T '' @ [272, 7882] @ ascii ''NH''"
definition decision_name :: pytext where "decision_name = ascii ''Quy'' @ [7871] @ ascii ''t '' @ [273, 7883] @ ascii ''nh''"

text \<open>\<open>[^\s\n]\<close> is a character that is no white space; \<open>re.DOTALL\<close> lets the dot match a line break.\<close>

definition number_pattern :: "unicode_tables \<Rightarrow> rx" where
  "number_pattern u = rx_seq [rx_literal_by (uc_same u) (ascii ''S'' @ [7889] @ ascii '':''), rx_many rx_space,
     Rx_Group 1 (rx_some (Rx_Char (\<lambda>c. \<not> py_space c)))]"

definition word_pattern :: "unicode_tables \<Rightarrow> pytext \<Rightarrow> rx" where
  "word_pattern u w = rx_seq [rx_word_boundary (uc_word u), rx_literal_by (uc_same u) w, rx_word_boundary (uc_word u)]"

definition date_pattern :: "unicode_tables \<Rightarrow> rx" where
  "date_pattern u = rx_seq [rx_literal_by (uc_same u) (ascii ''ng'' @ [224] @ ascii ''y''), rx_some rx_space,
     Rx_Group 1 (Rx_Seq (rx_digit u) (rx_opt (rx_digit u))), rx_some rx_space,
     rx_literal_by (uc_same u) (ascii ''th'' @ [225] @ ascii ''ng''), rx_some rx_space,
     Rx_Group 2 (Rx_Seq (rx_digit u) (rx_opt (rx_digit u))), rx_some rx_space,
     rx_literal_by (uc_same u) (ascii ''n'' @ [259] @ ascii ''m''), rx_some rx_space,
     Rx_Group 3 (rx_seq [rx_digit u, rx_digit u, rx_digit u, rx_digit u])]"

definition title_pattern :: "unicode_tables \<Rightarrow> pytext \<Rightarrow> rx" where
  "title_pattern u kind = rx_seq [rx_literal_by (uc_same u) kind, rx_many rx_space, Rx_Char ((=) 10),
     Rx_Group 1 (Rx_Star False (Rx_Char (\<lambda>_. True))), rx_many rx_space,
     rx_literal_by (uc_same u) (ascii ''C'' @ [259] @ ascii ''n c'' @ [7913])]"

section \<open>Extraction\<close>

text \<open>\<open>f"{n:02d}"\<close>.\<close>

definition two_digits :: "nat \<Rightarrow> pytext" where
  "two_digits n = (if n < 10 then ascii ''0'' else []) @ ascii (nat_str n)"

definition digits_value_of :: "unicode_tables \<Rightarrow> pytext \<Rightarrow> nat" where
  "digits_value_of u ds = foldl (\<lambda>n d. 10 * n + uc_value u d) 0 ds"

definition issuing_authority :: "unicode_tables \<Rightarrow> pytext \<Rightarrow> pytext option" where
  "issuing_authority u header = (if contains_text government_caps (uc_upper u header) then Some government_name
     else if contains_text assembly_caps (uc_upper u header) then Some assembly_name else None)"

definition document_number :: "unicode_tables \<Rightarrow> pytext \<Rightarrow> pytext option" where
  "document_number u header = map_option (\<lambda>(_, m). py_strip (rx_group header m 1)) (rx_search (number_pattern u) header)"

definition document_type :: "unicode_tables \<Rightarrow> pytext \<Rightarrow> pytext option" where
  "document_type u header = (if rx_search (word_pattern u decree_caps) header \<noteq> None then Some decree_name
     else if rx_search (word_pattern u law_caps) header \<noteq> None then Some law_name
     else if rx_search (word_pattern u decision_caps) header \<noteq> None then Some decision_name else None)"

definition issued_date :: "unicode_tables \<Rightarrow> pytext \<Rightarrow> pytext option" where
  "issued_date u header = map_option (\<lambda>(_, m). rx_group header m 3 @ [45]
       @ two_digits (digits_value_of u (rx_group header m 2)) @ [45] @ two_digits (digits_value_of u (rx_group header m 1)))
     (rx_search (date_pattern u) header)"

definition document_title :: "unicode_tables \<Rightarrow> pytext \<Rightarrow> pytext option" where
  "document_title u header = map_option (\<lambda>(_, m). py_strip (collapse_runs py_space 1 [32] (rx_group header m 1)))
     (rx_search (title_pattern u (case document_type u header of None \<Rightarrow> decree_caps | Some k \<Rightarrow> uc_upper u k)) header)"

definition extract_metadata :: "unicode_tables \<Rightarrow> pytext \<Rightarrow> doc_metadata" where
  "extract_metadata u t = (let header = take 2000 t in
     [(''document_type'', document_type u header), (''document_number'', document_number u header),
      (''issuing_authority'', issuing_authority u header), (''issued_date'', issued_date u header),
      (''title'', document_title u header)])"

section \<open>What it extracts\<close>

lemma metadata_keys: "map fst (extract_metadata u t) = [''document_type'', ''document_number'', ''issuing_authority'', ''issued_date'', ''title'']"
  by (simp add: extract_metadata_def Let_def)

lemma document_type_known: "document_type u h \<in> {None, Some decree_name, Some law_name, Some decision_name}"
  by (simp add: document_type_def)

text \<open>Only the start of the text counts.\<close>

lemma metadata_local: "take 2000 t = take 2000 t' \<Longrightarrow> extract_metadata u t = extract_metadata u t'"
  by (simp add: extract_metadata_def)

text \<open>The day and the month are not checked: the 45th of the 13th month becomes a date.\<close>

lemma impossible_date:
  "issued_date sample_unicode (ascii ''ng'' @ [224] @ ascii ''y 45 th'' @ [225] @ ascii ''ng 13 n'' @ [259] @ ascii ''m 2024'')
     = Some (ascii ''2024-13-45'')"
  by (simp add: issued_date_def date_pattern_def digits_value_of_def two_digits_def sample_unicode_def parse_run nat_str.simps)

end
