(* ===== verification/Preparation.thy ===== *)
theory Preparation
  imports Indexing Metadata
begin

text \<open>
  The preparation service (\<open>app/local_compute/preparation.py\<close>) with the page extraction of
  \<open>app/pdf/extractor.py\<close> and the check of the provisioned model directory
  (\<open>app/indexing/artifact.py\<close>): from the stored PDF to a validated artifact database. PyMuPDF, the
  tokenizer and the digests are fields of \<open>prep_env\<close>.
\<close>

section \<open>The provisioned model directory\<close>

record file_tree =
  ft_exists :: "string \<Rightarrow> bool"
  ft_is_file :: "string \<Rightarrow> bool"
  ft_is_dir :: "string \<Rightarrow> bool"
  ft_read :: "string \<Rightarrow> string option"

datatype model_check = Model_At string | Model_Missing string | Model_Unreadable

definition model_cache_directory :: string where
  "model_cache_directory = ''models--intfloat--multilingual-e5-base''"

definition required_snapshot_files :: "string list" where
  "required_snapshot_files = [''config.json'', ''modules.json'', ''model.safetensors'', ''tokenizer_config.json'']"

definition validate_canonical_e5_artifact :: "file_tree \<Rightarrow> string \<Rightarrow> model_check" where
  "validate_canonical_e5_artifact t cache =
     (let model_root = cache @ ''/'' @ model_cache_directory; ref = model_root @ ''/refs/main'' in
      if \<not> ft_exists t model_root \<and> ft_exists t (cache @ ''/hub/'' @ model_cache_directory)
      then Model_Missing ''wrong_cache_root''
      else if \<not> ft_is_file t ref then Model_Missing ''missing_ref''
      else case ft_read t ref of
        None \<Rightarrow> Model_Unreadable
      | Some r \<Rightarrow> (let revision = str_strip r; snapshot = model_root @ ''/snapshots/'' @ revision in
          if revision = [] \<or> CHR ''/'' \<in> set revision \<or> CHR 0x5C \<in> set revision then Model_Missing ''invalid_ref''
          else if \<not> ft_is_dir t snapshot then Model_Missing ''missing_snapshot''
          else case find (\<lambda>f. \<not> ft_is_file t (snapshot @ ''/'' @ f)) required_snapshot_files of
            Some f \<Rightarrow> Model_Missing (''missing_'' @ f)
          | None \<Rightarrow> Model_At snapshot))"

text \<open>\<open>get_e5_input_contract\<close>: the cached tokenizer, its limit, and what the constructor refuses.\<close>

datatype tokenizer_load =
    Tokenizer tokenizer int bool
  | Load_Refused
  | Load_Crashed

definition get_e5_input_contract :: "tokenizer_load \<Rightarrow> py_exn + e5_contract" where
  "get_e5_input_contract l = (case l of
       Tokenizer t limit is_fast \<Rightarrow>
         if limit \<noteq> 512 \<or> \<not> is_fast then Inl ValueError
         else Inr \<lparr>ec_tokenizer = t, ec_max_tokens = 512\<rparr>
     | Load_Refused \<Rightarrow> Inl OSError
     | Load_Crashed \<Rightarrow> Inl OtherException)"

section \<open>Environment and pages\<close>

record prep_env =
  pe_open :: "bytes \<Rightarrow> (bool \<times> pytext option list) option"
  pe_unicode :: unicode_tables
  pe_files :: file_tree
  pe_cache_dir :: string
  pe_tokenizer :: tokenizer_load
  pe_dumps :: "doc_metadata \<Rightarrow> string"
  pe_digest :: "artifact_db \<Rightarrow> string"
  pe_fingerprint :: string
  pe_page_max :: int
  pe_total_max :: int

text \<open>
  \<open>PDFExtractor.extract_pages\<close> with \<open>max_pages=None\<close>. \<open>pe_open\<close> is \<open>pymupdf.open\<close> (\<open>None\<close>: it raises)
  with \<open>needs_pass\<close> and the text of each page (\<open>None\<close>: \<open>get_text\<close> raises).
\<close>

fun extract_from :: "int \<Rightarrow> int \<Rightarrow> nat \<Rightarrow> int \<Rightarrow> pytext option list \<Rightarrow> py_exn + page_row list" where
  "extract_from page_max total_max i n [] = Inr []"
| "extract_from page_max total_max i n (None # ps) = Inl OtherException"
| "extract_from page_max total_max i n (Some p # ps) =
     (if int (length p) > page_max then Inl OtherException
      else if n + int (length p) > total_max then Inl OtherException
      else map_sum id (Cons \<lparr>pg_number = i + 1, pg_text = p, pg_chars = length p\<rparr>)
             (extract_from page_max total_max (i + 1) (n + int (length p)) ps))"

definition extract_pages :: "prep_env \<Rightarrow> bytes \<Rightarrow> py_exn + page_row list" where
  "extract_pages env data = (case pe_open env data of
       None \<Rightarrow> Inl OtherException
     | Some (needs_pass, pages) \<Rightarrow>
         if needs_pass then Inl OtherException
         else extract_from (pe_page_max env) (pe_total_max env) 0 0 pages)"

definition normalized_text :: "prep_env \<Rightarrow> page_row list \<Rightarrow> pytext \<times> offset_entry list" where
  "normalized_text env pages = reconstruct (remove_headers_footers (pe_unicode env)
     (map (\<lambda>p. clean_page (pe_unicode env) (pg_text p)) pages))"

section \<open>Chunks\<close>

definition tokenizer_error :: "string \<Rightarrow> py_exn" where
  "tokenizer_error diagnostic = Compute (diagnosed_error MODEL_ARTIFACT_UNAVAILABLE diagnostic)"

text \<open>
  The guarded block: \<open>CanonicalEmbeddingArtifactError\<close> keeps its suffix; every \<open>OSError\<close> and \<open>ValueError\<close>,
  the chunker's own errors included, becomes \<open>tokenizer_load_failed\<close>; anything else passes.
\<close>

definition token_contract :: "prep_env \<Rightarrow> py_exn + e5_contract" where
  "token_contract env = (case validate_canonical_e5_artifact (pe_files env) (pe_cache_dir env) of
       Model_Missing s \<Rightarrow> Inl (tokenizer_error s)
     | Model_Unreadable \<Rightarrow> Inl (tokenizer_error ''tokenizer_load_failed'')
     | Model_At _ \<Rightarrow> (case get_e5_input_contract (pe_tokenizer env) of
           Inl OtherException \<Rightarrow> Inl OtherException
         | Inl _ \<Rightarrow> Inl (tokenizer_error ''tokenizer_load_failed'')
         | Inr c \<Rightarrow> Inr c))"

definition make_chunks :: "e5_contract \<Rightarrow> pytext \<Rightarrow> legal_unit list \<Rightarrow> doc_metadata \<Rightarrow> py_exn + chunk list" where
  "make_chunks contract t units m = (case generate_chunks (default_chunker contract) t units m of
       Inr cs \<Rightarrow> Inr cs
     | Inl NoForwardProgress \<Rightarrow> Inl OtherException
     | Inl _ \<Rightarrow> Inl (tokenizer_error ''tokenizer_load_failed''))"

text \<open>\<open>_map_units\<close> and \<open>put_unit\<close>: identifiers and pages in pre-order, one counter for all of them.\<close>

fun map_units ::
  "(nat \<Rightarrow> ident) \<Rightarrow> offset_entry list \<Rightarrow> ident option \<Rightarrow> nat \<Rightarrow> legal_unit list \<Rightarrow>
   (legal_unit \<times> unit_row) list \<times> nat" where
  "map_units ids offsets parent k [] = ([], k)"
| "map_units ids offsets parent k (Legal_Unit ty num ttl s e level children # us) =
     (let row = \<lparr>un_id = ids k, un_parent = parent, un_type = ty, un_number = num, un_title = ttl,
            un_start = s, un_end = e, un_page_start = page_of s offsets, un_page_end = page_of e offsets,
            un_level = level\<rparr>;
          (below, k1) = map_units ids offsets (Some (ids k)) (Suc k) children;
          (rest, k2) = map_units ids offsets parent k1 us
      in ((Legal_Unit ty num ttl s e level children, row) # below @ rest, k2))"

definition map_units_op :: "offset_entry list \<Rightarrow> legal_unit list \<Rightarrow> (legal_unit \<times> unit_row) list wop" where
  "map_units_op offsets us w = (case map_units (w_uuid w) offsets None (w_next w) us of
     (rows, k) \<Rightarrow> (Inr rows, w\<lparr>w_next := k\<rparr>))"

text \<open>\<open>_enrich\<close> and the row of one chunk. The unit of a chunk is found by its value.\<close>

definition chunk_row_of ::
  "e5_contract \<Rightarrow> ident \<Rightarrow> offset_entry list \<Rightarrow> (legal_unit \<times> unit_row) list \<Rightarrow> ident \<Rightarrow> chunk \<Rightarrow> chunk_row" where
  "chunk_row_of contract d offsets units i c = \<lparr>cr_id = i, cr_document = d,
     cr_unit = (case map_of units (cd_unit c) of None \<Rightarrow> [] | Some u \<Rightarrow> un_id u),
     cr_index = cd_index c, cr_content = cd_content c, cr_embedding = cd_embedding c,
     cr_tokens = count_final_tokens contract (cd_embedding c),
     cr_page_start = page_of (int (cd_start c)) offsets,
     cr_page_end = page_of (max (int (cd_start c)) (int (cd_end c) - 1)) offsets,
     cr_char_start = cd_start c, cr_char_end = cd_end c\<rparr>"

definition chunk_rows_op :: "(ident \<Rightarrow> chunk \<Rightarrow> chunk_row) \<Rightarrow> chunk list \<Rightarrow> chunk_row list wop" where
  "chunk_rows_op f cs w = (Inr (map2 (\<lambda>k c. f (w_uuid w k) c) [w_next w ..< w_next w + length cs] cs),
     w\<lparr>w_next := w_next w + length cs\<rparr>)"

section \<open>Steps of the service\<close>

definition prep_progress :: "bool \<Rightarrow> int \<Rightarrow> int" where
  "prep_progress pipeline p = (let q = max 0 (min 100 p) in if pipeline then (6 * q + 5) div 10 else q)"

definition update_prep_job :: "ident \<Rightarrow> string \<Rightarrow> int \<Rightarrow> bool \<Rightarrow> unit wop" where
  "update_prep_job jid stage p pipeline =
     tx_do (update_job jid RUNNING stage (prep_progress pipeline p) None)"

definition mark_document :: "bool \<Rightarrow> ident \<Rightarrow> preparation_state \<Rightarrow> unit wop" where
  "mark_document activate d st = when_op activate (tx_do (set_document_state d st None))"

definition cleanup_stale_staging :: "ident \<Rightarrow> unit wop" where
  "cleanup_stale_staging d = file_op (\<lambda>w.
     (Inr (), w\<lparr>w_staging := filter (\<lambda>p. fst (fst p) \<noteq> d) (w_staging w)\<rparr>))"

definition remove_staging :: "ident \<times> ident \<Rightarrow> unit wop" where
  "remove_staging p = modify_op (\<lambda>w. w\<lparr>w_staging := filter (\<lambda>q. fst q \<noteq> p) (w_staging w)\<rparr>)"

definition make_staging :: "ident \<times> ident \<Rightarrow> unit wop" where
  "make_staging p = file_op (\<lambda>w. if p \<in> set (map fst (w_staging w)) then (Inl (Raised OSError), w)
     else (Inr (), w\<lparr>w_staging := w_staging w @ [(p, None)]\<rparr>))"

definition read_source :: "ident \<Rightarrow> bytes wop" where
  "read_source d = then_op (tx_get (\<lambda>c. get_document c d)) (\<lambda>x. case x of
       None \<Rightarrow> raise_code DOCUMENT_NOT_FOUND
     | Some doc \<Rightarrow> file_op (\<lambda>w. case map_of (w_sources w) (doc_source_path doc) of
           Some (Some data) \<Rightarrow> (Inr data, w)
         | _ \<Rightarrow> (Inl (Raised OSError), w)))"

section \<open>Persistence and validation\<close>

definition persist_batch_size :: nat where "persist_batch_size = 256"

function persist_batches ::
  "ident \<Rightarrow> bool \<Rightarrow> (ident \<Rightarrow> chunk \<Rightarrow> chunk_row) \<Rightarrow> nat \<Rightarrow> chunk list \<Rightarrow> chunk_row list \<Rightarrow> chunk_row list wop" where
  "persist_batches jid pipeline f n rest acc =
     (if rest = [] then return_op acc
      else seq_op (cancel_if_requested jid)
        (then_op (chunk_rows_op f (take persist_batch_size rest)) (\<lambda>rows.
          let acc' = acc @ rows in
          if \<not> distinct (map cr_id acc') \<or> \<not> distinct (map cr_index acc') then raise_op (Raised IntegrityError)
          else seq_op (update_prep_job jid ''PERSISTING'' (70 + int (18 * length acc' div n)) pipeline)
            (persist_batches jid pipeline f n (drop persist_batch_size rest) acc'))))"
  by pat_completeness auto
termination
  by (relation "measure (\<lambda>(jid, pipeline, f, n, rest, acc). length rest)") (auto simp: persist_batch_size_def)

declare persist_batches.simps [simp del]

definition artifact_metadata ::
  "prep_env \<Rightarrow> local_document \<Rightarrow> ident \<Rightarrow> doc_metadata \<Rightarrow> (string \<times> string) list" where
  "artifact_metadata env doc a m =
     [(''artifact_id'', a), (''profile_id'', ''zkd-local-artifact-v1''),
      (''profile_fingerprint'', pe_fingerprint env), (''source_sha256'', doc_sha256 doc),
      (''document_id'', doc_id doc), (''state'', ''PREPARED_NOT_INDEXED''), (''metadata'', pe_dumps env m)]"

definition commit_staging :: "ident \<times> ident \<Rightarrow> artifact_db \<Rightarrow> unit wop" where
  "commit_staging p db = step_op (\<lambda>w. case map_of (w_staging w) p of
       None \<Rightarrow> (Inl (Raised OtherException), w)
     | Some _ \<Rightarrow> (Inr (), w\<lparr>w_staging := AList.update p (Some db) (w_staging w)\<rparr>))"

record prepared_data =
  pr_pages :: "page_row list"
  pr_text :: pytext
  pr_offsets :: "offset_entry list"
  pr_metadata :: doc_metadata
  pr_units :: "legal_unit list"
  pr_contract :: e5_contract
  pr_chunks :: "chunk list"

definition persist ::
  "prep_env \<Rightarrow> local_document \<Rightarrow> ident \<Rightarrow> (legal_unit \<times> unit_row) list \<Rightarrow> prepared_data \<Rightarrow> ident \<Rightarrow> bool \<Rightarrow> unit wop" where
  "persist env doc a units x jid pipeline =
     (if \<not> distinct (map (un_id \<circ> snd) units) then raise_op (Raised IntegrityError)
      else then_op (persist_batches jid pipeline
             (chunk_row_of (pr_contract x) (doc_id doc) (pr_offsets x) units) (length (pr_chunks x)) (pr_chunks x) [])
        (\<lambda>rows. commit_staging (doc_id doc, a)
          \<lparr>ad_schema = [1], ad_metadata = artifact_metadata env doc a (pr_metadata x), ad_pages = pr_pages x,
           ad_text = pr_text x, ad_offsets = pr_offsets x, ad_units = map snd units, ad_chunks = rows,
           ad_embeddings = [], ad_fts = [], ad_index_tables = False\<rparr>))"

definition artifact_valid :: "prep_env \<Rightarrow> local_document \<Rightarrow> ident \<Rightarrow> artifact_db \<Rightarrow> bool" where
  "artifact_valid env doc a db \<longleftrightarrow> ad_schema db \<noteq> [] \<and> Max (set (ad_schema db)) = 1
     \<and> ad_chunks db \<noteq> [] \<and> length (ad_chunks db) = length (dedupe (map cr_index (ad_chunks db)))
     \<and> map_of (ad_metadata db) ''source_sha256'' = Some (doc_sha256 doc)
     \<and> map_of (ad_metadata db) ''profile_fingerprint'' = Some (pe_fingerprint env)
     \<and> map_of (ad_metadata db) ''artifact_id'' = Some a"

definition validate_staging :: "prep_env \<Rightarrow> local_document \<Rightarrow> ident \<Rightarrow> unit wop" where
  "validate_staging env doc a = step_op (\<lambda>w. case map_of (w_staging w) (doc_id doc, a) of
       Some (Some db) \<Rightarrow> if artifact_valid env doc a db then (Inr (), w)
         else (Inl (Raised (compute_exn PREPARATION_FAILED)), w)
     | _ \<Rightarrow> (Inl (Raised OtherException), w))"

text \<open>\<open>os.replace(staging, final)\<close>, which refuses a target that is not empty.\<close>

definition promote_staging :: "ident \<times> ident \<Rightarrow> unit wop" where
  "promote_staging p = file_op (\<lambda>w. case map_of (w_staging w) p of
       Some (Some db) \<Rightarrow> if p \<in> set (map fst (w_artifacts w)) then (Inl (Raised OSError), w)
         else (Inr (), w\<lparr>w_staging := filter (\<lambda>q. fst q \<noteq> p) (w_staging w),
                w_artifacts := w_artifacts w @ [(p, db)]\<rparr>)
     | _ \<Rightarrow> (Inl (Raised OSError), w))"

definition hash_artifact :: "prep_env \<Rightarrow> ident \<times> ident \<Rightarrow> string wop" where
  "hash_artifact env p = file_op (\<lambda>w. case map_of (w_artifacts w) p of
       None \<Rightarrow> (Inl (Raised OSError), w) | Some db \<Rightarrow> (Inr (pe_digest env db), w))"

text \<open>The foreign key of \<open>local_artifacts\<close> asks for the document.\<close>

definition insert_artifact :: "local_artifact \<Rightarrow> catalog \<Rightarrow> catalog option" where
  "insert_artifact r c =
     (if art_id r \<in> set (map art_id (cat_artifacts c)) \<or> get_document c (art_document r) = None then None
      else Some (c\<lparr>cat_artifacts := cat_artifacts c @ [r]\<rparr>))"

definition make_document_prepared :: "ident \<Rightarrow> ident \<Rightarrow> seconds \<Rightarrow> catalog \<Rightarrow> catalog" where
  "make_document_prepared d a now = update_document d (\<lambda>x. x\<lparr>doc_artifact := Some a,
     doc_state := DOC_PREPARED_NOT_INDEXED, doc_error := None, doc_updated := now\<rparr>)"

definition register_artifact ::
  "prep_env \<Rightarrow> bool \<Rightarrow> ident \<Rightarrow> ident \<Rightarrow> prepared_data \<Rightarrow> string \<Rightarrow> unit wop" where
  "register_artifact env activate d a x integrity = step_op (\<lambda>w.
     case insert_artifact \<lparr>art_id = a, art_document = d, art_profile_id = ''zkd-local-artifact-v1'',
         art_fingerprint = pe_fingerprint env, art_path = (d, a), art_state = ART_PREPARED_NOT_INDEXED,
         art_integrity = Some integrity, art_page_count = int (length (pr_pages x)),
         art_chunk_count = int (length (pr_chunks x)), art_created = w_clock w,
         art_promoted = Some (w_clock w)\<rparr> (w_catalog w) of
       None \<Rightarrow> (Inl (Raised IntegrityError), w)
     | Some c \<Rightarrow> (Inr (), w\<lparr>w_catalog := if activate then make_document_prepared d a (w_clock w) c else c\<rparr>))"

section \<open>The service\<close>

definition extract_stage :: "prep_env \<Rightarrow> ident \<Rightarrow> bool \<Rightarrow> ident \<Rightarrow> ident \<Rightarrow> bool \<Rightarrow> page_row list wop" where
  "extract_stage env jid pipeline d a activate =
     seq_op (mark_document activate d DOC_PROCESSING) (seq_op (update_prep_job jid ''EXTRACTING'' 5 pipeline)
       (seq_op (make_staging (d, a)) (seq_op (cancel_if_requested jid)
         (then_op (read_source d) (\<lambda>data. then_op (lift_result (extract_pages env data)) (\<lambda>pages.
           if pages = [] then raise_code PREPARATION_FAILED
           else seq_op (update_prep_job jid ''CLEANING'' 20 pipeline)
             (seq_op (cancel_if_requested jid) (return_op pages))))))))"

text \<open>The parser raises \<open>ValueError\<close> on an absurdly long number.\<close>

definition parse_document :: "prep_env \<Rightarrow> pytext \<Rightarrow> py_exn + legal_unit list" where
  "parse_document env t = (case parse (pe_unicode env) t of None \<Rightarrow> Inl OtherException | Some units \<Rightarrow> Inr units)"

type_synonym parsed_text = "(pytext \<times> offset_entry list) \<times> legal_unit list"

definition text_stage ::
  "prep_env \<Rightarrow> ident \<Rightarrow> bool \<Rightarrow> ident \<Rightarrow> bool \<Rightarrow> page_row list \<Rightarrow> parsed_text wop" where
  "text_stage env jid pipeline d activate pages =
     seq_op (update_prep_job jid ''RECONSTRUCTING'' 30 pipeline)
       (if py_strip (fst (normalized_text env pages)) = [] then raise_code UNSUPPORTED_TEXTLESS_PDF
        else seq_op (cancel_if_requested jid) (seq_op (mark_document activate d DOC_CHUNKING)
          (seq_op (update_prep_job jid ''PARSING'' 38 pipeline)
            (then_op (lift_result (parse_document env (fst (normalized_text env pages))))
              (\<lambda>units. return_op (normalized_text env pages, units))))))"

definition chunk_stage ::
  "prep_env \<Rightarrow> ident \<Rightarrow> bool \<Rightarrow> page_row list \<Rightarrow> parsed_text \<Rightarrow> prepared_data wop" where
  "chunk_stage env jid pipeline pages parsed = (let t = fst parsed; metadata = extract_metadata (pe_unicode env) (fst t) in
     seq_op (cancel_if_requested jid) (seq_op (update_prep_job jid ''CHUNKING'' 48 pipeline)
       (then_op (lift_result (token_contract env)) (\<lambda>contract.
         then_op (lift_result (make_chunks contract (fst t) (snd parsed) metadata)) (\<lambda>chunks.
           if chunks = [] then raise_code PREPARATION_FAILED
           else return_op \<lparr>pr_pages = pages, pr_text = fst t, pr_offsets = snd t,
             pr_metadata = metadata, pr_units = snd parsed, pr_contract = contract, pr_chunks = chunks\<rparr>)))))"

record prep_result =
  ps_job :: ident
  ps_document :: ident
  ps_artifact :: ident
  ps_page_count :: nat
  ps_chunk_count :: nat

definition store_stage ::
  "prep_env \<Rightarrow> ident \<Rightarrow> bool \<Rightarrow> local_document \<Rightarrow> ident \<Rightarrow> bool \<Rightarrow> prepared_data \<Rightarrow> prep_result wop" where
  "store_stage env jid pipeline doc a activate x =
     then_op (map_units_op (pr_offsets x) (pr_units x)) (\<lambda>units.
       seq_op (cancel_if_requested jid) (seq_op (mark_document activate (doc_id doc) DOC_VALIDATING)
         (seq_op (update_prep_job jid ''PERSISTING'' 70 pipeline) (seq_op (persist env doc a units x jid pipeline)
           (seq_op (cancel_if_requested jid) (seq_op (update_prep_job jid ''VALIDATING'' 92 pipeline)
             (seq_op (validate_staging env doc a) (seq_op (cancel_if_requested jid)
               (seq_op (promote_staging (doc_id doc, a)) (then_op (hash_artifact env (doc_id doc, a)) (\<lambda>integrity.
                 seq_op (register_artifact env activate (doc_id doc) a x integrity)
                   (seq_op (tx_do (if pipeline then update_job jid RUNNING ''PREPARED_NOT_INDEXED'' 60 None
                       else update_job jid SUCCEEDED ''PREPARED_NOT_INDEXED'' 100 None))
                     (return_op \<lparr>ps_job = jid, ps_document = doc_id doc, ps_artifact = a,
                        ps_page_count = length (pr_pages x), ps_chunk_count = length (pr_chunks x)\<rparr>)))))))))))))"

definition run_prepare ::
  "prep_env \<Rightarrow> ident \<Rightarrow> bool \<Rightarrow> local_document \<Rightarrow> ident \<Rightarrow> bool \<Rightarrow> prep_result wop" where
  "run_prepare env jid pipeline doc a activate =
     then_op (extract_stage env jid pipeline (doc_id doc) a activate) (\<lambda>pages.
       then_op (text_stage env jid pipeline (doc_id doc) activate pages) (\<lambda>t.
         then_op (chunk_stage env jid pipeline pages t) (\<lambda>x.
           store_stage env jid pipeline doc a activate x)))"

text \<open>The handlers: a document that has no active artifact becomes \<open>FAILED\<close>; another one keeps its state.\<close>

definition prepare_failed :: "ident \<Rightarrow> local_document \<Rightarrow> ident \<Rightarrow> py_exn \<Rightarrow> 'a wop" where
  "prepare_failed jid doc a x =
     (let e = (case x of Compute e \<Rightarrow> e | _ \<Rightarrow> compute_error PREPARATION_FAILED) in
      seq_op (remove_staging (doc_id doc, a)) (seq_op (end_job jid e)
        (seq_op (when_op (doc_artifact doc = None \<or> doc_artifact doc = Some [])
            (tx_do (set_document_state (doc_id doc) DOC_FAILED (Some (durable_code e)))))
          (raise_op (Raised (Compute e))))))"

definition prepare_job :: "ident \<Rightarrow> ident \<Rightarrow> ident option \<Rightarrow> ident wop" where
  "prepare_job d a jid = (case jid of
       None \<Rightarrow> then_op new_uuid (\<lambda>u.
         then_op (tx (\<lambda>now c. case enqueue_preparation d a now u c of
             None \<Rightarrow> (None, c) | Some (k, c') \<Rightarrow> (Some k, c'))) (\<lambda>r. case r of
           None \<Rightarrow> raise_op (Raised IntegrityError) | Some k \<Rightarrow> return_op k))
     | Some k \<Rightarrow> seq_op (tx_do (attach_artifact k a)) (return_op k))"

definition check_job :: "ident \<Rightarrow> ident option \<Rightarrow> unit wop" where
  "check_job d jid = (case jid of None \<Rightarrow> return_op ()
     | Some k \<Rightarrow> then_op (tx_get (\<lambda>c. get_job c k)) (\<lambda>j.
         if (case j of None \<Rightarrow> True | Some x \<Rightarrow> job_document x \<noteq> Some d) then raise_code INVALID_REQUEST
         else return_op ()))"

definition prepare_locked :: "prep_env \<Rightarrow> ident \<Rightarrow> ident option \<Rightarrow> bool \<Rightarrow> prep_result wop" where
  "prepare_locked env d job activate =
     then_op (tx_get (\<lambda>c. get_document c d)) (\<lambda>x. case x of
       None \<Rightarrow> raise_code DOCUMENT_NOT_FOUND
     | Some doc \<Rightarrow> seq_op (check_job d job) (seq_op (cleanup_stale_staging d)
         (then_op new_uuid (\<lambda>a. then_op (prepare_job d a job) (\<lambda>jid.
           try_except (run_prepare env jid (job \<noteq> None) doc a activate) (prepare_failed jid doc a))))))"

definition prepare :: "prep_env \<Rightarrow> ident \<Rightarrow> ident option \<Rightarrow> bool \<Rightarrow> prep_result wop" where
  "prepare env d job activate = with_lock d (prepare_locked env d job activate)"

section \<open>Preparation keeps the gate and stores what it computed\<close>

lemma update_document_row:
  assumes "x \<in> set (cat_documents (update_document d f c))"
  shows "\<exists>y \<in> set (cat_documents c). x = (if doc_id y = d then f y else y)"
proof -
  have "x \<in> set (update_where (\<lambda>x. doc_id x = d) f (cat_documents c))"
    using assms by (simp add: update_document_def)
  then show ?thesis unfolding set_update_where by (rule imageE) blast
qed

lemma find_append_Some: "find P xs = Some x \<Longrightarrow> find P (xs @ ys) = Some x"
  by (induction xs) (auto split: if_splits)

lemma update_document_safe:
  assumes "safe w" and "\<And>x. doc_id (f x) = doc_id x" and "\<And>x. doc_state (f x) \<noteq> DOC_INDEX_READY"
  shows "safe (w\<lparr>w_catalog := update_document d f (w_catalog w)\<rparr>)"
proof (rule safe_catalog [OF assms(1)])
  show "distinct (map doc_id (cat_documents (update_document d f (w_catalog w))))"
    using assms(1,2) by (simp add: safe_def wf_def)
  fix x assume x: "x \<in> set (cat_documents (update_document d f (w_catalog w)))" "doc_state x = DOC_INDEX_READY"
  then obtain y where "y \<in> set (cat_documents (w_catalog w))" "x = (if doc_id y = d then f y else y)"
    using update_document_row by blast
  then show "x \<in> set (cat_documents (w_catalog w))" using x(2) assms(3) by (auto split: if_splits)
qed (simp add: update_document_def)

lemma insert_artifact_safe:
  assumes s: "safe w" and i: "insert_artifact r (w_catalog w) = Some c" and p: "art_path r = (art_document r, art_id r)"
  shows "safe (w\<lparr>w_catalog := c\<rparr>)"
proof -
  have c: "c = (w_catalog w)\<lparr>cat_artifacts := cat_artifacts (w_catalog w) @ [r]\<rparr>"
    and new: "art_id r \<notin> set (map art_id (cat_artifacts (w_catalog w)))"
    using i by (auto simp: insert_artifact_def split: if_splits)
  have "get_artifact c a = Some x" if "get_artifact (w_catalog w) a = Some x" for a x
    using that by (simp add: get_artifact_def c find_append_Some)
  then have q: "queryable (w\<lparr>w_catalog := c\<rparr>) x" if "queryable w x" for x
    using that by (fastforce simp: queryable_def)
  have "wf (w\<lparr>w_catalog := c\<rparr>)" using s new p by (auto simp: safe_def wf_def c)
  with q s show ?thesis by (auto simp: safe_def gate_def c)
qed

text \<open>Assertions that do not look at the row of the document.\<close>

definition row_free :: "(doc_view \<Rightarrow> bool) \<Rightarrow> bool" where
  "row_free Q \<longleftrightarrow> (\<forall>v xs. Q (v\<lparr>dv_documents := xs\<rparr>) = Q v)"

lemma view_update_document:
  "view d (w\<lparr>w_catalog := update_document d f (w_catalog w)\<rparr>)
     = (view d w)\<lparr>dv_documents := filter (\<lambda>x. doc_id x = d) (cat_documents (update_document d f (w_catalog w)))\<rparr>"
  by (simp add: view_def update_document_def)

lemma owned_mark:
  assumes "row_free Q" and "st \<noteq> DOC_INDEX_READY"
  shows "triple (owns d Q) (mark_document activate d st) (\<lambda>_. owns d Q) (\<lambda>_. safe)"
proof (cases activate)
  case True
  have "triple (owns d Q) (tx_do (set_document_state d st None)) (\<lambda>_. owns d Q) (\<lambda>_. safe)"
    by (rule owned.triple_tx_do)
      (use assms in \<open>auto simp: owns_def set_document_state_safe set_document_state_def view_update_document row_free_def
          intro!: update_document_safe\<close>)
  with True show ?thesis by (simp add: mark_document_def when_op_def)
qed (simp add: mark_document_def when_op_def owned_return)

lemma owned_prep_job: "triple (owns d Q) (update_prep_job jid st p pipeline) (\<lambda>_. owns d Q) (\<lambda>_. safe)"
  unfolding update_prep_job_def by (rule owned_job_do) simp_all

lemma owned_lift_eq:
  "triple (owns d Q) (lift_result r) (\<lambda>x. owns d (\<lambda>v. Q v \<and> r = Inr x)) (\<lambda>_. safe)"
  by (cases r) (auto simp: lift_result_def intro: owned_raise owned_return)

lemma owned_file:
  assumes "\<And>w x w'. owns d Q w \<Longrightarrow> f w = (Inr x, w') \<Longrightarrow> owns d (R x) w'"
    and "\<And>w e w'. owns d Q w \<Longrightarrow> f w = (Inl e, w') \<Longrightarrow> w' = w"
  shows "triple (owns d Q) (file_op f) (\<lambda>x. owns d (R x)) (\<lambda>_. safe)"
  by (rule owned.triple_file) (use assms owns_safe in blast)+

lemma view_staging: "view d (w\<lparr>w_staging := ss\<rparr>) = (view d w)\<lparr>dv_staging := (\<lambda>a. map_of ss (d, a))\<rparr>"
  by (simp add: view_def)

lemma owned_make_staging: "triple (owns d (\<lambda>_. True)) (make_staging p) (\<lambda>_. owns d (\<lambda>_. True)) (\<lambda>_. safe)"
  unfolding make_staging_def by (rule owned_file) (auto simp: owns_def split: if_splits)

lemma owned_cleanup: "triple (owns d (\<lambda>_. True)) (cleanup_stale_staging d) (\<lambda>_. owns d (\<lambda>_. True)) (\<lambda>_. safe)"
  unfolding cleanup_stale_staging_def by (rule owned_file) (auto simp: owns_def)

lemma owned_read_source: "triple (owns d Q) (read_source d) (\<lambda>_. owns d Q) (\<lambda>_. safe)"
proof -
  have "triple (owns d Q) (file_op (\<lambda>w. case map_of (w_sources w) p of
           Some (Some data) \<Rightarrow> (Inr data, w) | _ \<Rightarrow> (Inl (Raised OSError), w))) (\<lambda>_. owns d Q) (\<lambda>_. safe)" for p
    by (rule owned_file) (auto split: option.splits)
  then show ?thesis unfolding read_source_def
    by (intro triple_then [OF owned_read]) (auto intro: owned_raise split: option.splits)
qed

lemma row_free_True [simp]: "row_free (\<lambda>_. True)" by (simp add: row_free_def)

lemma extract_stage_triple:
  "triple (owns d (\<lambda>_. True)) (extract_stage env jid pipeline d a activate)
     (\<lambda>pages. owns d (\<lambda>_. \<exists>data. extract_pages env data = Inr pages)) (\<lambda>_. safe)"
proof -
  have k: "triple (owns d (\<lambda>_. True)) (then_op (lift_result (extract_pages env data)) (\<lambda>pages.
           if pages = [] then raise_code PREPARATION_FAILED
           else seq_op (update_prep_job jid ''CLEANING'' 20 pipeline)
             (seq_op (cancel_if_requested jid) (return_op pages))))
      (\<lambda>pages. owns d (\<lambda>_. \<exists>data. extract_pages env data = Inr pages)) (\<lambda>_. safe)" for data
    by (rule triple_then [OF owned_lift_eq]) (auto intro!: owned_raise triple_seq [OF owned_prep_job]
        triple_seq [OF owned_cancel_check] owned_return)
  show ?thesis unfolding extract_stage_def
    by (intro triple_seq [OF owned_mark] triple_seq [OF owned_prep_job] triple_seq [OF owned_make_staging]
        triple_seq [OF owned_cancel_check] triple_then [OF owned_read_source k]) simp_all
qed

lemma text_stage_triple:
  assumes "row_free Q"
  shows "triple (owns d Q) (text_stage env jid pipeline d activate pages)
     (\<lambda>t. owns d (\<lambda>v. Q v \<and> fst t = normalized_text env pages \<and> parse_document env (fst (fst t)) = Inr (snd t))) (\<lambda>_. safe)"
  unfolding text_stage_def
  by (rule triple_seq [OF owned_prep_job]) (auto intro!: owned_raise triple_seq [OF owned_cancel_check]
      triple_seq [OF owned_mark [OF assms]] triple_seq [OF owned_prep_job] triple_then [OF owned_lift_eq] owned_return)

definition computed :: "prep_env \<Rightarrow> prepared_data \<Rightarrow> bool" where
  "computed env x \<longleftrightarrow> (\<exists>data. extract_pages env data = Inr (pr_pages x))
     \<and> (pr_text x, pr_offsets x) = normalized_text env (pr_pages x)
     \<and> pr_metadata x = extract_metadata (pe_unicode env) (pr_text x)
     \<and> parse (pe_unicode env) (pr_text x) = Some (pr_units x) \<and> token_contract env = Inr (pr_contract x)
     \<and> make_chunks (pr_contract x) (pr_text x) (pr_units x) (pr_metadata x) = Inr (pr_chunks x)
     \<and> pr_chunks x \<noteq> []"

lemma chunk_stage_triple:
  assumes "extract_pages env data = Inr pages"
  shows "triple (owns d (\<lambda>v. fst t = normalized_text env pages \<and> parse_document env (fst (fst t)) = Inr (snd t)))
     (chunk_stage env jid pipeline pages t) (\<lambda>x. owns d (\<lambda>_. computed env x)) (\<lambda>_. safe)"
  unfolding chunk_stage_def Let_def
  by (intro triple_seq [OF owned_cancel_check] triple_seq [OF owned_prep_job] triple_then [OF owned_lift_eq])
    (use assms in \<open>auto intro!: owned_raise owned_return simp: computed_def parse_document_def split: option.splits\<close>)

text \<open>What the artifact database holds for the data that was computed.\<close>

definition filed :: "prep_env \<Rightarrow> ident \<Rightarrow> prepared_data \<Rightarrow> artifact_db \<Rightarrow> bool" where
  "filed env d x db \<longleftrightarrow> ad_pages db = pr_pages x \<and> ad_text db = pr_text x \<and> ad_offsets db = pr_offsets x
     \<and> (\<exists>ids k units. units = fst (map_units ids (pr_offsets x) None k (pr_units x))
          \<and> ad_units db = map snd units
          \<and> list_all2 (\<lambda>c r. \<exists>i. r = chunk_row_of (pr_contract x) d (pr_offsets x) units i c) (pr_chunks x) (ad_chunks db))"

lemma chunk_rows_triple:
  "triple (owns d Q) (chunk_rows_op f cs) (\<lambda>rows. owns d (\<lambda>v. Q v \<and> list_all2 (\<lambda>c r. \<exists>i. r = f i c) cs rows)) (\<lambda>_. safe)"
  by (auto simp: triple_def chunk_rows_op_def owns_def list_all2_conv_all_nth)

lemma persist_batches_triple:
  assumes "list_all2 (\<lambda>c r. \<exists>i. r = f i c) cs acc" and "distinct (map cr_id acc)"
  shows "triple (owns d Q) (persist_batches jid pipeline f n rest acc)
     (\<lambda>rows. owns d (\<lambda>v. Q v \<and> distinct (map cr_id rows) \<and> list_all2 (\<lambda>c r. \<exists>i. r = f i c) (cs @ rest) rows)) (\<lambda>_. safe)"
  using assms
proof (induction jid pipeline f n rest acc arbitrary: cs rule: persist_batches.induct)
  case (1 jid pipeline f n rest acc)
  let ?R = "\<lambda>rows. owns d (\<lambda>v. Q v \<and> distinct (map cr_id rows) \<and> list_all2 (\<lambda>c r. \<exists>i. r = f i c) (cs @ rest) rows)"
  show ?case
  proof (cases "rest = []")
    case True
    then show ?thesis using "1.prems" by (subst persist_batches.simps) (simp add: owned_return)
  next
    case False
    have step: "triple (owns d (\<lambda>v. Q v \<and> list_all2 (\<lambda>c r. \<exists>i. r = f i c) (take persist_batch_size rest) rows))
       (let acc' = acc @ rows in
          if \<not> distinct (map cr_id acc') \<or> \<not> distinct (map cr_index acc') then raise_op (Raised IntegrityError)
          else seq_op (update_prep_job jid ''PERSISTING'' (70 + int (18 * length acc' div n)) pipeline)
            (persist_batches jid pipeline f n (drop persist_batch_size rest) acc')) ?R (\<lambda>_. safe)" for rows
    proof (rule owns_fact)
      assume l: "list_all2 (\<lambda>c r. \<exists>i. r = f i c) (take persist_batch_size rest) rows"
      show "triple (owns d Q) (let acc' = acc @ rows in
          if \<not> distinct (map cr_id acc') \<or> \<not> distinct (map cr_index acc') then raise_op (Raised IntegrityError)
          else seq_op (update_prep_job jid ''PERSISTING'' (70 + int (18 * length acc' div n)) pipeline)
            (persist_batches jid pipeline f n (drop persist_batch_size rest) acc')) ?R (\<lambda>_. safe)"
      proof (cases "\<not> distinct (map cr_id (acc @ rows)) \<or> \<not> distinct (map cr_index (acc @ rows))")
        case True
        then show ?thesis unfolding Let_def if_P [OF True] by (intro owned_raise)
      next
        case ok: False
        have "list_all2 (\<lambda>c r. \<exists>i. r = f i c) (cs @ take persist_batch_size rest) (acc @ rows)"
          using "1.prems"(1) l by (rule list_all2_appendI)
        from "1.IH" [OF False refl ok this] ok
        have "triple (owns d Q) (persist_batches jid pipeline f n (drop persist_batch_size rest) (acc @ rows)) ?R (\<lambda>_. safe)"
          by simp
        then show ?thesis unfolding Let_def if_not_P [OF ok] by (rule triple_seq [OF owned_prep_job])
      qed
    qed
    show ?thesis
      by (subst persist_batches.simps) (simp only: False if_False,
        intro triple_seq [OF owned_cancel_check] triple_then [OF chunk_rows_triple step])
  qed
qed

definition staged :: "ident \<Rightarrow> (artifact_db \<Rightarrow> bool) \<Rightarrow> doc_view \<Rightarrow> bool" where
  "staged a P v \<longleftrightarrow> (\<exists>db. dv_staging v a = Some (Some db) \<and> P db)"

lemma commit_triple:
  assumes "P db"
  shows "triple (owns d Q) (commit_staging (d, a) db) (\<lambda>_. owns d (staged a P)) (\<lambda>_. safe)"
  unfolding commit_staging_def
  by (rule owned.triple_step)
    (use assms in \<open>auto simp: owns_def staged_def view_staging update_conv' split: option.splits\<close>)

lemma persist_triple:
  assumes "units = fst (map_units ids (pr_offsets x) None k (pr_units x))" and "d = doc_id doc"
  shows "triple (owns d Q) (persist env doc a units x jid pipeline)
     (\<lambda>_. owns d (staged a (\<lambda>db. db_inv db \<and> filed env d x db))) (\<lambda>_. safe)"
proof (cases "distinct (map (un_id \<circ> snd) units)")
  case False
  then show ?thesis by (simp add: persist_def owned_raise)
next
  case True
  have b: "triple (owns d Q) (persist_batches jid pipeline (chunk_row_of (pr_contract x) d (pr_offsets x) units)
      (length (pr_chunks x)) (pr_chunks x) [])
      (\<lambda>rows. owns d (\<lambda>v. Q v \<and> (distinct (map cr_id rows)
         \<and> list_all2 (\<lambda>c r. \<exists>i. r = chunk_row_of (pr_contract x) d (pr_offsets x) units i c) (pr_chunks x) rows))) (\<lambda>_. safe)"
    using persist_batches_triple [of _ "[]" "[]"] by simp
  show ?thesis
    unfolding persist_def assms(2) [symmetric] using True
    by (simp only: not_True_eq_False if_False) (rule triple_then [OF b], rule owns_fact, rule commit_triple,
      use assms in \<open>auto simp: filed_def db_inv_def embedded_def index_meta_def artifact_metadata_def\<close>)
qed

lemma row_free_staged [simp]: "row_free (staged a P)"
  by (simp add: row_free_def staged_def)

lemma validate_triple: "triple (owns d Q) (validate_staging env doc a) (\<lambda>_. owns d Q) (\<lambda>_. safe)"
  unfolding validate_staging_def
  by (rule owned.triple_step) (auto split: option.splits if_splits dest: owns_safe)

definition placed :: "ident \<Rightarrow> (artifact_db \<Rightarrow> bool) \<Rightarrow> doc_view \<Rightarrow> bool" where
  "placed a P v \<longleftrightarrow> (\<exists>db. dv_files v a = Some db \<and> P db)"

lemma place_safe:
  assumes s: "safe w" and "db_inv db" and new: "p \<notin> set (map fst (w_artifacts w))"
  shows "safe (w\<lparr>w_artifacts := w_artifacts w @ [(p, db)]\<rparr>)"
proof -
  have m: "map_of (w_artifacts w @ [(p, db)]) q = Some x" if "map_of (w_artifacts w) q = Some x" for q x
    using that by (simp add: map_add_Some_iff map_of_append)
  have "wf (w\<lparr>w_artifacts := w_artifacts w @ [(p, db)]\<rparr>)" using assms by (auto simp: safe_def wf_def)
  moreover have "queryable (w\<lparr>w_artifacts := w_artifacts w @ [(p, db)]\<rparr>) x" if "queryable w x" for x
    using that m by (fastforce simp: queryable_def)
  ultimately show ?thesis using s by (auto simp: safe_def gate_def)
qed

lemma promote_triple:
  "triple (owns d (staged a (\<lambda>db. db_inv db \<and> P db))) (promote_staging (d, a)) (\<lambda>_. owns d (placed a P)) (\<lambda>_. safe)"
  unfolding promote_staging_def
proof (rule owned_file)
  fix w x w'
  assume o: "owns d (staged a (\<lambda>db. db_inv db \<and> P db)) w" and e: "(case map_of (w_staging w) (d, a) of
       Some (Some db) \<Rightarrow> if (d, a) \<in> set (map fst (w_artifacts w)) then (Inl (Raised OSError), w)
         else (Inr (), w\<lparr>w_staging := filter (\<lambda>q. fst q \<noteq> (d, a)) (w_staging w),
                w_artifacts := w_artifacts w @ [((d, a), db)]\<rparr>)
     | _ \<Rightarrow> (Inl (Raised OSError), w)) = (Inr x, w')"
  then obtain db where db: "map_of (w_staging w) (d, a) = Some (Some db)" "db_inv db" "P db"
    "(d, a) \<notin> set (map fst (w_artifacts w))"
    "w' = w\<lparr>w_staging := filter (\<lambda>q. fst q \<noteq> (d, a)) (w_staging w), w_artifacts := w_artifacts w @ [((d, a), db)]\<rparr>"
    by (auto simp: owns_def staged_def view_def split: option.splits if_splits)
  have "safe (w\<lparr>w_staging := filter (\<lambda>q. fst q \<noteq> (d, a)) (w_staging w)\<rparr>)" using o by (simp add: owns_def)
  from place_safe [OF this db(2), of "(d, a)"] db(4) have "safe w'" by (simp add: db(5))
  moreover have "map_of (w_artifacts w) (d, a) = None" using db(4) by (simp add: map_of_eq_None_iff)
  ultimately show "owns d (placed a P) w'"
    using o db(3) by (simp add: owns_def placed_def view_def db(5) map_add_def)
qed (auto split: option.splits if_splits)

lemma hash_triple: "triple (owns d Q) (hash_artifact env p) (\<lambda>_. owns d Q) (\<lambda>_. safe)"
  unfolding hash_artifact_def by (rule owned_file) (auto split: option.splits)

definition awaits_index :: "ident \<Rightarrow> doc_view \<Rightarrow> bool" where
  "awaits_index a v \<longleftrightarrow> dv_documents v \<noteq> [] \<and>
     (\<forall>x \<in> set (dv_documents v). doc_state x = DOC_PREPARED_NOT_INDEXED \<and> doc_artifact x = Some a)"

lemma make_prepared_row:
  assumes "x \<in> set (cat_documents (make_document_prepared d a now c))" and "doc_id x = d"
  shows "doc_state x = DOC_PREPARED_NOT_INDEXED \<and> doc_artifact x = Some a"
proof -
  let ?f = "\<lambda>x. x\<lparr>doc_artifact := Some a, doc_state := DOC_PREPARED_NOT_INDEXED, doc_error := None, doc_updated := now\<rparr>"
  obtain y where "x = (if doc_id y = d then ?f y else y)"
    using update_document_row [OF assms(1) [unfolded make_document_prepared_def]] by blast
  then show ?thesis using assms(2) by (cases "doc_id y = d") simp_all
qed

lemma make_prepared_ids [simp]:
  "map doc_id (cat_documents (make_document_prepared d a now c)) = map doc_id (cat_documents c)"
  by (simp add: make_document_prepared_def)

lemma register_triple:
  "triple (owns d (placed a P)) (register_artifact env activate d a x integrity)
     (\<lambda>_. owns d (\<lambda>v. placed a P v \<and> owned_row a v \<and> (activate \<longrightarrow> awaits_index a v))) (\<lambda>_. safe)"
proof -
  define row where "row w = \<lparr>art_id = a, art_document = d, art_profile_id = ''zkd-local-artifact-v1'',
         art_fingerprint = pe_fingerprint env, art_path = (d, a), art_state = ART_PREPARED_NOT_INDEXED,
         art_integrity = Some integrity, art_page_count = int (length (pr_pages x)),
         art_chunk_count = int (length (pr_chunks x)), art_created = w_clock w,
         art_promoted = Some (w_clock w)\<rparr>" for w :: world
  show ?thesis
    unfolding register_artifact_def row_def [symmetric]
  proof (rule owned.triple_step)
    fix w u w'
    assume o: "owns d (placed a P) w" and e: "(case insert_artifact (row w) (w_catalog w) of
       None \<Rightarrow> (Inl (Raised IntegrityError), w)
     | Some c \<Rightarrow> (Inr (), w\<lparr>w_catalog := if activate then make_document_prepared d a (w_clock w) c else c\<rparr>)) = (Inr u, w')"
    then obtain c where i: "insert_artifact (row w) (w_catalog w) = Some c"
      and w': "w' = w\<lparr>w_catalog := if activate then make_document_prepared d a (w_clock w) c else c\<rparr>"
      by (auto split: option.splits)
    have c: "c = (w_catalog w)\<lparr>cat_artifacts := cat_artifacts (w_catalog w) @ [row w]\<rparr>"
      and doc: "get_document (w_catalog w) d \<noteq> None"
      using i by (auto simp: insert_artifact_def row_def split: if_splits)
    have s1: "safe (w\<lparr>w_catalog := c\<rparr>)" using o by (intro insert_artifact_safe [OF _ i]) (simp_all add: owns_def row_def)
    have "safe w'"
      using s1 update_document_safe [OF s1, of "\<lambda>x. x\<lparr>doc_artifact := Some a, doc_state := DOC_PREPARED_NOT_INDEXED,
          doc_error := None, doc_updated := w_clock w\<rparr>" d]
      by (simp add: w' make_document_prepared_def)
    moreover have "cat_artifacts (w_catalog w') = cat_artifacts (w_catalog w) @ [row w]"
      by (simp add: w' c make_document_prepared_def update_document_def)
    then have "owned_row a (view d w')" by (simp add: owned_row_def view_def row_def)
    moreover have "placed a P (view d w')" using o by (simp add: owns_def placed_def view_def w')
    moreover have "awaits_index a (view d w')" if activate
    proof -
      have "d \<in> set (map doc_id (cat_documents c))"
        using doc by (auto simp: c get_document_def find_None_iff)
      then have "d \<in> set (map doc_id (cat_documents (w_catalog w')))" using that by (simp add: w' del: set_map)
      then have "dv_documents (view d w') \<noteq> []" by (simp add: view_def filter_key_nonempty del: set_map)
      then show ?thesis using that make_prepared_row [of _ d a "w_clock w" c] by (auto simp: awaits_index_def view_def w')
    qed
    ultimately show "owns d (\<lambda>v. placed a P v \<and> owned_row a v \<and> (activate \<longrightarrow> awaits_index a v)) w'"
      using o by (simp add: owns_def w')
  qed (auto split: option.splits dest: owns_safe)
qed

lemma map_units_triple:
  "triple (owns d Q) (map_units_op offsets us) (\<lambda>units. owns d (\<lambda>v. Q v \<and>
     (\<exists>ids k. units = fst (map_units ids offsets None k us)))) (\<lambda>_. safe)"
proof -
  have "units = fst (map_units (w_uuid w) offsets None (w_next w) us)"
    if "map_units (w_uuid w) offsets None (w_next w) us = (units, k)" for units k w using that by simp
  then show ?thesis by (fastforce simp: triple_def map_units_op_def owns_def split: prod.splits)
qed

definition prepared :: "prep_env \<Rightarrow> ident \<Rightarrow> bool \<Rightarrow> prep_result \<Rightarrow> doc_view \<Rightarrow> bool" where
  "prepared env d activate r v \<longleftrightarrow> (\<exists>x. computed env x \<and> ps_page_count r = length (pr_pages x)
     \<and> ps_chunk_count r = length (pr_chunks x) \<and> placed (ps_artifact r) (filed env d x) v
     \<and> owned_row (ps_artifact r) v \<and> (activate \<longrightarrow> awaits_index (ps_artifact r) v))"

lemma store_stage_triple:
  assumes "computed env x" and "d = doc_id doc"
  shows "triple (owns d (\<lambda>_. True)) (store_stage env jid pipeline doc a activate x)
     (\<lambda>r. owns d (prepared env d activate r)) (\<lambda>_. safe)"
proof -
  let ?S = "staged a (\<lambda>db. db_inv db \<and> filed env d x db)"
  let ?T = "\<lambda>v. placed a (filed env d x) v \<and> owned_row a v \<and> (activate \<longrightarrow> awaits_index a v)"
  have done': "triple (owns d ?T) (seq_op (tx_do (if pipeline then update_job jid RUNNING ''PREPARED_NOT_INDEXED'' 60 None
                       else update_job jid SUCCEEDED ''PREPARED_NOT_INDEXED'' 100 None))
                     (return_op \<lparr>ps_job = jid, ps_document = d, ps_artifact = a,
                        ps_page_count = length (pr_pages x), ps_chunk_count = length (pr_chunks x)\<rparr>))
      (\<lambda>r. owns d (prepared env d activate r)) (\<lambda>_. safe)"
    by (rule triple_seq [OF owned_job_do]) (use assms(1) in \<open>auto intro!: owned_return simp: prepared_def\<close>)
  have "triple (owns d (\<lambda>_. True)) (seq_op (cancel_if_requested jid) (seq_op (mark_document activate d DOC_VALIDATING)
         (seq_op (update_prep_job jid ''PERSISTING'' 70 pipeline) (seq_op (persist env doc a units x jid pipeline)
           (seq_op (cancel_if_requested jid) (seq_op (update_prep_job jid ''VALIDATING'' 92 pipeline)
             (seq_op (validate_staging env doc a) (seq_op (cancel_if_requested jid)
               (seq_op (promote_staging (d, a)) (then_op (hash_artifact env (d, a)) (\<lambda>integrity.
                 seq_op (register_artifact env activate d a x integrity)
                   (seq_op (tx_do (if pipeline then update_job jid RUNNING ''PREPARED_NOT_INDEXED'' 60 None
                       else update_job jid SUCCEEDED ''PREPARED_NOT_INDEXED'' 100 None))
                     (return_op \<lparr>ps_job = jid, ps_document = d, ps_artifact = a,
                        ps_page_count = length (pr_pages x), ps_chunk_count = length (pr_chunks x)\<rparr>)))))))))))))
      (\<lambda>r. owns d (prepared env d activate r)) (\<lambda>_. safe)"
    if u: "units = fst (map_units ids (pr_offsets x) None k (pr_units x))" for units ids k
    by (intro triple_seq [OF owned_cancel_check] triple_seq [OF owned_mark] triple_seq [OF owned_prep_job]
        triple_seq [OF persist_triple [OF u assms(2)]] triple_seq [OF validate_triple] triple_seq [OF promote_triple]
        triple_then [OF hash_triple] triple_seq [OF register_triple] done') simp_all
  then show ?thesis unfolding store_stage_def assms(2) [symmetric]
    by (intro triple_then [OF map_units_triple] owns_fact) auto
qed

lemma run_prepare_triple:
  assumes "d = doc_id doc"
  shows "triple (owns d (\<lambda>_. True)) (run_prepare env jid pipeline doc a activate)
     (\<lambda>r. owns d (prepared env d activate r)) (\<lambda>_. safe)"
proof -
  have chunks: "triple (owns d (\<lambda>v. (\<exists>data. extract_pages env data = Inr pages) \<and> fst t = normalized_text env pages
        \<and> parse_document env (fst (fst t)) = Inr (snd t)))
      (chunk_stage env jid pipeline pages t) (\<lambda>x. owns d (\<lambda>_. computed env x)) (\<lambda>_. safe)" for pages t
  proof (cases "\<exists>data. extract_pages env data = Inr pages")
    case True
    then obtain data where "extract_pages env data = Inr pages" ..
    from chunk_stage_triple [OF this] show ?thesis by (rule owns_pre) metis
  next
    case False
    then show ?thesis by (simp add: triple_def owns_def)
  qed
  have store: "triple (owns d (\<lambda>_. computed env x)) (store_stage env jid pipeline doc a activate x)
     (\<lambda>r. owns d (prepared env d activate r)) (\<lambda>_. safe)" for x
  proof (cases "computed env x")
    case True
    from store_stage_triple [OF this assms] show ?thesis by (rule owns_pre) simp
  next
    case False
    then show ?thesis by (simp add: triple_def owns_def)
  qed
  show ?thesis unfolding run_prepare_def assms [symmetric]
    by (intro triple_then [OF extract_stage_triple] triple_then [OF text_stage_triple] triple_then [OF chunks] store)
      (simp add: row_free_def)
qed

lemma prepare_failed_triple: "triple safe (prepare_failed jid doc a x) Q (\<lambda>_. safe)"
proof (rule raising)
  show "keeps safe (prepare_failed jid doc a x)"
    unfolding prepare_failed_def Let_def remove_staging_def
    by (intro keeps_seq keeps_modify end_job_keeps keeps_when gate.keeps_tx_do set_document_state_safe keeps_raise) simp_all
  fix w show "\<exists>e w'. prepare_failed jid doc a x w = (Inl e, w')"
    unfolding prepare_failed_def Let_def by (intro seq_raises) simp
qed

lemma enqueue_preparation_other:
  assumes "enqueue_preparation d a now i c = Some (k, c')"
  shows "cat_artifacts c' = cat_artifacts c" "cat_documents c' = cat_documents c"
  using assms by (auto simp: enqueue_preparation_def insert_job_def split: if_splits)

lemma prepare_job_triple: "triple (owns d Q) (prepare_job d a job) (\<lambda>_. owns d Q) (\<lambda>_. safe)"
proof (cases job)
  case None
  have "triple (owns d Q) (tx (\<lambda>now c. case enqueue_preparation d a now u c of
             None \<Rightarrow> (None, c) | Some (k, c') \<Rightarrow> (Some k, c'))) (\<lambda>_. owns d Q) (\<lambda>_. safe)" for u
    by (rule owned.triple_tx)
      (auto split: option.splits prod.splits simp: owns_def safe_same view_same enqueue_preparation_other)
  then show ?thesis unfolding prepare_job_def None option.case
    by (intro triple_then [OF owned_new_uuid] triple_then) (auto split: option.splits intro!: owned_raise owned_return)
next
  case (Some k)
  show ?thesis unfolding prepare_job_def Some option.case
    by (intro triple_seq [OF owned_job_do] owned_return) simp_all
qed

lemma check_job_triple: "triple (owns d Q) (check_job d job) (\<lambda>_. owns d Q) (\<lambda>_. safe)"
  unfolding check_job_def
  by (auto split: option.splits intro!: owned_return triple_then [OF owned_read] owned_raise)

lemma prepare_triple:
  "triple safe (prepare env d job activate) (\<lambda>r w. safe w \<and> prepared env d activate r (view d w)) (\<lambda>_. safe)"
  unfolding prepare_def
proof (rule with_lock_triple)
  have body: "triple (owns d (\<lambda>_. True)) (seq_op (check_job d job) (seq_op (cleanup_stale_staging d)
         (then_op new_uuid (\<lambda>a. then_op (prepare_job d a job) (\<lambda>jid.
           try_except (run_prepare env jid (job \<noteq> None) doc a activate) (prepare_failed jid doc a))))))
      (\<lambda>r. owns d (prepared env d activate r)) (\<lambda>_. safe)" if "d = doc_id doc" for doc
    by (intro triple_seq [OF check_job_triple] triple_seq [OF owned_cleanup] triple_then [OF owned_new_uuid]
        triple_then [OF prepare_job_triple] triple_try [OF run_prepare_triple [OF that] prepare_failed_triple])
  have get: "triple (owns d (\<lambda>_. True)) (tx_get (\<lambda>c. get_document c d))
      (\<lambda>x. owns d (\<lambda>_. x \<noteq> None \<longrightarrow> d = doc_id (the x))) (\<lambda>_. safe)"
    by (rule owned.triple_tx_get) (auto simp: owns_def dest: get_document_SomeD)
  show "triple (owns d (\<lambda>_. True)) (prepare_locked env d job activate) (\<lambda>r. owns d (prepared env d activate r)) (\<lambda>_. safe)"
    unfolding prepare_locked_def
  proof (rule triple_then [OF get])
    fix x
    show "triple (owns d (\<lambda>_. x \<noteq> None \<longrightarrow> d = doc_id (the x))) (case x of None \<Rightarrow> raise_code DOCUMENT_NOT_FOUND
     | Some doc \<Rightarrow> seq_op (check_job d job) (seq_op (cleanup_stale_staging d)
         (then_op new_uuid (\<lambda>a. then_op (prepare_job d a job) (\<lambda>jid.
           try_except (run_prepare env jid (job \<noteq> None) doc a activate) (prepare_failed jid doc a))))))
       (\<lambda>r. owns d (prepared env d activate r)) (\<lambda>_. safe)"
    proof (cases x)
      case (Some doc)
      show ?thesis
      proof (cases "d = doc_id doc")
        case True
        show ?thesis unfolding Some option.case by (rule owns_pre [OF body [OF True]]) simp
      qed (simp add: Some triple_def owns_def)
    qed (simp add: owned_raise)
  qed
qed

text \<open>
  C10. What a preparation leaves behind. Under every schedule of failures, deaths and actions of other
  threads, preparing a document never makes an incomplete document queryable. When the call returns,
  the artifact file exists, belongs to the document, and holds exactly the pages, the normalised text
  and the offsets of the extracted PDF and one row per chunk of the chunker, in order, with the pages
  of its characters; an activated document points to it and waits for its index.
\<close>

theorem prepare_sound:
  assumes "safe w" and "prepare env d job activate w = (r, w')"
  shows "safe w' \<and> (case r of Inl _ \<Rightarrow> True | Inr res \<Rightarrow> prepared env d activate res (view d w'))"
  using tripleD [OF prepare_triple assms] by (auto split: sum.splits)


section \<open>A concrete preparation\<close>

definition sample_env :: prep_env where
  "sample_env = \<lparr>pe_open = (\<lambda>_. Some (False, [Some [65]])), pe_unicode = sample_unicode,
     pe_files = \<lparr>ft_exists = (\<lambda>_. True), ft_is_file = (\<lambda>_. True), ft_is_dir = (\<lambda>_. True), ft_read = (\<lambda>_. Some ''r'')\<rparr>,
     pe_cache_dir = ''m'', pe_tokenizer = Tokenizer char_tokenizer 512 True,
     pe_dumps = (\<lambda>_. []), pe_digest = (\<lambda>_. ''h''), pe_fingerprint = ''f'', pe_page_max = 100, pe_total_max = 100\<rparr>"

definition accepted_world :: world where
  "accepted_world = sample_world\<lparr>w_catalog := empty_catalog\<lparr>cat_documents := [sample_document\<lparr>doc_state := DOC_ACCEPTED,
     doc_artifact := None\<rparr>]\<rparr>, w_sources := [(source_path ''d1'', Some [37])], w_artifacts := []\<rparr>"

lemma accepted_safe: "safe accepted_world"
  by (simp add: safe_def wf_def gate_def accepted_world_def sample_document_def empty_catalog_def)

lemma sample_contract: "token_contract sample_env = Inr \<lparr>ec_tokenizer = char_tokenizer, ec_max_tokens = 512\<rparr>"
  by (simp add: token_contract_def validate_canonical_e5_artifact_def sample_env_def get_e5_input_contract_def Let_def
    strip_by_def py_space_def required_snapshot_files_def)

lemma sample_text: "normalized_text sample_env [\<lparr>pg_number = 1, pg_text = [65], pg_chars = 1\<rparr>] = ([65], [\<lparr>of_page = 1, of_start = 0, of_end = 1\<rparr>])"
  by (simp add: normalized_text_def sample_env_def sample_unicode_def clean_page_def clean_line_def normalize_newlines.simps
   strip_by_def py_space_def collapse_runs.simps remove_headers_footers_def strip_page_numbers_def page_number_line_def skip_trang_def
   reconstruct_def Let_def)

definition sample_root :: legal_unit where
  "sample_root = Legal_Unit ''PREAMBLE'' [] (ascii ''Preamble'') 0 1 0 []"

lemma sample_parse: "parse_document sample_env [65] = Inr [sample_root]"
  by (simp add: parse_document_def sample_env_def parse_run sample_unicode_def sample_root_def)

lemma sample_units: "map_units ids offsets parent k [sample_root] = ([(sample_root,
    \<lparr>un_id = ids k, un_parent = parent, un_type = ''PREAMBLE'', un_number = [], un_title = ascii ''Preamble'', un_start = 0, un_end = 1,
     un_page_start = page_of 0 offsets, un_page_end = page_of 1 offsets, un_level = 0\<rparr>)], Suc k)"
  by (simp add: sample_root_def)

definition sample_metadata :: doc_metadata where
  "sample_metadata = [(''document_type'', None), (''document_number'', None), (''issuing_authority'', None),
     (''issued_date'', None), (''title'', None)]"

lemma sample_extract: "extract_metadata sample_unicode [65] = sample_metadata"
  by (simp add: extract_metadata_def sample_metadata_def document_type_def document_number_def issuing_authority_def
      issued_date_def document_title_def word_pattern_def number_pattern_def date_pattern_def title_pattern_def
      decree_caps_def law_caps_def decision_caps_def government_caps_def assembly_caps_def starts_with_def
      sample_unicode_def parse_run)

lemma sample_chunks: "make_chunks \<lparr>ec_tokenizer = char_tokenizer, ec_max_tokens = 512\<rparr>
   [65] [sample_root] sample_metadata = Inr [\<lparr>cd_unit = sample_root,
     cd_content = [65], cd_embedding = [65], cd_start = 0, cd_end = 1, cd_split = None, cd_index = 0\<rparr>]"
  by (simp add: make_chunks_def default_chunker_def generate_chunks_eq own_chunks_def own_span_def trim_span_def slice_def
     normal_candidates_def candidate_chunks_def Let_def fits_def count_final_tokens_def build_context_def embedding_text_def py_space_def
     passage_prefix_def number_chunks_def unit_part_def get_default_def sample_root_def sample_metadata_def char_tokenizer_def)

lemma sample_fields [simp]:
  "pe_open sample_env b = Some (False, [Some [65]])" "pe_page_max sample_env = 100" "pe_total_max sample_env = 100"
  "pe_unicode sample_env = sample_unicode"
  "pe_digest sample_env db = ''h''" "pe_fingerprint sample_env = ''f''" "pe_dumps sample_env m = []"
  by (simp_all add: sample_env_def)

lemma sample_pages: "extract_pages sample_env b = Inr [\<lparr>pg_number = 1, pg_text = [65], pg_chars = 1\<rparr>]"
  by (simp add: extract_pages_def)

lemma sample_prepare: "\<exists>r w'. prepare sample_env ''d1'' None True accepted_world = (Inr r, w')"
  by (simp add: run_defs prepare_def prepare_locked_def accepted_world_def sample_world_def get_document_def sample_document_def empty_catalog_def
   check_job_def cleanup_stale_staging_def file_op_def prepare_job_def enqueue_preparation_def insert_job_def run_prepare_def extract_stage_def
   mark_document_def update_prep_job_def make_staging_def read_source_def lift_result_def sample_pages text_stage_def sample_text [unfolded One_nat_def] sample_parse sample_extract sample_units
   chunk_stage_def sample_contract sample_chunks [unfolded One_nat_def] store_stage_def persist_def persist_batches.simps chunk_rows_op_def
   map_units_op_def commit_staging_def validate_staging_def artifact_valid_def promote_staging_def hash_artifact_def
   register_artifact_def insert_artifact_def make_document_prepared_def artifact_metadata_def Let_def
    update_jobs_def is_cancel_requested_def get_job_def get_artifact_def set_document_state_def update_document_def
    update_job_def persist_batch_size_def chunk_row_of_def strip_by_def py_space_def)

theorem prepare_sound_witness:
  "\<exists>r w'. prepare sample_env ''d1'' None True accepted_world = (Inr r, w') \<and> safe w'
     \<and> prepared sample_env ''d1'' True r (view ''d1'' w')"
proof -
  obtain r w' where run: "prepare sample_env ''d1'' None True accepted_world = (Inr r, w')"
    using sample_prepare by blast
  from prepare_sound [OF accepted_safe this] run show ?thesis by auto
qed


end
