(* ===== verification/Pipeline.thy ===== *)
theory Pipeline
  imports Preparation
begin

text \<open>
  The background worker (\<open>app/local_compute/pipeline.py\<close>): it claims the oldest queued pipeline,
  prepares and indexes the document, and contains every failure. A life of the process is its start
  (the reconciliation of interrupted jobs) and some turns of the worker loop; it may end at any
  boundary. Threads and waiting times are not modelled.
\<close>

section \<open>The worker\<close>

definition fail_job :: "ident \<Rightarrow> error_code \<Rightarrow> unit wop" where
  "fail_job jid c = tx_do (update_job jid FAILED ''FAILED'' 100 (Some (code_value c)))"

definition cancel_job_row :: "ident \<Rightarrow> unit wop" where
  "cancel_job_row jid = tx_do (update_job jid CANCELLED ''CANCELLED'' 100 (Some (code_value JOB_CANCELLED)))"

text \<open>What the handlers do to a job that the services have not ended themselves.\<close>

definition close_open_job :: "ident \<Rightarrow> unit wop \<Rightarrow> unit wop" where
  "close_open_job jid m = then_op (tx_get (\<lambda>c. get_job c jid)) (\<lambda>j.
     when_op (case j of None \<Rightarrow> False | Some x \<Rightarrow> active_state (job_state x)) m)"

definition truthy :: "ident option \<Rightarrow> bool" where
  "truthy a \<longleftrightarrow> a \<noteq> None \<and> a \<noteq> Some []"

definition prepare_and_index ::
  "prep_env \<Rightarrow> py_exn + embedder \<Rightarrow> int \<Rightarrow> ident \<Rightarrow> ident \<Rightarrow> unit wop" where
  "prepare_and_index env load b d jid = then_op (prepare env d (Some jid) True) (\<lambda>r.
     seq_op (cancel_if_requested jid)
       (seq_op (when_op (ps_artifact r \<noteq> []) (tx_do (attach_artifact jid (ps_artifact r))))
         (seq_op (index_document load b d (Some jid) None True None) (return_op ()))))"

text \<open>The four cases of \<open>_process\<close>.\<close>

definition process_document_state ::
  "prep_env \<Rightarrow> py_exn + embedder \<Rightarrow> int \<Rightarrow> ident \<Rightarrow> ident \<Rightarrow> local_document \<Rightarrow> unit wop" where
  "process_document_state env load b d jid doc =
     (case (if truthy (doc_artifact doc) then doc_artifact doc else None) of
        None \<Rightarrow> prepare_and_index env load b d jid
      | Some a \<Rightarrow>
          if doc_state doc = DOC_INDEX_READY
          then seq_op (tx_do (attach_artifact jid a)) (tx_do (update_job jid SUCCEEDED ''INDEX_READY'' 100 None))
          else seq_op (when_op (doc_state doc = DOC_INDEXING) (tx_do (set_document_state d DOC_PREPARED_NOT_INDEXED None)))
            (if doc_state doc = DOC_INDEXING \<or> doc_state doc = DOC_PREPARED_NOT_INDEXED
             then seq_op (tx_do (attach_artifact jid a))
               (seq_op (index_document load b d (Some jid) None True None) (return_op ()))
             else prepare_and_index env load b d jid))"

definition process_failed :: "ident \<Rightarrow> py_exn \<Rightarrow> unit wop" where
  "process_failed jid x = close_open_job jid (case x of
       Compute e \<Rightarrow> if err_code e = JOB_CANCELLED then cancel_job_row jid else fail_job jid (err_code e)
     | _ \<Rightarrow> fail_job jid INTERNAL_COMPUTE_ERROR)"

definition process :: "prep_env \<Rightarrow> py_exn + embedder \<Rightarrow> int \<Rightarrow> local_job \<Rightarrow> unit wop" where
  "process env load b j = (let jid = job_id j in
     if \<not> truthy (job_document j) then fail_job jid INVALID_REQUEST
     else let d = the (job_document j) in
       then_op (tx_get (\<lambda>c. is_cancel_requested c jid)) (\<lambda>cancelled.
         if cancelled then cancel_job_row jid
         else then_op (tx_get (\<lambda>c. get_document c d)) (\<lambda>doc. case doc of
             None \<Rightarrow> fail_job jid DOCUMENT_NOT_FOUND
           | Some x \<Rightarrow> try_except (process_document_state env load b d jid x) (process_failed jid))))"

text \<open>One turn of \<open>_run\<close>. A failing claim is retried at the next turn.\<close>

definition contain :: "ident \<Rightarrow> unit wop" where
  "contain jid = try_except (close_open_job jid (fail_job jid INTERNAL_COMPUTE_ERROR)) (\<lambda>_. return_op ())"

definition worker_turn :: "prep_env \<Rightarrow> py_exn + embedder \<Rightarrow> int \<Rightarrow> unit wop" where
  "worker_turn env load b =
     then_op (try_except (tx claim_next_pipeline) (\<lambda>_. return_op None)) (\<lambda>j. case j of
         None \<Rightarrow> return_op ()
       | Some x \<Rightarrow> try_except (process env load b x) (\<lambda>_. contain (job_id x)))"

fun worker_turns :: "prep_env \<Rightarrow> py_exn + embedder \<Rightarrow> int \<Rightarrow> nat \<Rightarrow> unit wop" where
  "worker_turns env load b 0 = return_op ()"
| "worker_turns env load b (Suc n) = seq_op (worker_turn env load b) (worker_turns env load b n)"

definition start_worker :: "nat wop" where
  "start_worker = tx reconcile_interrupted"

definition life :: "prep_env \<Rightarrow> py_exn + embedder \<Rightarrow> int \<Rightarrow> nat \<Rightarrow> unit wop" where
  "life env load b n = seq_op start_worker (worker_turns env load b n)"

section \<open>The gate holds over all lives\<close>

lemma keeps_of_triple: "triple safe m Q (\<lambda>_. safe) \<Longrightarrow> (\<And>x w. Q x w \<Longrightarrow> safe w) \<Longrightarrow> keeps safe m"
  by (rule triple_keeps) (auto elim: triple_weaken)

lemma prepare_keeps: "keeps safe (prepare env d job activate)"
  by (rule keeps_of_triple [OF prepare_triple]) simp

lemma index_keeps: "keeps safe (index_document load b d job art True reuse)"
  by (rule keeps_of_triple [OF index_document_triple]) simp

lemma fail_job_keeps: "keeps safe (fail_job jid c)" "keeps safe (cancel_job_row jid)"
  by (simp_all add: fail_job_def cancel_job_row_def safe_jobs)

lemma cancel_check_keeps: "keeps safe (cancel_if_requested jid)"
  unfolding cancel_if_requested_def
  by (intro keeps_then gate.keeps_tx_get keeps_if keeps_raise_code keeps_return)

lemma close_open_keeps: "keeps safe m \<Longrightarrow> keeps safe (close_open_job jid m)"
  unfolding close_open_job_def by (intro keeps_then gate.keeps_tx_get keeps_when)

lemma prepare_and_index_keeps: "keeps safe (prepare_and_index env load b d jid)"
  unfolding prepare_and_index_def
  by (intro keeps_then keeps_seq prepare_keeps cancel_check_keeps keeps_when safe_jobs index_keeps keeps_return) simp_all

lemma process_state_keeps: "keeps safe (process_document_state env load b d jid doc)"
  unfolding process_document_state_def
  by (auto intro!: keeps_seq keeps_when safe_jobs index_keeps keeps_return prepare_and_index_keeps
      gate.keeps_tx_do set_document_state_safe simp: safe_same split: option.splits)

lemma process_failed_keeps: "keeps safe (process_failed jid x)"
  unfolding process_failed_def by (rule close_open_keeps) (auto simp: fail_job_keeps split: py_exn.splits)

lemma process_keeps: "keeps safe (process env load b j)"
  unfolding process_def Let_def
  by (auto intro!: keeps_then gate.keeps_tx_get keeps_try process_state_keeps process_failed_keeps
      simp: fail_job_keeps split: option.splits)

lemma claim_other: "cat_documents (snd (claim_next_pipeline t c)) = cat_documents c
    \<and> cat_artifacts (snd (claim_next_pipeline t c)) = cat_artifacts c"
  by (simp add: claim_next_pipeline_def Let_def split: list.splits)

lemma turn_keeps: "keeps safe (worker_turn env load b)"
proof -
  have "keeps safe (tx claim_next_pipeline)"
    using claim_other by (intro gate.keeps_tx) (metis safe_same snd_conv)
  then show ?thesis unfolding worker_turn_def contain_def
    by (auto intro!: keeps_then keeps_try process_keeps close_open_keeps keeps_return simp: fail_job_keeps split: option.splits)
qed

lemma turns_keep: "keeps safe (worker_turns env load b n)"
  by (induction n) (simp_all only: worker_turns.simps keeps_return keeps_seq turn_keeps)

lemma reconcile_other: "cat_documents (snd (reconcile_interrupted t c)) = cat_documents c
    \<and> cat_artifacts (snd (reconcile_interrupted t c)) = cat_artifacts c"
  by (simp add: reconcile_interrupted_def reconcile_cancelled_def reconcile_recoverable_def reconcile_legacy_def Let_def)

lemma life_keeps: "keeps safe (life env load b n)"
  unfolding life_def start_worker_def
  using reconcile_other by (intro keeps_seq turns_keep gate.keeps_tx) (metis safe_same snd_conv)



end
