(* ===== verification/Lifecycle.thy ===== *)
theory Lifecycle
  imports Pipeline
begin

text \<open>
  The life of a document from the outside: its acceptance and its deletion under every schedule, and
  the end of every job the worker takes up when nothing fails.
\<close>

section \<open>Deletion\<close>

definition holding :: "ident set \<Rightarrow> ident \<Rightarrow> (doc_view \<Rightarrow> bool) \<Rightarrow> world \<Rightarrow> bool" where
  "holding S d Q w \<longleftrightarrow> safe_but S w \<and> w_locked w = Some d \<and> Q (view d w)"

lemma interfere_holding: "holding S d Q w \<Longrightarrow> holding S d Q (interfere w i)"
  using interfere_but [of S w i]
  by (cases i) (auto simp: holding_def interfere_def view_same view_enqueue view_delete)

interpretation holding: boundary_assertion "holding S d Q" for S d Q
  by unfold_locales (auto simp: interfere_holding, simp add: holding_def)

lemma holding_but: "holding S d Q w \<Longrightarrow> S \<subseteq> {d} \<Longrightarrow> safe_but {d} w"
  using safe_but_mono [of S w "{d}"] by (simp add: holding_def)

text \<open>What is left of a document after its deletion: nothing.\<close>

definition no_view :: doc_view where
  "no_view = \<lparr>dv_documents = [], dv_artifacts = [], dv_files = (\<lambda>_. None), dv_staging = (\<lambda>_. None), dv_source = None\<rparr>"

definition no_jobs :: "ident \<Rightarrow> world \<Rightarrow> bool" where
  "no_jobs d w \<longleftrightarrow> (\<forall>j \<in> set (cat_jobs (w_catalog w)). job_document j \<noteq> Some d)"

definition gone :: "ident \<Rightarrow> world \<Rightarrow> bool" where
  "gone d w \<longleftrightarrow> holding {} d (\<lambda>v. v = no_view) w \<and> no_jobs d w"

lemma no_jobs_update_jobs: "no_jobs d w \<Longrightarrow> (\<And>j. job_document (f j) = job_document j) \<Longrightarrow>
   no_jobs d (w\<lparr>w_catalog := update_jobs P f (w_catalog w)\<rparr>)"
  by (auto simp: no_jobs_def set_update_where)

lemma close_gate_jobs [simp]: "cat_jobs (close_gate force x now c) = cat_jobs c"
  by (simp add: close_gate_def set_document_state_def update_document_def)

lemma no_jobs_enqueue:
  assumes "no_jobs d w" and "d' \<noteq> d"
  shows "no_jobs d (snd (enqueue_document_pipeline force d' w))"
  using assms by (auto simp: enqueue_document_pipeline_def no_jobs_def Let_def enqueue_pipeline_def insert_job_def
      split: option.splits if_splits)

lemma no_jobs_delete: "no_jobs d w \<Longrightarrow> no_jobs d (delete_completed d' w)"
  by (auto simp: delete_completed_def no_jobs_def Let_def remove_artifact_tree_def remove_sources_def delete_rows_def
      cancel_for_document_def set_update_where mark_cancel_def)

lemma interfere_gone: "gone d w \<Longrightarrow> gone d (interfere w i)"
proof -
  assume g: "gone d w"
  then have l: "w_locked w = Some d" and j: "no_jobs d w" by (simp_all add: gone_def holding_def)
  have "no_jobs d (interfere w i)"
    using j l by (cases i) (auto simp: interfere_def no_jobs_enqueue no_jobs_delete request_cancel_def Let_def mark_cancel_def
        intro!: no_jobs_update_jobs)
  then show ?thesis using g interfere_holding by (simp add: gone_def)
qed

interpretation gone: boundary_assertion "gone d" for d
  by unfold_locales (auto simp: interfere_gone, simp add: gone_def holding_def no_jobs_def)

lemma remove_tree_but:
  assumes "safe_but {} w" shows "safe_but {d} (remove_artifact_tree d w)"
proof -
  have wf: "wf w" using assms by (rule safe_but_wf)
  then have "wf (remove_artifact_tree d w)" by (auto simp: remove_artifact_tree_def wf_def distinct_map_filter)
  moreover have "queryable (remove_artifact_tree d w) x" if "queryable w x" "doc_id x \<noteq> d" for x
  proof -
    from that(1) obtain a r db where q: "doc_artifact x = Some a" "get_artifact (w_catalog w) a = Some r"
      "art_document r = doc_id x" "map_of (w_artifacts w) (art_path r) = Some db" "fully_indexed db"
      by (auto simp: queryable_def)
    have "art_path r = (doc_id x, a)" using wf q(3) get_artifact_SomeD [OF q(2)] by (auto simp: wf_def)
    with q that(2) show ?thesis by (auto simp: queryable_def remove_artifact_tree_def map_of_drop_owner)
  qed
  ultimately show ?thesis using assms by (auto simp: safe_but_def remove_artifact_tree_def)
qed

lemma map_of_dropped: "map_of (filter (\<lambda>p. fst (fst p) \<noteq> d) xs) (d, a) = None"
  by (auto simp: map_of_eq_None_iff)

lemma view_remove_tree:
  "view d (remove_artifact_tree d w) = (view d w)\<lparr>dv_files := (\<lambda>_. None), dv_staging := (\<lambda>_. None)\<rparr>"
  by (simp add: view_def remove_artifact_tree_def map_of_dropped)

lemma view_remove_sources: "view d (remove_sources d w) = (view d w)\<lparr>dv_source := None\<rparr>"
  by (auto simp: view_def remove_sources_def map_of_eq_None_iff)

lemma remove_trees_triple:
  "triple (holding {} d (\<lambda>_. True)) (remove_trees d)
     (\<lambda>_. holding {d} d (\<lambda>v. dv_files v = (\<lambda>_. None) \<and> dv_staging v = (\<lambda>_. None) \<and> dv_source v = None))
     (\<lambda>_. safe_but {d})"
proof -
  have sources: "triple (holding {} d (\<lambda>_. True)) (file_op (\<lambda>w. (Inr (), remove_sources d w)))
      (\<lambda>_. holding {} d (\<lambda>v. dv_source v = None)) (\<lambda>_. safe_but {d})"
    by (rule holding.triple_file) (auto simp: holding_def view_remove_sources, simp_all add: remove_sources_def safe_but_empty
        safe_but_mono [of "{}"])
  have tree: "triple (holding {} d (\<lambda>v. dv_source v = None)) (file_op (\<lambda>w. (Inr (), remove_artifact_tree d w)))
      (\<lambda>_. holding {d} d (\<lambda>v. dv_files v = (\<lambda>_. None) \<and> dv_staging v = (\<lambda>_. None) \<and> dv_source v = None)) (\<lambda>_. safe_but {d})"
    by (rule holding.triple_file) (auto simp: holding_def view_remove_tree remove_tree_but, simp_all add: remove_artifact_tree_def
        safe_but_mono [of "{}"])
  show ?thesis unfolding remove_trees_def
    by (rule triple_catch [OF triple_seq [OF sources tree]])
      (auto simp: raise_code_def intro!: triple_raise split: failure.splits py_exn.splits)
qed

lemma delete_rows_gone:
  assumes "holding {d} d (\<lambda>v. dv_files v = (\<lambda>_. None) \<and> dv_staging v = (\<lambda>_. None) \<and> dv_source v = None) w"
  shows "gone d (w\<lparr>w_catalog := delete_rows d (w_catalog w)\<rparr>)"
proof -
  have none: "map_of (w_artifacts w) (d, a) = None" for a
    using assms by (auto simp: holding_def view_def dest: fun_cong)
  have "fst (fst p) \<noteq> d" if "p \<in> set (w_artifacts w)" for p
    using none [of "snd (fst p)"] that by (cases p; cases "fst p") (auto simp: map_of_eq_None_iff image_iff)
  then have files: "w_artifacts w = filter (\<lambda>p. fst (fst p) \<noteq> d) (w_artifacts w)" by (simp add: filter_id_conv)
  have "safe_but ({d} - {d}) (w\<lparr>w_artifacts := w_artifacts w, w_catalog := delete_rows d (w_catalog w)\<rparr>)"
    by (rule drop_document_but) (use assms files in \<open>auto simp: holding_def delete_rows_def\<close>)
  moreover have "view d (w\<lparr>w_catalog := delete_rows d (w_catalog w)\<rparr>) = no_view"
    using assms by (auto simp: view_def no_view_def delete_rows_def holding_def)
  ultimately show ?thesis using assms
    by (simp add: gone_def holding_def no_jobs_def delete_rows_def)
qed

definition announced :: "ident \<Rightarrow> catalog \<Rightarrow> bool" where
  "announced d c \<longleftrightarrow> (\<exists>r \<in> set (pending_control_manifests c). ob_document r = d \<and> ob_payload r = sort_key fst (deleted_manifest d))"

lemma update_where_mem: "x \<in> set xs \<Longrightarrow> P x \<Longrightarrow> f x \<in> set (update_where P f xs)"
  by (force simp: set_update_where)

lemma enqueue_announces: "announced d (enqueue_control_manifest d (deleted_manifest d) now c)"
proof (cases "d \<in> set (map ob_document (cat_outbox c))")
  case True
  then obtain r where "r \<in> set (cat_outbox c)" "ob_document r = d" by auto
  let ?f = "\<lambda>r. r\<lparr>ob_payload := sort_key fst (deleted_manifest d), ob_revision := ob_revision r + 1,
          ob_updated := now, ob_delivered := None, ob_terminal := None\<rparr>"
  have "?f r \<in> set (cat_outbox (enqueue_control_manifest d (deleted_manifest d) now c))"
    using True update_where_mem [OF \<open>r \<in> set (cat_outbox c)\<close>, of "\<lambda>r. ob_document r = d" ?f] \<open>ob_document r = d\<close>
    by (simp add: enqueue_control_manifest_def)
  then show ?thesis unfolding announced_def set_pending by (intro bexI [where x = "?f r"]) (use \<open>ob_document r = d\<close> in simp_all)
next
  case False
  let ?r = "\<lparr>ob_document = d, ob_payload = sort_key fst (deleted_manifest d), ob_revision = 1, ob_created = now,
    ob_updated = now, ob_attempts = 0, ob_delivered = None, ob_terminal = None\<rparr>"
  have "?r \<in> set (cat_outbox (enqueue_control_manifest d (deleted_manifest d) now c))"
    using False by (simp add: enqueue_control_manifest_def)
  then show ?thesis unfolding announced_def set_pending by (intro bexI [where x = ?r]) simp_all
qed

lemma delete_triple:
  "triple safe (delete_document d) (\<lambda>_ w. safe w \<and> view d w = no_view \<and> no_jobs d w \<and> announced d (w_catalog w))
     (\<lambda>_. safe_but {d})"
proof -
  have get: "triple (holding {} d (\<lambda>_. True)) (tx_get (\<lambda>c. get_document c d)) (\<lambda>_. holding {} d (\<lambda>_. True)) (\<lambda>_. safe_but {d})"
    by (rule holding.triple_tx_get) (auto intro: holding_but)
  have cancel: "triple (holding {} d (\<lambda>_. True)) (tx (cancel_for_document d)) (\<lambda>_. holding {} d (\<lambda>_. True)) (\<lambda>_. safe_but {d})"
  proof (rule holding.triple_tx)
    fix w x c assume "holding {} d (\<lambda>_. True) w" "cancel_for_document d (w_clock w) (w_catalog w) = (x, c)"
    moreover from this(2) have "c = snd (cancel_for_document d (w_clock w) (w_catalog w))" by simp
    ultimately show "holding {} d (\<lambda>_. True) (w\<lparr>w_catalog := c\<rparr>)" by (simp add: holding_def but_same)
  qed (auto intro: holding_but)
  have rows: "triple (holding {d} d (\<lambda>v. dv_files v = (\<lambda>_. None) \<and> dv_staging v = (\<lambda>_. None) \<and> dv_source v = None))
      (tx_do (\<lambda>_. delete_rows d)) (\<lambda>_. gone d) (\<lambda>_. safe_but {d})"
    by (rule holding.triple_tx_do) (auto intro: delete_rows_gone holding_but)
  have outbox: "triple (gone d) (tx_do (enqueue_control_manifest d (deleted_manifest d)))
      (\<lambda>_ w. gone d w \<and> announced d (w_catalog w)) (\<lambda>_. safe_but {d})"
  proof (rule gone.triple_tx_do)
    fix w assume "gone d w"
    then show "gone d (w\<lparr>w_catalog := enqueue_control_manifest d (deleted_manifest d) (w_clock w) (w_catalog w)\<rparr>)
        \<and> announced d (w_catalog (w\<lparr>w_catalog := enqueue_control_manifest d (deleted_manifest d) (w_clock w) (w_catalog w)\<rparr>))"
      by (simp add: gone_def holding_def but_same view_same no_jobs_def enqueue_announces)
  qed (auto simp: gone_def intro: holding_but)
  have "triple (holding {} d (\<lambda>_. True)) (delete_locked d) (\<lambda>_ w. gone d w \<and> announced d (w_catalog w)) (\<lambda>_. safe_but {d})"
    unfolding delete_locked_def
  proof (rule triple_then [OF get])
    fix x
    show "triple (holding {} d (\<lambda>_. True)) (case x of None \<Rightarrow> raise_code DOCUMENT_NOT_FOUND
     | Some _ \<Rightarrow> then_op (tx (cancel_for_document d)) (\<lambda>n. seq_op (remove_trees d)
           (seq_op (tx_do (\<lambda>_. delete_rows d)) (seq_op (tx_do (enqueue_control_manifest d (deleted_manifest d))) (return_op n)))))
      (\<lambda>_ w. gone d w \<and> announced d (w_catalog w)) (\<lambda>_. safe_but {d})"
      by (cases x) (auto simp: raise_code_def intro!: triple_raise triple_then [OF cancel] triple_seq [OF remove_trees_triple]
          triple_seq [OF rows] triple_seq [OF outbox] triple_return intro: holding_but)
  qed
  then have lock: "triple (holding {} d (\<lambda>_. True)) (delete_locked d) (\<lambda>_ w. gone d w \<and> announced d (w_catalog w)) (\<lambda>_. safe_but {d})" .
  show ?thesis unfolding triple_def
  proof (intro allI impI)
    fix w assume s: "safe w"
    have h: "holding {} d (\<lambda>_. True) (w\<lparr>w_locked := Some d\<rparr>)" using s by (simp add: holding_def safe_but_empty)
    have e: "safe_but {d} w" using s safe_but_mono [of "{}"] by (simp add: safe_but_empty)
    show "case delete_document d w of
        (Inr x, t) \<Rightarrow> safe t \<and> view d t = no_view \<and> no_jobs d t \<and> announced d (w_catalog t) | (Inl e, t) \<Rightarrow> safe_but {d} t"
      using tripleD [OF lock h] e by (cases "delete_locked d (w\<lparr>w_locked := Some d\<rparr>)")
        (auto simp: delete_document_def with_lock_def raise_code_def gone_def holding_def safe_but_empty no_jobs_def split: sum.splits)
  qed
qed


definition calm_moment :: "seconds \<Rightarrow> moment" where
  "calm_moment t = \<lparr>mo_time = t, mo_fault = No_Fault, mo_actions = []\<rparr>"

definition ready_world :: world where
  "ready_world = sample_world\<lparr>w_catalog := empty_catalog\<lparr>cat_documents := [sample_document\<lparr>doc_id := sample_uuid,
       doc_state := DOC_INDEX_READY\<rparr>], cat_artifacts := [sample_artifact\<lparr>art_document := sample_uuid,
       art_path := (sample_uuid, ''a1'')\<rparr>]\<rparr>,
     w_artifacts := [((sample_uuid, ''a1''), sample_db\<lparr>ad_embeddings := [\<lparr>em_chunk = ''c1'', em_model = ''m'', em_dimension = 768,
       em_normalized = 1, em_version = index_version, em_vector = unit_vector\<rparr>], ad_fts := [(''c1'', [65])]\<rparr>)]\<rparr>"

lemma ready_safe: "safe ready_world"
  by (simp add: safe_def wf_def gate_def ready_world_def sample_document_def empty_catalog_def sample_world_def sample_artifact_def
    db_inv_def embedded_def sample_db_def index_meta_def queryable_def get_artifact_def fully_indexed_def sample_chunk_row_def
    valid_row_def unit_vector_valid embedding_dimension_def)

lemmas delete_run = delete_document_def with_lock_def delete_locked_def tx_get_def tx_def tx_do_def step_op_def boundary_def
  seq_op_apply then_op_apply remove_trees_def file_op_def catch_op_apply
  remove_sources_def remove_artifact_tree_def




text \<open>
  C28. The gap in a deletion. When the database fails or the process dies between the removal of the
  files and the removal of the rows, the document stays in the catalog as \<open>INDEX_READY\<close> with an
  active artifact whose file is gone: the gate is open on nothing.
\<close>

theorem delete_gap:
  assumes "safe w" and "is_uuid d" and "get_document (w_catalog w) d = Some x" and "doc_state x = DOC_INDEX_READY"
    and "w_schedule w = map calm_moment [t1, t2, t3, t4] @ [m]" and "mo_actions m = []" and "mo_fault m \<noteq> No_Fault"
  shows "\<not> gate (snd (delete_document d w))"
proof -
  let ?w = "snd (delete_document d w)"
  have run: "w_artifacts ?w = filter (\<lambda>p. fst (fst p) \<noteq> d) (w_artifacts w)
      \<and> cat_documents (w_catalog ?w) = cat_documents (w_catalog w) \<and> cat_artifacts (w_catalog ?w) = cat_artifacts (w_catalog w)"
    using assms(2,3,5-7) by (cases "mo_fault m") (simp_all add: delete_run calm_moment_def raise_code_def cancel_for_document_def Let_def)
  have x: "x \<in> set (cat_documents (w_catalog ?w))" "doc_id x = d" using run get_document_SomeD [OF assms(3)] by auto
  have wf: "wf w" using assms(1) by (simp add: safe_def)
  have "\<not> queryable ?w x"
  proof
    assume "queryable ?w x"
    then obtain a r db where q: "get_artifact (w_catalog ?w) a = Some r" "art_document r = d"
        "map_of (w_artifacts ?w) (art_path r) = Some db" using x(2) by (auto simp: queryable_def)
    from q(1) have "r \<in> set (cat_artifacts (w_catalog w))" "art_id r = a" using run get_artifact_SomeD by fastforce+
    then have "art_path r = (d, a)" using wf q(2) by (auto simp: wf_def)
    then show False using q(3) run by (simp add: map_of_dropped)
  qed
  with x assms(4) show ?thesis by (auto simp: gate_def)
qed

theorem delete_gap_witness:
  "\<not> gate (snd (delete_document sample_uuid (ready_world\<lparr>w_schedule := map calm_moment [1, 1, 1, 1]
     @ [\<lparr>mo_time = 1, mo_fault = Process_Dies, mo_actions = []\<rparr>]\<rparr>)))"
  by (rule delete_gap [where x = "sample_document\<lparr>doc_id := sample_uuid, doc_state := DOC_INDEX_READY\<rparr>"])
    (simp_all add: ready_safe sample_is_uuid, simp_all add: ready_world_def get_document_def)

section \<open>Acceptance\<close>

text \<open>A document that is on its way in: other threads do not see it yet.\<close>

definition arriving :: "ident \<Rightarrow> (bytes option option \<Rightarrow> bool) \<Rightarrow> world \<Rightarrow> bool" where
  "arriving d P w \<longleftrightarrow> get_document (w_catalog w) d = None \<and> P (map_of (w_sources w) (source_path d))"

lemma get_document_None: "get_document c d = None \<longleftrightarrow> d \<notin> set (map doc_id (cat_documents c))"
  by (auto simp: get_document_def find_None_iff)

lemma arriving_same:
  assumes "arriving d P w" and "map doc_id (cat_documents c) = map doc_id (cat_documents (w_catalog w))"
  shows "arriving d P (w\<lparr>w_catalog := c\<rparr>)"
  using assms by (simp add: arriving_def get_document_None del: set_map)

lemma enqueue_arriving:
  assumes "arriving d P w" shows "arriving d P (snd (enqueue_document_pipeline force d' w))"
proof (cases "get_document (w_catalog w) d'")
  case (Some x)
  define w1 where "w1 = w\<lparr>w_catalog := close_gate force x (w_clock w) (w_catalog w), w_next := Suc (w_next w)\<rparr>"
  have a: "arriving d P w1"
    using assms by (simp add: arriving_def get_document_None w1_def del: set_map)
  have "arriving d P (w1\<lparr>w_catalog := c2\<rparr>)" if "enqueue_pipeline d' (w_clock w) (w_uuid w (w_next w)) (w_catalog w1) = Some (k, c2)" for k c2
    by (rule arriving_same [OF a]) (use enqueue_pipeline_other [OF that] in simp)
  then show ?thesis using assms a
    by (auto simp: enqueue_document_pipeline_def Some w1_def [symmetric] Let_def split: option.splits)
qed (use assms in \<open>simp add: enqueue_document_pipeline_def\<close>)

lemma delete_arriving:
  assumes "arriving d P w" shows "arriving d P (delete_completed d' w)"
proof (cases "d' = d")
  case True
  then show ?thesis using assms by (simp add: delete_completed_def arriving_def)
next
  case False
  then show ?thesis using assms
    by (auto simp: delete_completed_def arriving_def Let_def remove_artifact_tree_def remove_sources_def map_of_drop_source
        get_document_None delete_rows_def)
qed

lemma interfere_arriving: "arriving d P w \<Longrightarrow> arriving d P (interfere w i)"
  by (cases i) (auto simp: interfere_def enqueue_arriving delete_arriving intro!: arriving_same)

interpretation arriving: boundary_assertion "\<lambda>w. safe w \<and> arriving d P w" for d P
  by unfold_locales (auto simp: interfere_arriving interfere_safe, simp add: arriving_def)

definition stored :: "ident \<Rightarrow> string \<Rightarrow> pytext \<Rightarrow> string \<Rightarrow> bytes \<Rightarrow> world \<Rightarrow> bool" where
  "stored d sha name mime data w \<longleftrightarrow> (\<exists>t. get_document (w_catalog w) d = Some \<lparr>doc_id = d, doc_sha256 = sha, doc_filename = name,
       doc_mime = mime, doc_size = int (length data), doc_source_path = source_path d, doc_state = DOC_ACCEPTED,
       doc_artifact = None, doc_error = None, doc_created = t, doc_updated = t\<rparr>)
     \<and> map_of (w_sources w) (source_path d) = Some (Some data)"

lemma find_append_None: "find P xs = None \<Longrightarrow> find P (xs @ ys) = find P ys"
  by (induction xs) (auto split: if_splits)

lemma insert_row_triple:
  "triple (\<lambda>w. safe w \<and> arriving d (\<lambda>s. s = Some (Some data)) w) (insert_document_row d sha name mime (int (length data)))
     (\<lambda>_ w. safe w \<and> stored d sha name mime data w) (\<lambda>_. safe)"
  unfolding insert_document_row_def
proof (rule arriving.triple_step)
  fix w :: world and x w'
  let ?row = "\<lparr>doc_id = d, doc_sha256 = sha, doc_filename = name, doc_mime = mime, doc_size = int (length data),
    doc_source_path = source_path d, doc_state = DOC_ACCEPTED, doc_artifact = None, doc_error = None,
    doc_created = w_clock w, doc_updated = w_clock w\<rparr>"
  let ?c = "(w_catalog w)\<lparr>cat_documents := cat_documents (w_catalog w) @ [?row]\<rparr>"
  assume a: "safe w \<and> arriving d (\<lambda>s. s = Some (Some data)) w"
    and e: "(case insert_document ?row (w_catalog w) of None \<Rightarrow> (Inl (Raised IntegrityError), w)
       | Some c \<Rightarrow> (Inr (), w\<lparr>w_catalog := c\<rparr>)) = (Inr x, w')"
  have new: "d \<notin> set (map doc_id (cat_documents (w_catalog w)))" using a by (simp add: arriving_def get_document_None)
  have w': "w' = w\<lparr>w_catalog := ?c\<rparr>" using e by (auto simp: insert_document_def split: if_splits)
  have "safe w'" unfolding w' by (rule safe_catalog) (use a new in \<open>auto simp: safe_def wf_def\<close>)
  moreover have "get_document ?c d = Some ?row"
    using a by (simp add: arriving_def get_document_def find_append_None)
  ultimately show "safe w' \<and> stored d sha name mime data w'" using a by (auto simp: stored_def w' arriving_def)
qed (auto split: option.splits)

lemma make_dir_triple:
  "triple (\<lambda>w. safe w \<and> arriving d (\<lambda>_. True) w) (make_source_dir d) (\<lambda>_ w. safe w \<and> arriving d (\<lambda>s. s \<noteq> None) w) (\<lambda>_. safe)"
  unfolding make_source_dir_def
  by (rule arriving.triple_file) (auto simp: arriving_def map_of_eq_None_iff split: if_splits)

lemma move_source_triple:
  "triple (\<lambda>w. safe w \<and> arriving d P w) (move_source d data) (\<lambda>_ w. safe w \<and> arriving d (\<lambda>s. s = Some (Some data)) w) (\<lambda>_. safe)"
  unfolding move_source_def
  by (rule arriving.triple_file) (auto simp: arriving_def update_conv')

definition accept_result :: "(bytes \<Rightarrow> string) \<Rightarrow> ident \<Rightarrow> bytes \<Rightarrow> pytext \<Rightarrow> string \<Rightarrow> acceptance \<Rightarrow> world \<Rightarrow> bool" where
  "accept_result sha d data name mime r w \<longleftrightarrow> (case r of
       Accepted d' h n \<Rightarrow> d' = d \<and> h = sha data \<and> n = int (length data) \<and> stored d (sha data) name mime data w
     | Already_Accepted x \<Rightarrow> get_document (w_catalog w) d = Some x \<and> doc_sha256 x = sha data)"

lemma accept_triple:
  "triple safe (accept_document open_pdf nfc casefold sha cfg d data filename mime)
     (\<lambda>r w. safe w \<and> accept_result sha d data (nfc filename) mime r w) (\<lambda>_. safe)"
proof -
  have get: "triple safe (tx_get (\<lambda>c. get_document c d)) (\<lambda>x w. safe w \<and> get_document (w_catalog w) d = x) (\<lambda>_. safe)"
    by (rule gate.triple_tx_get) auto
  have new: "triple (\<lambda>w. safe w \<and> get_document (w_catalog w) d = None)
      (seq_op (make_source_dir d) (seq_op (move_source d data)
        (seq_op (insert_document_row d (sha data) (nfc filename) mime (int (length data)))
          (return_op (Accepted d (sha data) (int (length data)))))))
      (\<lambda>r w. safe w \<and> accept_result sha d data (nfc filename) mime r w) (\<lambda>_. safe)"
    by (rule triple_weaken [OF triple_seq [OF make_dir_triple triple_seq [OF move_source_triple
        triple_seq [OF insert_row_triple triple_return]]]]) (auto simp: arriving_def accept_result_def)
  have got: "triple (\<lambda>w. safe w \<and> get_document (w_catalog w) d = x) (case x of
          Some x \<Rightarrow> if doc_sha256 x = sha data then return_op (Already_Accepted x) else raise_code DOCUMENT_CONFLICT
        | None \<Rightarrow> seq_op (make_source_dir d) (seq_op (move_source d data)
              (seq_op (insert_document_row d (sha data) (nfc filename) mime (int (length data)))
                (return_op (Accepted d (sha data) (int (length data)))))))
      (\<lambda>r w. safe w \<and> accept_result sha d data (nfc filename) mime r w) (\<lambda>_. safe)" for x
    using new by (cases x) (auto simp: raise_code_def accept_result_def intro!: triple_raise triple_return)
  show ?thesis unfolding accept_document_def raise_code_def [of INVALID_REQUEST] raise_code_def [of PAYLOAD_TOO_LARGE]
      raise_code_def [of INVALID_PDF]
    using triple_then [OF get got] by (auto intro: triple_raise)
qed

lemma upload_stored:
  assumes "safe w" and "accept_document open_pdf nfc casefold sha cfg d data filename mime w = (r, w')"
  shows "safe w' \<and> (case r of Inl _ \<Rightarrow> True | Inr a \<Rightarrow> accept_result sha d data (nfc filename) mime a w'
    \<and> is_uuid d \<and> int (length data) \<le> cf_source_pdf_max cfg
    \<and> pdf_admitted open_pdf nfc casefold (cf_source_pdf_max cfg) data filename (ascii mime))"
proof -
  have "is_uuid d \<and> int (length data) \<le> cf_source_pdf_max cfg
    \<and> pdf_admitted open_pdf nfc casefold (cf_source_pdf_max cfg) data filename (ascii mime)" if "r = Inr a" for a
    using assms(2) that by (auto simp: accept_document_def raise_code_def split: if_splits)
  then show ?thesis using tripleD [OF accept_triple assms] by (auto split: sum.splits)
qed

text \<open>
  C27. Acceptance. Under every schedule, accepting a document keeps the gate. When the call returns a
  new document, the identifier is a UUID, the bytes passed the admission check and the size limit, the
  catalog has the row in state \<open>ACCEPTED\<close> with the digest and size of the bytes, and the source file
  holds exactly these bytes; when it answers idempotently, the stored digest is the digest of the bytes.
\<close>

theorem accept_document_stores:
  assumes "safe w" and "accept_document open_pdf nfc casefold sha cfg d data filename mime w = (r, w')"
  shows "safe w' \<and> (case r of Inl _ \<Rightarrow> True | Inr a \<Rightarrow> accept_result sha d data (nfc filename) mime a w'
    \<and> is_uuid d \<and> int (length data) \<le> cf_source_pdf_max cfg
    \<and> pdf_admitted open_pdf nfc casefold (cf_source_pdf_max cfg) data filename (ascii mime))"
  using upload_stored [OF assms] .

text \<open>An identifier whose source directory exists without a document.\<close>

definition wedged :: "ident \<Rightarrow> world \<Rightarrow> bool" where
  "wedged d w \<longleftrightarrow> safe w \<and> arriving d (\<lambda>s. s \<noteq> None) w"

interpretation wedged: boundary_assertion "wedged d" for d
  unfolding wedged_def by unfold_locales

lemma accept_wedged_triple:
  "triple (wedged d) (accept_document open_pdf nfc casefold sha cfg d data filename mime) (\<lambda>_ _. False) (\<lambda>_. wedged d)"
proof -
  have get: "triple (wedged d) (tx_get (\<lambda>c. get_document c d)) (\<lambda>x w. wedged d w \<and> x = None) (\<lambda>_. wedged d)"
    by (rule wedged.triple_tx_get) (auto simp: wedged_def arriving_def)
  have dir: "triple (wedged d) (make_source_dir d) (\<lambda>_ _. False) (\<lambda>_. wedged d)"
    unfolding make_source_dir_def
    by (rule wedged.triple_file) (auto simp: wedged_def arriving_def split: if_splits, force dest: map_of_SomeD)
  have got: "triple (\<lambda>w. wedged d w \<and> x = None) (case x of
          Some x \<Rightarrow> if doc_sha256 x = sha data then return_op (Already_Accepted x) else raise_code DOCUMENT_CONFLICT
        | None \<Rightarrow> seq_op (make_source_dir d) (seq_op (move_source d data)
              (seq_op (insert_document_row d (sha data) (nfc filename) mime (int (length data)))
                (return_op (Accepted d (sha data) (int (length data)))))))
      (\<lambda>_ _. False) (\<lambda>_. wedged d)" for x
    by (cases x) (auto intro!: triple_seq [OF dir], auto simp: triple_def)
  show ?thesis unfolding accept_document_def raise_code_def [of INVALID_REQUEST] raise_code_def [of PAYLOAD_TOO_LARGE]
      raise_code_def [of INVALID_PDF]
    using triple_then [OF get got] by (auto intro: triple_raise)
qed

lemma delete_wedged_triple: "triple (wedged d) (delete_document d) (\<lambda>_ _. False) (\<lambda>_. wedged d)"
proof -
  have l: "wedged d (w\<lparr>w_locked := l\<rparr>) = wedged d w" for w l by (simp add: wedged_def arriving_def)
  have get: "triple (wedged d) (tx_get (\<lambda>c. get_document c d)) (\<lambda>x w. wedged d w \<and> x = None) (\<lambda>_. wedged d)"
    by (rule wedged.triple_tx_get) (auto simp: wedged_def arriving_def)
  have locked: "triple (wedged d) (delete_locked d) (\<lambda>_ _. False) (\<lambda>_. wedged d)"
    unfolding delete_locked_def by (rule triple_then [OF get]) (auto simp: triple_def raise_code_def split: option.splits)
  show ?thesis unfolding triple_def
  proof (intro allI impI)
    fix w :: world assume "wedged d w"
    then show "case delete_document d w of (Inr x, t) \<Rightarrow> False | (Inl e, t) \<Rightarrow> wedged d t"
      using tripleD [OF locked, of "w\<lparr>w_locked := Some d\<rparr>"] l by (cases "delete_locked d (w\<lparr>w_locked := Some d\<rparr>)")
        (auto simp: delete_document_def with_lock_def raise_code_def split: sum.splits)
  qed
qed

lemma wedge_end:
  assumes "triple (wedged d) m (\<lambda>_ _. False) (\<lambda>_. wedged d)" and "wedged d w"
  shows "\<exists>e w'. m w = (Inl e, w') \<and> wedged d w'"
  using tripleD [OF assms] by (cases "m w") (auto split: sum.splits)

text \<open>
  C29. A wedged identifier. An acceptance that ends between the creation of the source directory and
  the insertion of the row leaves an identifier that can never be used again: every later acceptance
  of it fails, whatever bytes it brings, every deletion of it fails, and it stays so.
\<close>

theorem accept_wedge:
  assumes "wedged d w"
  shows "(\<exists>e w'. accept_document open_pdf nfc casefold sha cfg d data filename mime w = (Inl e, w') \<and> wedged d w')
    \<and> (\<exists>e w'. delete_document d w = (Inl e, w') \<and> wedged d w')"
  using wedge_end [OF accept_wedged_triple assms] wedge_end [OF delete_wedged_triple assms] by blast

text \<open>Such a world comes about when \<open>os.replace\<close> fails.\<close>

definition sample_pdf :: bytes where "sample_pdf = ascii ''%PDF-''"

definition sample_name :: pytext where "sample_name = ascii ''a.pdf''"

definition sample_accept :: "acceptance wop" where
  "sample_accept = accept_document (\<lambda>_. Some \<lparr>pi_is_pdf = True, pi_needs_pass = False, pi_page_count = 1\<rparr>)
     (\<lambda>t. t) (\<lambda>t. t) (\<lambda>_. ''h'') default_settings sample_uuid sample_pdf sample_name ''application/pdf''"

definition failed_world :: world where
  "failed_world = snd (sample_accept (sample_world\<lparr>w_schedule :=
     [calm_moment 1, calm_moment 1, \<lparr>mo_time = 1, mo_fault = Step_Fails, mo_actions = []\<rparr>]\<rparr>))"

lemma sample_admitted: "pdf_admitted (\<lambda>_. Some \<lparr>pi_is_pdf = True, pi_needs_pass = False, pi_page_count = 1\<rparr>)
     (\<lambda>t. t) (\<lambda>t. t) (cf_source_pdf_max default_settings) sample_pdf sample_name (ascii ''application/pdf'')"
  by (simp add: pdf_admitted_def sample_pdf_def sample_name_def starts_with_def ends_with_def default_settings_def Let_def)

lemma sample_accept_run: "sample_accept = then_op (tx_get (\<lambda>c. get_document c sample_uuid)) (\<lambda>existing.
        case existing of
          Some x \<Rightarrow> if doc_sha256 x = ''h'' then return_op (Already_Accepted x) else raise_code DOCUMENT_CONFLICT
        | None \<Rightarrow> seq_op (make_source_dir sample_uuid) (seq_op (move_source sample_uuid sample_pdf)
              (seq_op (insert_document_row sample_uuid ''h'' sample_name ''application/pdf'' (int (length sample_pdf)))
                (return_op (Accepted sample_uuid ''h'' (int (length sample_pdf)))))))"
proof -
  have "int (length sample_pdf) \<le> cf_source_pdf_max default_settings" by (simp add: sample_pdf_def default_settings_def)
  then show ?thesis unfolding sample_accept_def accept_document_def using sample_is_uuid sample_admitted by simp
qed

lemma other_document: "get_document (w_catalog sample_world) sample_uuid = None" "w_sources sample_world = []"
  by (simp_all add: get_document_def sample_world_def empty_catalog_def sample_document_def sample_uuid_def numeral_eq_Suc)

lemma failed_wedged: "wedged sample_uuid failed_world"
proof -
  have "safe failed_world"
    using upload_stored [OF _ surjective_pairing] sample_safe unfolding failed_world_def sample_accept_def
    by (metis safe_frame(2))
  moreover have "arriving sample_uuid (\<lambda>s. s \<noteq> None) failed_world"
    unfolding failed_world_def sample_accept_run
    by (simp add: delete_run calm_moment_def other_document make_source_dir_def move_source_def arriving_def)
  ultimately show ?thesis by (simp add: wedged_def)
qed

theorem accept_wedge_witness:
  "(\<exists>e w'. accept_document (\<lambda>_. None) (\<lambda>t. t) (\<lambda>t. t) (\<lambda>_. ''h'') default_settings sample_uuid sample_pdf sample_name
       ''application/pdf'' failed_world = (Inl e, w') \<and> wedged sample_uuid w')
    \<and> (\<exists>e w'. delete_document sample_uuid failed_world = (Inl e, w') \<and> wedged sample_uuid w')"
  by (rule accept_wedge [OF failed_wedged])

theorem accept_document_stores_witness:
  "\<exists>w'. accept_document (\<lambda>_. Some \<lparr>pi_is_pdf = True, pi_needs_pass = False, pi_page_count = 1\<rparr>)
     (\<lambda>t. t) (\<lambda>t. t) (\<lambda>_. ''h'') default_settings sample_uuid sample_pdf sample_name ''application/pdf'' sample_world
     = (Inr (Accepted sample_uuid ''h'' 5), w') \<and> safe w' \<and> stored sample_uuid ''h'' sample_name ''application/pdf'' sample_pdf w'"
proof -
  have sched: "w_schedule sample_world = []" by (simp add: sample_world_def)
  have "\<exists>w'. sample_accept sample_world = (Inr (Accepted sample_uuid ''h'' 5), w')"
    using other_document(1) [unfolded get_document_None] unfolding sample_accept_run
    by (simp add: delete_run other_document sched make_source_dir_def move_source_def insert_document_row_def insert_document_def
        get_document_None) (simp add: sample_pdf_def)
  then obtain w' where run: "sample_accept sample_world = (Inr (Accepted sample_uuid ''h'' 5), w')" by blast
  from accept_document_stores [OF sample_safe this [unfolded sample_accept_def]] run show ?thesis
    by (simp add: accept_result_def sample_accept_def)
qed

end
