(* ===== verification/Liveness.thy ===== *)
theory Liveness
  imports Pipeline
begin

text \<open>
  What the worker achieves when nothing fails: other threads may still cancel, enqueue, reindex and
  delete at every boundary, but no step fails and the process does not die. Then every step of the
  services ends without death, and the job the worker took up is closed when it is done with it.
\<close>

section \<open>Worlds in which no step fails\<close>

definition calm :: "ident \<Rightarrow> world \<Rightarrow> bool" where
  "calm jid w \<longleftrightarrow> (\<forall>m \<in> set (w_schedule w). mo_fault m = No_Fault)
     \<and> (\<forall>n. w_next w \<le> n \<longrightarrow> w_uuid w n \<noteq> jid) \<and> distinct (map job_id (cat_jobs (w_catalog w)))"

definition settled :: "ident \<Rightarrow> world \<Rightarrow> bool" where
  "settled jid w \<longleftrightarrow> (\<forall>j \<in> set (cat_jobs (w_catalog w)). job_id j = jid \<longrightarrow> \<not> active_state (job_state j))"

definition steady :: "ident \<Rightarrow> 'a wop \<Rightarrow> bool" where
  "steady jid m \<longleftrightarrow> triple (calm jid) m (\<lambda>_. calm jid) (\<lambda>e w. calm jid w \<and> e \<noteq> Died)"

named_theorems steady_intro

lemma jobs_update_ids [simp]:
  assumes "\<And>j. job_id (f j) = job_id j"
  shows "map job_id (cat_jobs (update_jobs P f c)) = map job_id (cat_jobs c)"
  using assms by (simp add: map_update_where)

lemma mark_cancel_ids [simp]: "job_id (mark_cancel now j) = job_id j"
  by (simp add: mark_cancel_def)

lemma calm_catalog:
  "calm jid w \<Longrightarrow> distinct (map job_id (cat_jobs c)) \<Longrightarrow> calm jid (w\<lparr>w_catalog := c\<rparr>)"
  by (simp add: calm_def)

lemma calm_ids: "calm jid w \<Longrightarrow> distinct (map job_id (cat_jobs (w_catalog w)))"
  by (simp add: calm_def)

lemma calm_frame:
  "calm jid w \<Longrightarrow> calm jid (w\<lparr>w_clock := t\<rparr>)" "calm jid w \<Longrightarrow> calm jid (w\<lparr>w_artifacts := as\<rparr>)"
  "calm jid w \<Longrightarrow> calm jid (w\<lparr>w_staging := ss\<rparr>)" "calm jid w \<Longrightarrow> calm jid (w\<lparr>w_sources := os\<rparr>)"
  "calm jid w \<Longrightarrow> calm jid (w\<lparr>w_locked := l\<rparr>)" "calm jid w \<Longrightarrow> calm jid (w\<lparr>w_next := w_next w + k\<rparr>)"
  by (auto simp: calm_def)

lemma enqueue_pipeline_ids:
  assumes "enqueue_pipeline d now i c = Some (k, c')" and "distinct (map job_id (cat_jobs c))"
  shows "distinct (map job_id (cat_jobs c'))"
  using assms by (auto simp: enqueue_pipeline_def insert_job_def split: option.splits if_splits)

lemma close_gate_cat_jobs [simp]: "cat_jobs (close_gate force x now c) = cat_jobs c"
  by (simp add: close_gate_def set_document_state_def update_document_def)

lemma enqueue_calm:
  assumes "calm jid w" shows "calm jid (snd (enqueue_document_pipeline force d w))"
proof (cases "get_document (w_catalog w) d")
  case (Some x)
  define w1 where "w1 = w\<lparr>w_catalog := close_gate force x (w_clock w) (w_catalog w), w_next := Suc (w_next w)\<rparr>"
  have c: "calm jid w1" using assms by (auto simp: calm_def w1_def)
  have "calm jid (w1\<lparr>w_catalog := c2\<rparr>)"
    if e: "enqueue_pipeline d (w_clock w) (w_uuid w (w_next w)) (w_catalog w1) = Some (k, c2)" for k c2
    by (rule calm_catalog [OF c enqueue_pipeline_ids [OF e calm_ids [OF c]]])
  then show ?thesis using assms c
    by (auto simp: enqueue_document_pipeline_def Some w1_def [symmetric] Let_def split: option.splits)
qed (use assms in \<open>simp add: enqueue_document_pipeline_def\<close>)

lemma delete_calm: "calm jid w \<Longrightarrow> calm jid (delete_completed d w)"
  by (auto simp: delete_completed_def Let_def remove_artifact_tree_def remove_sources_def calm_def delete_rows_def
      distinct_map_filter cancel_for_document_def map_update_where simp del: cat_jobs_update_jobs)

lemma interfere_calm_world: "calm jid w \<Longrightarrow> calm jid (interfere w i)"
  by (cases i) (auto simp: interfere_def enqueue_calm delete_calm request_cancel_def Let_def calm_ids intro!: calm_catalog
      simp del: cat_jobs_update_jobs)

text \<open>Assertions that survive what other threads do in such a world.\<close>

locale calm_assertion =
  fixes jid :: ident and I :: "world \<Rightarrow> bool"
  assumes interfere_calm: "calm jid w \<Longrightarrow> I w \<Longrightarrow> I (interfere w i)"
    and tick_calm: "I w \<Longrightarrow> I (w\<lparr>w_clock := t, w_schedule := ms\<rparr>)"
begin

lemma interferences_calm: "calm jid w \<Longrightarrow> I w \<Longrightarrow> calm jid (foldl interfere w is) \<and> I (foldl interfere w is)"
  by (induction "is" arbitrary: w) (auto intro: interfere_calm interfere_calm_world)

lemma boundary_calm: "calm jid w \<Longrightarrow> I w \<Longrightarrow> \<exists>w'. boundary w = (Inr (), w') \<and> calm jid w' \<and> I w'"
proof (cases "w_schedule w")
  case (Cons m ms)
  assume w: "calm jid w" "I w"
  then have "calm jid (w\<lparr>w_clock := mo_time m, w_schedule := ms\<rparr>)" by (auto simp: calm_def Cons)
  from interferences_calm [OF this tick_calm [OF w(2)]] show ?thesis
    using w(1) by (auto simp: boundary_def Cons Let_def calm_def)
qed (simp add: boundary_def)

lemma step_calm:
  assumes "\<And>w. calm jid w \<Longrightarrow> I w \<Longrightarrow> case f w of (Inr x, t) \<Rightarrow> Q x t | (Inl e, t) \<Rightarrow> E e t"
  shows "triple (\<lambda>w. calm jid w \<and> I w) (step_op f) Q E"
  unfolding triple_def
proof (intro allI impI)
  fix w assume "calm jid w \<and> I w"
  with boundary_calm obtain w' where "boundary w = (Inr (), w')" "calm jid w'" "I w'" by blast
  with assms [of w'] show "case step_op f w of (Inr x, t) \<Rightarrow> Q x t | (Inl e, t) \<Rightarrow> E e t"
    by (simp add: step_op_def seq_op_apply)
qed

lemma file_calm:
  assumes "\<And>w. calm jid w \<Longrightarrow> I w \<Longrightarrow> case f w of (Inr x, t) \<Rightarrow> Q x t | (Inl e, t) \<Rightarrow> E e t"
  shows "triple (\<lambda>w. calm jid w \<and> I w) (file_op f) Q E"
  unfolding triple_def
proof (intro allI impI)
  fix w assume "calm jid w \<and> I w"
  with boundary_calm obtain w' where "boundary w = (Inr (), w')" "calm jid w'" "I w'" by blast
  with assms [of w'] show "case file_op f w of (Inr x, t) \<Rightarrow> Q x t | (Inl e, t) \<Rightarrow> E e t"
    by (simp add: file_op_def seq_op_apply catch_op_apply)
qed

lemma tx_calm:
  assumes "\<And>w x c. calm jid w \<Longrightarrow> I w \<Longrightarrow> f (w_clock w) (w_catalog w) = (x, c) \<Longrightarrow> Q x (w\<lparr>w_catalog := c\<rparr>)"
  shows "triple (\<lambda>w. calm jid w \<and> I w) (tx f) Q E"
  unfolding tx_def by (rule step_calm) (use assms in \<open>auto split: prod.splits\<close>)

end

interpretation any: calm_assertion jid "\<lambda>_. True" for jid
  by unfold_locales simp_all

lemma steadyI: "triple (\<lambda>w. calm jid w \<and> True) m (\<lambda>_. calm jid) (\<lambda>e w. calm jid w \<and> e \<noteq> Died) \<Longrightarrow> steady jid m"
  by (simp add: steady_def)

lemma steady_step [steady_intro]:
  assumes "\<And>w. calm jid w \<Longrightarrow> calm jid (snd (f w)) \<and> fst (f w) \<noteq> Inl Died"
  shows "steady jid (step_op f)" "steady jid (file_op f)"
proof -
  have f: "case f w of (Inr x, t) \<Rightarrow> calm jid t | (Inl e, t) \<Rightarrow> calm jid t \<and> e \<noteq> Died" if "calm jid w" for w
    using assms [OF that] by (cases "f w"; cases "fst (f w)") auto
  show "steady jid (step_op f)" by (rule steadyI, rule any.step_calm, rule f)
  show "steady jid (file_op f)" by (rule steadyI, rule any.file_calm, rule f)
qed

lemma steady_tx [steady_intro]:
  assumes "\<And>t c. distinct (map job_id (cat_jobs c)) \<Longrightarrow> distinct (map job_id (cat_jobs (snd (f t c))))"
  shows "steady jid (tx f)"
proof (rule steadyI, rule any.tx_calm)
  fix w x c assume "calm jid w" "f (w_clock w) (w_catalog w) = (x, c)"
  then show "calm jid (w\<lparr>w_catalog := c\<rparr>)" using assms [of "w_catalog w" "w_clock w"] by (auto intro: calm_catalog simp: calm_ids)
qed

lemma steady_tx_do [steady_intro]:
  "(\<And>t c. distinct (map job_id (cat_jobs c)) \<Longrightarrow> distinct (map job_id (cat_jobs (f t c)))) \<Longrightarrow> steady jid (tx_do f)"
  unfolding tx_do_def by (rule steady_tx) simp

lemma steady_tx_get [steady_intro]: "steady jid (tx_get f)"
  unfolding tx_get_def by (rule steady_tx) simp

lemma steady_return [steady_intro]: "steady jid (return_op x)"
  by (simp add: steady_def triple_return)

lemma steady_raise [steady_intro]: "steady jid (raise_op (Raised e))" "steady jid (raise_code c)"
  by (simp_all add: steady_def triple_raise raise_code_def)

lemma steady_then [steady_intro]: "steady jid m \<Longrightarrow> (\<And>x. steady jid (k x)) \<Longrightarrow> steady jid (then_op m k)"
  unfolding steady_def by (rule triple_then)

lemma steady_seq [steady_intro]: "steady jid m \<Longrightarrow> steady jid k \<Longrightarrow> steady jid (seq_op m k)"
  unfolding steady_def by (rule triple_seq)

lemma steady_when [steady_intro]: "steady jid m \<Longrightarrow> steady jid (when_op b m)"
  by (simp add: when_op_def steady_return)

lemma steady_if [steady_intro]: "(b \<Longrightarrow> steady jid m) \<Longrightarrow> (\<not> b \<Longrightarrow> steady jid k) \<Longrightarrow> steady jid (if b then m else k)"
  by simp

lemma steady_try [steady_intro]: "steady jid m \<Longrightarrow> (\<And>e. steady jid (h e)) \<Longrightarrow> steady jid (try_except m h)"
  unfolding steady_def by (rule triple_try [where R = "\<lambda>e w. calm jid w \<and> e \<noteq> Died"])
    (auto intro: triple_weaken)

lemma steady_lock [steady_intro]: "steady jid m \<Longrightarrow> steady jid (with_lock d m)"
  unfolding steady_def triple_def with_lock_def
  by (auto split: prod.splits sum.splits intro!: calm_frame) (use calm_frame(5) in fastforce)+

lemma steady_lift [steady_intro]: "steady jid (lift_result r)"
  by (simp add: lift_result_def steady_return steady_raise split: sum.split)

section \<open>Every step of the services is steady\<close>

lemma set_state_jobs [simp]: "cat_jobs (set_document_state d st e now c) = cat_jobs c"
  by (simp add: set_document_state_def update_document_def)

lemma update_document_jobs [simp]: "cat_jobs (update_document d f c) = cat_jobs c"
  by (simp add: update_document_def)

lemma update_job_ids [simp]: "map job_id (cat_jobs (update_job jid st sg p e now c)) = map job_id (cat_jobs c)"
  by (simp add: update_job_def del: cat_jobs_update_jobs)

lemma attach_ids [simp]: "map job_id (cat_jobs (attach_artifact k a now c)) = map job_id (cat_jobs c)"
  by (simp add: attach_artifact_def del: cat_jobs_update_jobs)

lemma steady_jobs [steady_intro]:
  "steady jid (update_index_job k st p b)" "steady jid (update_prep_job k st p b)" "steady jid (end_job k e)"
  "steady jid (fail_job k c)" "steady jid (cancel_job_row k)" "steady jid (mark_document ac d st')"
  "steady jid (tx_do (attach_artifact k a))" "steady jid (tx_do (update_job k js sg q er))"
  by (auto simp: update_index_job_def update_prep_job_def end_job_def fail_job_def cancel_job_row_def mark_document_def
      intro!: steady_intro)

lemma steady_db [steady_intro]: "steady jid (db_tx p f)"
  unfolding db_tx_def by (rule steady_step) (auto split: option.splits sum.splits prod.splits intro: calm_frame)

lemma steady_small [steady_intro]:
  "steady jid (cancel_if_requested k)" "steady jid (artifact_path a)" "steady jid (require_artifact_owner a d)"
  "steady jid (db_read p g)" "steady jid (initialize_index_tables p)" "steady jid (validate_index p n model)"
  "steady jid (load_embedder load)"
  by (auto simp: cancel_if_requested_def artifact_path_def require_artifact_owner_def db_read_def initialize_index_tables_def
      validate_index_def load_embedder_def intro!: steady_intro split: option.splits sum.splits)

lemma steady_uuid [steady_intro]: "steady jid new_uuid"
  by (auto simp: steady_def triple_def new_uuid_def calm_def)

lemma steady_loop [steady_intro]:
  "steady k (index_loop jid pipeline b p e reusable n processed last_index counts)"
proof (induction jid pipeline b p e reusable n processed last_index counts rule: index_loop.induct)
  case (1 jid pipeline b p e reusable count processed last_index old new)
  then show ?case
    by (subst index_loop.simps) (auto intro!: steady_intro simp: Let_def)
qed

lemma steady_reusable [steady_intro]: "steady k (reusable_vectors a)"
  by (auto simp: reusable_vectors_def intro!: steady_intro split: option.splits sum.splits)

lemma steady_unmark [steady_intro]: "steady k (unmark_file a)"
  by (auto simp: unmark_file_def intro!: steady_intro calm_frame split: option.splits)

lemma steady_restore [steady_intro]: "steady k (restore_not_indexed a d c ac)"
  by (auto simp: restore_not_indexed_def intro!: steady_intro)

lemma steady_index_failed [steady_intro]: "steady k (index_failed jid d a ac x)"
  by (auto simp: index_failed_def intro!: steady_intro split: py_exn.splits)

lemma steady_build [steady_intro]: "steady k (build_index jid pipeline b p e reusable)"
  by (auto simp: build_index_def intro!: steady_intro split: prod.splits)

lemma finish_index_jobs [simp]: "cat_jobs (finish_index ac d a now c) = cat_jobs c"
  by (simp add: finish_index_def make_document_ready_def set_artifact_ready_def Let_def)

lemma steady_run_index [steady_intro]: "steady k (run_index load b d jid pipeline a activate reuse)"
  by (auto simp: run_index_def intro!: steady_intro split: prod.splits)

lemma insert_job_ids: "insert_job j c = Some c' \<Longrightarrow> distinct (map job_id (cat_jobs c)) \<Longrightarrow> distinct (map job_id (cat_jobs c'))"
  by (auto simp: insert_job_def split: if_splits)

lemma steady_index_job [steady_intro]: "steady k (index_job d a jid)"
  by (auto simp: index_job_def enqueue_skeleton_def intro!: steady_intro split: option.splits dest: insert_job_ids
      simp del: cat_jobs_update_jobs)

lemma steady_index_locked [steady_intro]: "steady k (index_document_locked load b d job art activate reuse)"
  unfolding index_document_locked_def
  by (auto intro!: steady_intro simp del: insert_iff split: option.splits)

lemma steady_index [steady_intro]: "steady k (index_document load b d job art activate reuse)"
  unfolding index_document_def by (rule steady_lock [OF steady_index_locked])

text \<open>The preparation.\<close>

lemma steady_prep_small [steady_intro]:
  "steady k (map_units_op offsets us)" "steady k (chunk_rows_op f cs)" "steady k (cleanup_stale_staging d)"
  "steady k (remove_staging q)" "steady k (make_staging q)" "steady k (commit_staging q db)" "steady k (validate_staging env doc a)"
  "steady k (promote_staging q)" "steady k (hash_artifact env q)"
proof -
  have mono: "k' \<le> snd (map_units ids offsets parent k' us)" for ids offsets parent k' us
    by (induction ids offsets parent k' us rule: map_units.induct) (auto simp: Let_def split: prod.splits intro: order_trans [OF Suc_leD])
  have "calm k (w\<lparr>w_next := snd (map_units (w_uuid w) offsets None (w_next w) us)\<rparr>)" if "calm k w" for w
    using that mono [of "w_next w" "w_uuid w" offsets None us] order_trans by (fastforce simp: calm_def)
  then show "steady k (map_units_op offsets us)"
    by (auto simp: steady_def triple_def map_units_op_def case_prod_beta)
  show "steady k (chunk_rows_op f cs)" by (auto simp: steady_def triple_def chunk_rows_op_def intro: calm_frame)
  show "steady k (remove_staging q)" by (auto simp: steady_def triple_def remove_staging_def intro: calm_frame)
qed (auto simp: cleanup_stale_staging_def make_staging_def commit_staging_def validate_staging_def promote_staging_def
    hash_artifact_def intro!: steady_intro split: option.splits, auto simp: calm_def split: if_splits)

lemma steady_read_source [steady_intro]: "steady k (read_source d)"
  by (auto simp: read_source_def intro!: steady_intro split: option.splits)

lemma steady_batches [steady_intro]: "steady k (persist_batches jid pipeline f n rest acc)"
proof (induction jid pipeline f n rest acc rule: persist_batches.induct)
  case (1 jid pipeline f n rest acc)
  then show ?case by (subst persist_batches.simps) (auto intro!: steady_intro simp: Let_def)
qed

lemma steady_persist [steady_intro]: "steady k (persist env doc a units x jid pipeline)"
  by (auto simp: persist_def intro!: steady_intro)

lemma steady_register [steady_intro]: "steady k (register_artifact env ac d a x h)"
  unfolding register_artifact_def
  by (rule steady_step) (auto simp: insert_artifact_def calm_def make_document_prepared_def split: option.splits)

lemma steady_stages [steady_intro]:
  "steady k (extract_stage env jid pipeline d a ac)" "steady k (text_stage env jid pipeline d ac pages)"
  "steady k (chunk_stage env jid pipeline pages t)" "steady k (store_stage env jid pipeline doc a ac x)"
  by (auto simp: extract_stage_def text_stage_def chunk_stage_def store_stage_def Let_def intro!: steady_intro)

lemma steady_run_prepare [steady_intro]: "steady k (run_prepare env jid pipeline doc a ac)"
  by (auto simp: run_prepare_def intro!: steady_intro)

lemma steady_prepare_failed [steady_intro]: "steady k (prepare_failed jid doc a x)"
  by (auto simp: prepare_failed_def Let_def intro!: steady_intro)

lemma steady_prepare_job [steady_intro]: "steady k (prepare_job d a jid)"
  by (auto simp: prepare_job_def enqueue_preparation_def intro!: steady_intro split: option.splits dest: insert_job_ids)

lemma steady_check_job [steady_intro]: "steady k (check_job d jid)"
  by (auto simp: check_job_def intro!: steady_intro split: option.splits)

lemma steady_prepare [steady_intro]: "steady k (prepare env d job ac)"
  unfolding prepare_def prepare_locked_def by (auto intro!: steady_intro split: option.splits)

section \<open>A closed job stays closed\<close>

lemma closed_update:
  assumes "settled jid w" and "\<And>j. job_id (f j) = job_id j"
    and "\<And>j. P j \<Longrightarrow> job_id j = jid \<Longrightarrow> \<not> active_state (job_state j) \<Longrightarrow> \<not> active_state (job_state (f j))"
  shows "settled jid (w\<lparr>w_catalog := update_jobs P f (w_catalog w)\<rparr>)"
  using assms by (auto simp: settled_def set_update_where)

lemma closed_enqueue:
  assumes "calm jid w" and "settled jid w" shows "settled jid (snd (enqueue_document_pipeline force d w))"
proof -
  have "w_uuid w (w_next w) \<noteq> jid" using assms(1) by (auto simp: calm_def)
  with assms(2) show ?thesis
    by (auto simp: enqueue_document_pipeline_def settled_def Let_def enqueue_pipeline_def insert_job_def
        split: option.splits if_splits)
qed

lemma closed_delete: "settled jid w \<Longrightarrow> settled jid (delete_completed d w)"
  by (auto simp: delete_completed_def settled_def Let_def remove_artifact_tree_def remove_sources_def delete_rows_def
      cancel_for_document_def set_update_where mark_cancel_def cancellable_def active_state_def)

lemma interfere_closed: "calm jid w \<Longrightarrow> settled jid w \<Longrightarrow> settled jid (interfere w i)"
  by (cases i) (auto simp: interfere_def closed_enqueue closed_delete request_cancel_def Let_def mark_cancel_def
      cancellable_def active_state_def intro!: closed_update)

interpretation shut: calm_assertion jid "settled jid" for jid
  by unfold_locales (auto simp: interfere_closed, simp add: settled_def)

text \<open>An operation that ends the job, and never dies.\<close>

definition ends :: "ident \<Rightarrow> 'a wop \<Rightarrow> bool" where
  "ends jid m \<longleftrightarrow> triple (calm jid) m (\<lambda>_ w. calm jid w \<and> settled jid w) (\<lambda>e w. calm jid w \<and> e \<noteq> Died)"

lemma update_job_closed:
  assumes "\<not> active_state st"
  shows "settled jid (w\<lparr>w_catalog := update_job jid st sg p e now c\<rparr>)"
  unfolding settled_def
proof (intro ballI impI)
  fix j assume "j \<in> set (cat_jobs (w_catalog (w\<lparr>w_catalog := update_job jid st sg p e now c\<rparr>)))" and j: "job_id j = jid"
  then have "j \<in> set (update_where (\<lambda>j. job_id j = jid) (\<lambda>j. j\<lparr>job_state := st, job_stage := Some sg,
      job_progress := max 0 (min 100 p), job_error := e, job_updated := now\<rparr>) (cat_jobs c))"
    by (simp add: update_job_def)
  then show "\<not> active_state (job_state j)"
    unfolding set_update_where by (rule imageE) (use j assms in \<open>simp split: if_splits\<close>)
qed

lemma ends_update:
  assumes "\<not> active_state st"
  shows "ends jid (tx_do (update_job jid st sg p e))"
proof -
  have "triple (\<lambda>w. calm jid w \<and> True) (tx (\<lambda>now c. ((), update_job jid st sg p e now c)))
      (\<lambda>_ w. calm jid w \<and> settled jid w) (\<lambda>e w. calm jid w \<and> e \<noteq> Died)"
  proof (rule any.tx_calm)
    fix w x c assume w: "calm jid w" and "((), update_job jid st sg p e (w_clock w) (w_catalog w)) = (x, c)"
    then have c: "c = update_job jid st sg p e (w_clock w) (w_catalog w)" by simp
    have "calm jid (w\<lparr>w_catalog := c\<rparr>)" using calm_ids [OF w] by (intro calm_catalog [OF w]) (simp add: c)
    moreover have "settled jid (w\<lparr>w_catalog := c\<rparr>)" unfolding c by (rule update_job_closed [OF assms])
    ultimately show "calm jid (w\<lparr>w_catalog := c\<rparr>) \<and> settled jid (w\<lparr>w_catalog := c\<rparr>)" by blast
  qed
  then show ?thesis by (simp add: ends_def tx_do_def)
qed

lemma ends_seq: "steady jid m \<Longrightarrow> ends jid k \<Longrightarrow> ends jid (seq_op m k)"
  unfolding ends_def steady_def by (rule triple_seq)

lemma ends_then: "steady jid m \<Longrightarrow> (\<And>x. ends jid (k x)) \<Longrightarrow> ends jid (then_op m k)"
  unfolding ends_def steady_def by (rule triple_then)

lemma ends_return: "ends jid m \<Longrightarrow> ends jid (seq_op m (return_op x))"
  unfolding ends_def by (rule triple_seq) (auto intro: triple_return)

lemma ends_raise: "ends jid (raise_op (Raised e))" "ends jid (raise_code c)"
  by (simp_all add: ends_def triple_raise raise_code_def)

lemma ends_if: "(b \<Longrightarrow> ends jid m) \<Longrightarrow> (\<not> b \<Longrightarrow> ends jid k) \<Longrightarrow> ends jid (if b then m else k)"
  by simp

lemma ends_try:
  assumes "ends jid m" and "\<And>e. ends jid (h e)" shows "ends jid (try_except m h)"
  using assms unfolding ends_def
  by (intro triple_try [where R = "\<lambda>e w. calm jid w \<and> e \<noteq> Died"]) (auto intro: triple_weaken)

lemma settled_lock: "settled jid (t\<lparr>w_locked := l\<rparr>) = settled jid t"
  by (simp add: settled_def)

lemma calm_lock: "calm jid (w\<lparr>w_locked := l\<rparr>) = calm jid w"
  by (simp add: calm_def)

lemma ends_lock: "ends jid m \<Longrightarrow> ends jid (with_lock d m)"
  unfolding ends_def triple_def
proof (intro allI impI)
  fix w assume m: "\<forall>s. calm jid s \<longrightarrow> (case m s of (Inr x, t) \<Rightarrow> calm jid t \<and> settled jid t | (Inl e, t) \<Rightarrow> calm jid t \<and> e \<noteq> Died)"
    and w: "calm jid w"
  have "calm jid (w\<lparr>w_locked := Some d\<rparr>)" using w by (rule calm_frame)
  note m [rule_format, OF this]
  moreover obtain r t where "m (w\<lparr>w_locked := Some d\<rparr>) = (r, t)" by (rule prod.exhaust)
  ultimately show "case with_lock d m w of (Inr x, t) \<Rightarrow> calm jid t \<and> settled jid t | (Inl e, t) \<Rightarrow> calm jid t \<and> e \<noteq> Died"
    by (cases r) (simp_all add: with_lock_def calm_lock settled_lock)
qed

lemmas ends_intro = ends_if ends_raise ends_return ends_seq ends_then

section \<open>The worker settles its job\<close>

lemma index_failed_ends: "ends jid (index_failed jid' d a ac x)"
  unfolding index_failed_def
  by (cases x) (auto intro!: ends_seq ends_raise steady_intro)

lemma ends_split: "(\<And>x y z. ends jid (f x y z)) \<Longrightarrow> ends jid (case t of (x, y, z) \<Rightarrow> f x y z)"
  by (cases t) simp

lemma run_index_ends: "ends jid (run_index load b d jid pipeline a activate reuse)"
  unfolding run_index_def
  by (intro ends_seq ends_then steady_intro ends_return ends_update ends_split | simp add: active_state_def)+

lemma index_job_steady: "triple (calm jid) (index_job d a (Some jid)) (\<lambda>k w. calm jid w \<and> k = jid) (\<lambda>e w. calm jid w \<and> e \<noteq> Died)"
proof -
  have attach: "triple (calm jid) (seq_op (tx_do (attach_artifact jid a)) (return_op jid)) (\<lambda>k w. calm jid w \<and> k = jid) (\<lambda>e w. calm jid w \<and> e \<noteq> Died)"
    using steady_jobs(7) [of jid jid a] unfolding steady_def by (rule triple_seq) (auto intro: triple_return)
  have reject: "triple (calm jid) (raise_code c) (\<lambda>k w. calm jid w \<and> k = jid) (\<lambda>e w. calm jid w \<and> e \<noteq> Died)" for c
    by (simp add: raise_code_def triple_raise)
  show ?thesis
    using steady_tx_get [of jid "\<lambda>c. get_job c jid"] unfolding steady_def index_job_def option.case
    by (rule triple_then) (auto intro: attach reject)
qed

lemma index_locked_ends: "ends jid (index_document_locked load b d (Some jid) art activate reuse)"
proof -
  have body: "ends jid (then_op (index_job d a (Some jid)) (\<lambda>k.
      seq_op (when_op activate (tx_do (set_document_state d DOC_INDEXING None)))
        (try_except (run_index load b d k True a activate reuse) (index_failed k d a activate))))" for a reuse
    unfolding ends_def
  proof (rule triple_then [OF index_job_steady])
    fix k
    have "ends jid (seq_op (when_op activate (tx_do (set_document_state d DOC_INDEXING None)))
        (try_except (run_index load b d jid True a activate reuse) (index_failed jid d a activate)))"
      by (intro ends_seq ends_try run_index_ends index_failed_ends steady_intro) simp
    then show "triple (\<lambda>w. calm jid w \<and> k = jid) (seq_op (when_op activate (tx_do (set_document_state d DOC_INDEXING None)))
        (try_except (run_index load b d k True a activate reuse) (index_failed k d a activate)))
      (\<lambda>_ w. calm jid w \<and> settled jid w) (\<lambda>e w. calm jid w \<and> e \<noteq> Died)"
      unfolding ends_def by (cases "k = jid") (auto simp: triple_def)
  qed
  show ?thesis unfolding index_document_locked_def
    by (rule ends_then [OF steady_tx_get]) (auto intro!: ends_raise ends_seq steady_intro body simp del: insert_iff split: option.splits)
qed

lemma index_ends: "ends jid (index_document load b d (Some jid) art activate reuse)"
  unfolding index_document_def by (rule ends_lock [OF index_locked_ends])

lemma prepare_and_index_ends: "ends jid (prepare_and_index env load b d jid)"
  unfolding prepare_and_index_def
  by (intro ends_then ends_seq ends_return index_ends steady_intro)

lemma process_state_ends: "ends jid (process_document_state env load b d jid doc)"
  unfolding process_document_state_def
  by (auto intro!: ends_seq ends_return index_ends prepare_and_index_ends ends_update steady_intro
      simp: active_state_def split: option.splits)

text \<open>The handlers close a job that is still open, and leave a closed one alone.\<close>

definition finishes :: "ident \<Rightarrow> 'a wop \<Rightarrow> bool" where
  "finishes jid m \<longleftrightarrow> triple (calm jid) m (\<lambda>_ w. calm jid w \<and> settled jid w) (\<lambda>_ _. False)"

lemma finishes_update:
  assumes "\<not> active_state st"
  shows "finishes jid (tx_do (update_job jid st sg p e))"
proof -
  have "triple (\<lambda>w. calm jid w \<and> True) (tx (\<lambda>now c. ((), update_job jid st sg p e now c)))
      (\<lambda>_ w. calm jid w \<and> settled jid w) (\<lambda>_ _. False)"
  proof (rule any.tx_calm)
    fix w x c assume w: "calm jid w" and "((), update_job jid st sg p e (w_clock w) (w_catalog w)) = (x, c)"
    then have c: "c = update_job jid st sg p e (w_clock w) (w_catalog w)" by simp
    have "calm jid (w\<lparr>w_catalog := c\<rparr>)" using calm_ids [OF w] by (intro calm_catalog [OF w]) (simp add: c)
    moreover have "settled jid (w\<lparr>w_catalog := c\<rparr>)" unfolding c by (rule update_job_closed [OF assms])
    ultimately show "calm jid (w\<lparr>w_catalog := c\<rparr>) \<and> settled jid (w\<lparr>w_catalog := c\<rparr>)" by blast
  qed
  then show ?thesis by (simp add: finishes_def tx_do_def)
qed

lemma finishes_fail: "finishes jid (fail_job jid c)" "finishes jid (cancel_job_row jid)"
  by (auto simp: fail_job_def cancel_job_row_def active_state_def intro!: finishes_update)

lemma finishes_get: "(\<And>x. triple (\<lambda>w. calm jid w \<and> x = f (w_catalog w)) (k x) (\<lambda>_ w. calm jid w \<and> settled jid w) (\<lambda>_ _. False))
  \<Longrightarrow> finishes jid (then_op (tx_get f) k)"
proof -
  assume k: "\<And>x. triple (\<lambda>w. calm jid w \<and> x = f (w_catalog w)) (k x) (\<lambda>_ w. calm jid w \<and> settled jid w) (\<lambda>_ _. False)"
  have "triple (\<lambda>w. calm jid w \<and> True) (tx_get f) (\<lambda>x w. calm jid w \<and> x = f (w_catalog w)) (\<lambda>_ _. False)"
    unfolding tx_get_def by (rule any.tx_calm) auto
  from triple_then [OF this k] show ?thesis by (simp add: finishes_def)
qed

lemma finishes_get_any: "(\<And>x. finishes jid (k x)) \<Longrightarrow> finishes jid (then_op (tx_get f) k)"
  by (rule finishes_get) (auto simp: finishes_def triple_def)

lemma get_job_iff:
  "distinct (map job_id (cat_jobs c)) \<Longrightarrow> get_job c k = Some j \<longleftrightarrow> j \<in> set (cat_jobs c) \<and> job_id j = k"
  by (simp add: get_job_def find_key_iff)

lemma finishes_close: "finishes jid m \<Longrightarrow> finishes jid (close_open_job jid m)"
  unfolding close_open_job_def
proof (rule finishes_get)
  fix x assume m: "finishes jid m"
  have "settled jid w" if "calm jid w" "x = get_job (w_catalog w) jid"
      "\<not> (case x of None \<Rightarrow> False | Some j \<Rightarrow> active_state (job_state j))" for w
    unfolding settled_def
  proof (intro ballI impI)
    fix j assume "j \<in> set (cat_jobs (w_catalog w))" "job_id j = jid"
    then have "get_job (w_catalog w) jid = Some j" using get_job_iff [OF calm_ids [OF that(1)]] by blast
    then show "\<not> active_state (job_state j)" using that(2,3) by simp
  qed
  then show "triple (\<lambda>w. calm jid w \<and> x = get_job (w_catalog w) jid)
      (when_op (case x of None \<Rightarrow> False | Some j \<Rightarrow> active_state (job_state j)) m)
      (\<lambda>_ w. calm jid w \<and> settled jid w) (\<lambda>_ _. False)"
    using m by (auto simp: when_op_def finishes_def intro!: triple_return elim: triple_weaken)
qed

lemma process_failed_finishes: "finishes jid (process_failed jid x)"
  unfolding process_failed_def by (rule finishes_close) (auto simp: finishes_fail split: py_exn.splits)

lemma finishes_try: "ends jid m \<Longrightarrow> (\<And>e. finishes jid (h e)) \<Longrightarrow> finishes jid (try_except m h)"
  unfolding ends_def finishes_def
  by (rule triple_try [where R = "\<lambda>e w. calm jid w \<and> e \<noteq> Died"]) (auto intro: triple_weaken)

lemma process_finishes: "finishes (job_id j) (process env load b j)"
  unfolding process_def Let_def
  by (auto intro!: finishes_get_any finishes_try process_state_ends process_failed_finishes
      simp: finishes_fail split: option.splits)

text \<open>
  C15. The worker settles the job it takes up. In a world in which no step fails and the process does
  not die, but where other threads cancel, enqueue, reindex and delete as they please, \<open>process\<close>
  returns without an exception, and afterwards the job is gone (its document was deleted) or in a
  terminal state: no job the worker took up is left open.
\<close>

theorem process_settles:
  assumes "calm (job_id j) w"
  shows "\<exists>w'. process env load b j w = (Inr (), w') \<and> settled (job_id j) w'"
proof -
  obtain r w' where "process env load b j w = (r, w')" by (rule prod.exhaust)
  with tripleD [OF process_finishes [unfolded finishes_def] assms this] show ?thesis by (cases r) auto
qed

definition queued_world :: world where
  "queued_world = snd (enqueue_document_pipeline False ''d1'' accepted_world)"

theorem process_settles_witness:
  "\<exists>j w'. get_job (w_catalog queued_world) ''j'' = Some j \<and> active_state (job_state j)
     \<and> process sample_env (Inr sample_embedder) 32 j queued_world = (Inr (), w') \<and> settled ''j'' w'"
proof -
  obtain j where j: "get_job (w_catalog queued_world) ''j'' = Some j" "active_state (job_state j)" "job_id j = ''j''"
    by (auto simp: queued_world_def enqueue_document_pipeline_def accepted_world_def sample_world_def get_document_def
        sample_document_def close_gate_def enqueue_pipeline_def insert_job_def latest_job_def empty_catalog_def
        get_job_def active_state_def)
  have "calm ''j'' queued_world"
    by (auto simp: calm_def queued_world_def enqueue_document_pipeline_def accepted_world_def sample_world_def get_document_def
        sample_document_def close_gate_def enqueue_pipeline_def insert_job_def latest_job_def empty_catalog_def get_job_def)
  with process_settles [of j queued_world] j show ?thesis by metis
qed

end
