(* ===== verification/Ranking.thy ===== *)
theory Ranking
  imports PyText
begin

text \<open>
  Retrieval candidates (\<open>app/retrieval/types.py\<close>, \<open>hierarchy_types.py\<close>, \<open>schemas.py\<close>) and reciprocal
  rank fusion (\<open>app/retrieval/rrf.py\<close>). Scores are rationals: the rounding of floats is not modelled.
\<close>

section \<open>Metadata\<close>

datatype meta =
    MNull | MBool bool | MNum rat | MStr pytext | MList "meta list" | MDict "(string \<times> meta) list"

type_synonym metadata = "(string \<times> meta) list"

text \<open>The dict of an authoritative legal path, when the metadata has one.\<close>

definition meta_dict :: "metadata \<Rightarrow> string \<Rightarrow> metadata option" where
  "meta_dict m k = (case map_of m k of Some (MDict d) \<Rightarrow> Some d | _ \<Rightarrow> None)"

definition meta_str :: "metadata \<Rightarrow> string \<Rightarrow> pytext option" where
  "meta_str m k = (case map_of m k of Some (MStr t) \<Rightarrow> Some t | _ \<Rightarrow> None)"

fun all_strings :: "meta list \<Rightarrow> pytext list option" where
  "all_strings [] = Some []"
| "all_strings (MStr t # xs) = map_option (Cons t) (all_strings xs)"
| "all_strings (_ # xs) = None"

definition meta_strings :: "metadata \<Rightarrow> string \<Rightarrow> pytext list option" where
  "meta_strings m k = (case map_of m k of Some (MList xs) \<Rightarrow> all_strings xs | _ \<Rightarrow> None)"

section \<open>Candidates\<close>

datatype candidate_origin = RETRIEVAL | HIERARCHY_CHILD

datatype hierarchy_relation = DIRECT_CHILD

record anchor_reference =
  ar_chunk :: ident
  ar_unit :: ident
  ar_rank :: int

record candidate_row =
  ca_chunk :: ident
  ca_document :: ident
  ca_content :: pytext
  ca_metadata :: metadata
  ca_provenance :: metadata
  ca_dense_score :: "rat option"
  ca_dense_rank :: "int option"
  ca_lexical_score :: "rat option"
  ca_lexical_rank :: "int option"
  ca_fusion :: "rat option"
  ca_rank :: "int option"
  ca_order :: int
  ca_origin :: candidate_origin
  ca_unit :: "ident option"
  ca_relation :: "hierarchy_relation option"
  ca_depth :: int
  ca_anchor_chunk :: "ident option"
  ca_anchor_unit :: "ident option"
  ca_anchor_rank :: "int option"
  ca_references :: "anchor_reference list"
  ca_final_rank :: "int option"

text \<open>The field bounds and \<open>validate_origin_contract\<close>. A truthy string is one that is not empty.\<close>

definition rank_ok :: "int option \<Rightarrow> bool" where
  "rank_ok r \<longleftrightarrow> (case r of None \<Rightarrow> True | Some n \<Rightarrow> 0 < n \<and> n \<le> 10)"

definition filled :: "ident option \<Rightarrow> bool" where
  "filled x \<longleftrightarrow> x \<noteq> None \<and> x \<noteq> Some []"

definition retrieval_contract :: "candidate_row \<Rightarrow> bool" where
  "retrieval_contract c \<longleftrightarrow> ca_rank c \<noteq> None \<and> ca_final_rank c = ca_rank c
     \<and> (ca_dense_rank c \<noteq> None \<or> ca_lexical_rank c \<noteq> None) \<and> ca_fusion c \<noteq> None
     \<and> ca_depth c = 0 \<and> ca_relation c = None
     \<and> ca_anchor_chunk c = None \<and> ca_anchor_unit c = None \<and> ca_anchor_rank c = None"

definition child_contract :: "candidate_row \<Rightarrow> bool" where
  "child_contract c \<longleftrightarrow> ca_rank c = None \<and> ca_final_rank c = None \<and> ca_dense_score c = None
     \<and> ca_dense_rank c = None \<and> ca_lexical_score c = None \<and> ca_lexical_rank c = None \<and> ca_fusion c = None
     \<and> ca_relation c = Some DIRECT_CHILD \<and> ca_depth c = 1
     \<and> filled (ca_unit c) \<and> filled (ca_anchor_chunk c) \<and> filled (ca_anchor_unit c) \<and> ca_anchor_rank c \<noteq> None
     \<and> (case ca_references c of [] \<Rightarrow> False
        | p # _ \<Rightarrow> ca_anchor_chunk c = Some (ar_chunk p) \<and> ca_anchor_unit c = Some (ar_unit p)
            \<and> ca_anchor_rank c = Some (ar_rank p))"

definition candidate_valid :: "candidate_row \<Rightarrow> bool" where
  "candidate_valid c \<longleftrightarrow> rank_ok (ca_rank c) \<and> 0 < ca_order c \<and> ca_depth c \<in> {0, 1}
     \<and> rank_ok (ca_anchor_rank c) \<and> (\<forall>r \<in> set (ca_references c). 0 < ar_rank r \<and> ar_rank r \<le> 10)
     \<and> rank_ok (ca_final_rank c)
     \<and> (case ca_origin c of RETRIEVAL \<Rightarrow> retrieval_contract c | HIERARCHY_CHILD \<Rightarrow> child_contract c)"

section \<open>Reciprocal rank fusion\<close>

text \<open>\<open>DenseCandidate\<close> and \<open>LexicalCandidate\<close> have the same fields.\<close>

record branch_hit =
  br_chunk :: ident
  br_document :: ident
  br_score :: rat
  br_rank :: int

record fused_entry =
  fe_document :: ident
  fe_dense :: "(rat \<times> int) option"
  fe_lexical :: "(rat \<times> int) option"

record fused_candidate =
  fu_chunk :: ident
  fu_document :: ident
  fu_dense :: "(rat \<times> int) option"
  fu_lexical :: "(rat \<times> int) option"
  fu_score :: rat
  fu_rank :: nat

datatype fusion_error = Bad_K | Bad_Top_K | Bad_Dense_Rank | Bad_Lexical_Rank | Document_Mismatch

fun merge_dense :: "branch_hit list \<Rightarrow> (ident \<times> fused_entry) list \<Rightarrow> fusion_error + (ident \<times> fused_entry) list" where
  "merge_dense [] m = Inr m"
| "merge_dense (c # cs) m = (if br_rank c < 1 then Inl Bad_Dense_Rank
     else merge_dense cs (AList.update (br_chunk c)
       \<lparr>fe_document = br_document c, fe_dense = Some (br_score c, br_rank c), fe_lexical = None\<rparr> m))"

fun merge_lexical :: "branch_hit list \<Rightarrow> (ident \<times> fused_entry) list \<Rightarrow> fusion_error + (ident \<times> fused_entry) list" where
  "merge_lexical [] m = Inr m"
| "merge_lexical (c # cs) m = (if br_rank c < 1 then Inl Bad_Lexical_Rank
     else (let e = (case map_of m (br_chunk c) of Some x \<Rightarrow> x
              | None \<Rightarrow> \<lparr>fe_document = br_document c, fe_dense = None, fe_lexical = None\<rparr>) in
       if fe_document e \<noteq> br_document c then Inl Document_Mismatch
       else merge_lexical cs (AList.update (br_chunk c) (e\<lparr>fe_lexical := Some (br_score c, br_rank c)\<rparr>) m)))"

definition contribution :: "int \<Rightarrow> (rat \<times> int) option \<Rightarrow> rat" where
  "contribution k s = (case s of None \<Rightarrow> 0 | Some (_, r) \<Rightarrow> 1 / rat_of_int (k + r))"

definition entry_score :: "int \<Rightarrow> fused_entry \<Rightarrow> rat" where
  "entry_score k e = contribution k (fe_dense e) + contribution k (fe_lexical e)"

definition ranked_entries :: "int \<Rightarrow> (ident \<times> fused_entry) list \<Rightarrow> (ident \<times> fused_entry) list" where
  "ranked_entries k m = sort_key (\<lambda>x. - entry_score k (snd x)) (sort_key fst m)"

definition fused_row :: "int \<Rightarrow> nat \<times> ident \<times> fused_entry \<Rightarrow> fused_candidate" where
  "fused_row k x = (case x of (i, c, e) \<Rightarrow>
     \<lparr>fu_chunk = c, fu_document = fe_document e, fu_dense = fe_dense e, fu_lexical = fe_lexical e,
      fu_score = entry_score k e, fu_rank = i\<rparr>)"

definition reciprocal_rank_fusion ::
  "branch_hit list \<Rightarrow> branch_hit list \<Rightarrow> int \<Rightarrow> int \<Rightarrow> fusion_error + fused_candidate list" where
  "reciprocal_rank_fusion dense lexical k limit =
     (if k \<le> 0 then Inl Bad_K else if limit \<le> 0 then Inl Bad_Top_K
      else and_then (merge_dense dense []) (\<lambda>m1. and_then (merge_lexical lexical m1) (\<lambda>m2.
        Inr (map (fused_row k) (enumerate 1 (take (nat limit) (ranked_entries k m2)))))))"

section \<open>What the fusion computes\<close>

text \<open>The reference: a branch ranks a chunk by its last hit, and the score of a chunk adds both branches.\<close>

definition last_hit :: "branch_hit list \<Rightarrow> ident \<Rightarrow> branch_hit option" where
  "last_hit hits c = map_of (rev (map (\<lambda>h. (br_chunk h, h)) hits)) c"

definition first_hit :: "branch_hit list \<Rightarrow> ident \<Rightarrow> branch_hit option" where
  "first_hit hits c = map_of (map (\<lambda>h. (br_chunk h, h)) hits) c"

definition branch_signal :: "branch_hit list \<Rightarrow> ident \<Rightarrow> (rat \<times> int) option" where
  "branch_signal hits c = map_option (\<lambda>h. (br_score h, br_rank h)) (last_hit hits c)"

definition rrf_score :: "branch_hit list \<Rightarrow> branch_hit list \<Rightarrow> int \<Rightarrow> ident \<Rightarrow> rat" where
  "rrf_score dense lexical k c = contribution k (branch_signal dense c) + contribution k (branch_signal lexical c)"

definition chunk_document :: "branch_hit list \<Rightarrow> branch_hit list \<Rightarrow> ident \<Rightarrow> ident" where
  "chunk_document dense lexical c = br_document (the (case last_hit dense c of
     Some h \<Rightarrow> Some h | None \<Rightarrow> first_hit lexical c))"

definition branch_ids :: "branch_hit list \<Rightarrow> ident set" where
  "branch_ids hits = br_chunk ` set hits"

definition ranked_ids :: "branch_hit list \<Rightarrow> branch_hit list \<Rightarrow> int \<Rightarrow> ident list" where
  "ranked_ids dense lexical k = sort_key (\<lambda>c. - rrf_score dense lexical k c)
     (sorted_list_of_set (branch_ids dense \<union> branch_ids lexical))"

definition fusable :: "branch_hit list \<Rightarrow> branch_hit list \<Rightarrow> bool" where
  "fusable dense lexical \<longleftrightarrow> (\<forall>h \<in> set dense \<union> set lexical. 1 \<le> br_rank h)
     \<and> (\<forall>h \<in> set lexical. br_document h = chunk_document dense lexical (br_chunk h))"

lemma last_hit_Nil [simp]: "last_hit [] c = None"
  by (simp add: last_hit_def)

lemma last_hit_Cons:
  "last_hit (h # hits) c = (case last_hit hits c of Some x \<Rightarrow> Some x
     | None \<Rightarrow> if br_chunk h = c then Some h else None)"
  by (auto simp: last_hit_def map_add_def split: option.splits)

lemma first_hit_simps [simp]:
  "first_hit [] c = None"
  "first_hit (h # hits) c = (if br_chunk h = c then Some h else first_hit hits c)"
  by (simp_all add: first_hit_def)

lemma last_hit_None: "last_hit hits c = None \<longleftrightarrow> c \<notin> branch_ids hits"
  by (induction hits) (auto simp: last_hit_Cons branch_ids_def split: option.splits)

lemma first_hit_None: "first_hit hits c = None \<longleftrightarrow> c \<notin> branch_ids hits"
  by (induction hits) (auto simp: branch_ids_def)

definition dense_entry :: "branch_hit \<Rightarrow> fused_entry" where
  "dense_entry h = \<lparr>fe_document = br_document h, fe_dense = Some (br_score h, br_rank h), fe_lexical = None\<rparr>"

lemma merge_dense_Inr: "merge_dense hits m = Inr m' \<Longrightarrow> \<forall>h \<in> set hits. 1 \<le> br_rank h"
  by (induction hits arbitrary: m) (auto split: if_splits)

lemma merge_dense_ok: "\<forall>h \<in> set hits. 1 \<le> br_rank h \<Longrightarrow> \<exists>m'. merge_dense hits m = Inr m'"
  by (induction hits arbitrary: m) auto

lemma merge_dense_map:
  "merge_dense hits m = Inr m' \<Longrightarrow>
     map_of m' c = (case last_hit hits c of Some h \<Rightarrow> Some (dense_entry h) | None \<Rightarrow> map_of m c)"
  by (induction hits arbitrary: m)
    (auto simp: last_hit_Cons update_conv' dense_entry_def split: if_splits option.splits)

lemma merge_dense_distinct:
  "merge_dense hits m = Inr m' \<Longrightarrow> distinct (map fst m) \<Longrightarrow> distinct (map fst m')"
  by (induction hits arbitrary: m) (auto simp: distinct_update split: if_splits)

definition lexical_base :: "(ident \<times> fused_entry) list \<Rightarrow> branch_hit list \<Rightarrow> ident \<Rightarrow> fused_entry" where
  "lexical_base m hits c = (case map_of m c of Some e \<Rightarrow> e
     | None \<Rightarrow> \<lparr>fe_document = br_document (the (first_hit hits c)), fe_dense = None, fe_lexical = None\<rparr>)"

definition lexical_fits :: "(ident \<times> fused_entry) list \<Rightarrow> branch_hit list \<Rightarrow> bool" where
  "lexical_fits m hits \<longleftrightarrow> (\<forall>h \<in> set hits. 1 \<le> br_rank h
     \<and> br_document h = fe_document (lexical_base m hits (br_chunk h)))"

lemma merge_lexical_distinct:
  "merge_lexical hits m = Inr m' \<Longrightarrow> distinct (map fst m) \<Longrightarrow> distinct (map fst m')"
  by (induction hits arbitrary: m) (auto simp: distinct_update Let_def split: if_splits option.splits)


lemma lexical_base_update:
  "fe_document (lexical_base (AList.update (br_chunk h)
      ((lexical_base m (h # hits) (br_chunk h))\<lparr>fe_lexical := s\<rparr>) m) hits c)
    = fe_document (lexical_base m (h # hits) c)"
  by (cases "br_chunk h = c") (simp_all add: lexical_base_def update_conv' split: option.split)

lemma merge_lexical_step:
  "merge_lexical (h # hits) m = (if br_rank h < 1 then Inl Bad_Lexical_Rank
     else if br_document h \<noteq> fe_document (lexical_base m (h # hits) (br_chunk h)) then Inl Document_Mismatch
     else merge_lexical hits (AList.update (br_chunk h)
       ((lexical_base m (h # hits) (br_chunk h))\<lparr>fe_lexical := Some (br_score h, br_rank h)\<rparr>) m))"
  by (auto simp: Let_def lexical_base_def split: option.splits)

lemma lexical_fits_Cons:
  "lexical_fits m (h # hits) \<longleftrightarrow> 1 \<le> br_rank h \<and> br_document h = fe_document (lexical_base m (h # hits) (br_chunk h))
     \<and> lexical_fits (AList.update (br_chunk h)
       ((lexical_base m (h # hits) (br_chunk h))\<lparr>fe_lexical := Some (br_score h, br_rank h)\<rparr>) m) hits"
  unfolding lexical_fits_def lexical_base_update by simp

lemma merge_lexical_fits: "(\<exists>m'. merge_lexical hits m = Inr m') \<longleftrightarrow> lexical_fits m hits"
proof (induction hits arbitrary: m)
  case Nil
  show ?case by (simp add: lexical_fits_def)
next
  case (Cons h hits)
  show ?case by (simp add: merge_lexical_step lexical_fits_Cons Cons.IH del: merge_lexical.simps)
qed

lemma merge_lexical_map:
  "merge_lexical hits m = Inr m' \<Longrightarrow>
     map_of m' c = (case last_hit hits c of None \<Rightarrow> map_of m c
       | Some h \<Rightarrow> Some ((lexical_base m hits c)\<lparr>fe_lexical := Some (br_score h, br_rank h)\<rparr>))"
proof (induction hits arbitrary: m)
  case Nil
  then show ?case by simp
next
  case (Cons h hits)
  show ?case
    using Cons.prems Cons.IH [of "AList.update (br_chunk h)
       ((lexical_base m (h # hits) (br_chunk h))\<lparr>fe_lexical := Some (br_score h, br_rank h)\<rparr>) m"]
    by (auto simp: merge_lexical_step last_hit_Cons update_conv' lexical_base_def simp del: merge_lexical.simps
        split: if_splits option.splits)
qed

section \<open>Sorting\<close>

lemma insort_map: "map f (insort_key (\<lambda>x. g (f x)) x xs) = insort_key g (f x) (map f xs)"
  by (induction xs) auto

lemma sort_map: "map f (sort_key (\<lambda>x. g (f x)) xs) = sort_key g (map f xs)"
  by (induction xs) (simp_all add: insort_map)

lemma sort_keys_distinct:
  assumes "distinct (map fst m)"
  shows "map fst (sort_key fst m) = sorted_list_of_set (set (map fst m))"
  using sort_map [of fst "\<lambda>x. x" m] assms
  by (simp only: sorted_list_of_set_sort_remdups distinct_remdups_id)

lemma insort_cong: "(\<And>y. y \<in> insert x (set xs) \<Longrightarrow> f y = g y) \<Longrightarrow> insort_key f x xs = insort_key g x xs"
  by (induction xs) auto

lemma sort_cong: "(\<And>y. y \<in> set xs \<Longrightarrow> f y = g y) \<Longrightarrow> sort_key f xs = sort_key g xs"
  by (induction xs) (auto intro!: insort_cong)

section \<open>The fusion against its reference\<close>

definition reference_entry :: "branch_hit list \<Rightarrow> branch_hit list \<Rightarrow> ident \<Rightarrow> fused_entry" where
  "reference_entry dense lexical c = \<lparr>fe_document = chunk_document dense lexical c,
     fe_dense = branch_signal dense c, fe_lexical = branch_signal lexical c\<rparr>"

definition reference_fusion ::
  "branch_hit list \<Rightarrow> branch_hit list \<Rightarrow> int \<Rightarrow> int \<Rightarrow> fused_candidate list" where
  "reference_fusion dense lexical k limit =
     map (\<lambda>(i, c). fused_row k (i, c, reference_entry dense lexical c))
       (enumerate 1 (take (nat limit) (ranked_ids dense lexical k)))"

lemma enumerate_map: "enumerate n (map f xs) = map (\<lambda>(i, x). (i, f x)) (enumerate n xs)"
  by (induction xs arbitrary: n) simp_all

lemma reference_score: "entry_score k (reference_entry dense lexical c) = rrf_score dense lexical k c"
  by (simp add: entry_score_def rrf_score_def reference_entry_def)

lemma merged_base:
  assumes m1: "merge_dense dense [] = Inr m1"
  shows "lexical_base m1 lexical c = \<lparr>fe_document = chunk_document dense lexical c,
    fe_dense = branch_signal dense c, fe_lexical = None\<rparr>"
  using merge_dense_map [OF m1, of c]
  by (simp add: lexical_base_def chunk_document_def branch_signal_def dense_entry_def split: option.splits)

lemma merged_fits:
  assumes m1: "merge_dense dense [] = Inr m1"
  shows "lexical_fits m1 lexical \<longleftrightarrow> fusable dense lexical"
  using merge_dense_Inr [OF m1] by (auto simp: lexical_fits_def fusable_def merged_base [OF m1])

lemma merged_map:
  assumes m1: "merge_dense dense [] = Inr m1" and m2: "merge_lexical lexical m1 = Inr m2"
  shows "map_of m2 c = (if c \<in> branch_ids dense \<union> branch_ids lexical
    then Some (reference_entry dense lexical c) else None)"
proof (cases "last_hit lexical c")
  case None
  then show ?thesis
    using merge_lexical_map [OF m2, of c] merge_dense_map [OF m1, of c] last_hit_None [of lexical c]
      last_hit_None [of dense c]
    by (auto simp: reference_entry_def branch_signal_def chunk_document_def dense_entry_def split: option.splits)
next
  case (Some h)
  then have "c \<in> branch_ids lexical"
    using last_hit_None [of lexical c] by auto
  with Some show ?thesis
    using merge_lexical_map [OF m2, of c] merged_base [OF m1]
    by (simp add: reference_entry_def branch_signal_def)
qed

lemma merged_ranked:
  assumes m1: "merge_dense dense [] = Inr m1" and m2: "merge_lexical lexical m1 = Inr m2"
  shows "ranked_entries k m2 = map (\<lambda>c. (c, reference_entry dense lexical c)) (ranked_ids dense lexical k)"
proof -
  have distinct: "distinct (map fst m2)"
    using merge_lexical_distinct [OF m2] merge_dense_distinct [OF m1] by simp
  have entry: "snd y = reference_entry dense lexical (fst y)" if "y \<in> set m2" for y
  proof -
    from that distinct have "map_of m2 (fst y) = Some (snd y)" by simp
    then show ?thesis by (simp add: merged_map [OF m1 m2] split: if_splits)
  qed
  have keys: "set (map fst m2) = branch_ids dense \<union> branch_ids lexical"
    using merged_map [OF m1 m2] by (auto simp: dom_map_of_conv_image_fst [symmetric] dom_def split: if_splits)
  have "map fst (ranked_entries k m2) = map fst (sort_key (\<lambda>x. - rrf_score dense lexical k (fst x)) (sort_key fst m2))"
    unfolding ranked_entries_def
    by (rule arg_cong [where f = "map fst"], rule sort_cong) (simp add: entry reference_score)
  also have "\<dots> = ranked_ids dense lexical k"
    by (simp only: sort_map [of fst "\<lambda>c. - rrf_score dense lexical k c"] sort_keys_distinct [OF distinct] keys ranked_ids_def)
  finally have "map fst (ranked_entries k m2) = ranked_ids dense lexical k" .
  moreover have "ranked_entries k m2 = map (\<lambda>c. (c, reference_entry dense lexical c)) (map fst (ranked_entries k m2))"
    unfolding ranked_entries_def map_map by (rule map_idI [symmetric]) (simp add: entry [symmetric])
  ultimately show ?thesis by simp
qed


end
