(* ===== verification/Expansion.thy ===== *)
theory Expansion
  imports Ranking
begin

text \<open>
  The bounded one-hop expansion of retrieved candidates by the direct children of their legal units
  (\<open>app/retrieval/hierarchy_expander.py\<close>). The repository is any function of the anchors and the documents that
  answers rows or raises. Identifiers are canonical UUID strings, on which \<open>UUID\<close> and \<open>str\<close> are the identity;
  the timings of the diagnostics are left out.
\<close>

section \<open>Rows, diagnostics and errors\<close>

record child_hit =
  ch_anchor :: ident
  ch_anchor_unit :: ident
  ch_unit :: ident
  ch_document :: ident
  ch_char_start :: int
  ch_type :: string
  ch_number :: "pytext option"
  ch_title :: "pytext option"
  ch_chunk :: ident
  ch_index :: nat
  ch_content :: pytext
  ch_metadata :: metadata
  ch_provenance :: metadata

datatype expansion_status = DISABLED | EXPANDED | NO_EXPANSION | BASELINE_FALLBACK

record expansion_diag =
  ed_status :: expansion_status
  ed_enabled :: bool
  ed_stage :: "string option"
  ed_reasons :: "string list"
  ed_base :: nat
  ed_units :: nat
  ed_expanded :: nat
  ed_unitless :: nat
  ed_childless :: nat
  ed_examined :: nat
  ed_added :: nat
  ed_duplicates :: nat
  ed_filtered :: nat
  ed_anchor_caps :: nat
  ed_global_cap :: bool
  ed_fallback :: bool

datatype expansion_error =
    Unknown_Anchor | Invalid_Relation | Self_Parent | Foreign_Document | Invalid_Reference | Invalid_Candidate
  | Lookup_Raised | Missing_Key

datatype type_error = Ranks_Not_Comparable

type_synonym 'a expand_op = "(expansion_diag, expansion_error, 'a) op"

definition max_anchors :: nat where "max_anchors = 10"
definition max_children_per_anchor :: nat where "max_children_per_anchor = 4"
definition max_candidates_added :: nat where "max_candidates_added = 20"

definition add_reason :: "string \<Rightarrow> expansion_diag \<Rightarrow> expansion_diag" where
  "add_reason r d = (if r \<in> set (ed_reasons d) then d else d\<lparr>ed_reasons := ed_reasons d @ [r]\<rparr>)"

definition append_reason :: "string \<Rightarrow> expansion_diag \<Rightarrow> expansion_diag" where
  "append_reason r d = d\<lparr>ed_reasons := ed_reasons d @ [r]\<rparr>"

section \<open>Anchors\<close>

text \<open>\<open>retrieval_final_rank or 10**9\<close>: zero and None count as last.\<close>

definition rank_key :: "candidate_row \<Rightarrow> int" where
  "rank_key c = (case ca_rank c of None \<Rightarrow> 10 ^ 9 | Some n \<Rightarrow> if n = 0 then 10 ^ 9 else n)"

definition order_candidates :: "candidate_row list \<Rightarrow> candidate_row list" where
  "order_candidates base = sort_key rank_key (sort_key ca_chunk base)"

definition renumber_base :: "candidate_row list \<Rightarrow> candidate_row list" where
  "renumber_base cs = map (\<lambda>(i, c). c\<lparr>ca_order := int i\<rparr>) (enumerate 1 cs)"

fun group_anchors ::
  "candidate_row list \<Rightarrow> (ident \<times> candidate_row list) list \<times> expansion_diag
     \<Rightarrow> (ident \<times> candidate_row list) list \<times> expansion_diag" where
  "group_anchors [] s = s"
| "group_anchors (a # as) (groups, d) = (case ca_unit a of
       None \<Rightarrow> group_anchors as (groups, add_reason ''NO_LEGAL_UNIT'' (d\<lparr>ed_unitless := ed_unitless d + 1\<rparr>))
     | Some u \<Rightarrow> group_anchors as (od_append u a groups, d))"

definition by_chunk :: "candidate_row list \<Rightarrow> (ident \<times> candidate_row) list" where
  "by_chunk cs = fold (\<lambda>c. AList.update (ca_chunk c) c) cs []"

text \<open>Sorting the primary anchors compares ranks; Python cannot compare None with a number.\<close>

definition ranks_comparable :: "candidate_row list \<Rightarrow> bool" where
  "ranks_comparable cs \<longleftrightarrow> (\<forall>c \<in> set cs. ca_rank c = None) \<or> (\<forall>c \<in> set cs. ca_rank c \<noteq> None)"

definition sort_primary :: "candidate_row list \<Rightarrow> type_error + candidate_row list" where
  "sort_primary cs = (if ranks_comparable cs
     then Inr (sort_key (\<lambda>c. (case ca_rank c of None \<Rightarrow> 0 | Some n \<Rightarrow> n)) (sort_key ca_chunk cs)) else Inl Ranks_Not_Comparable)"

section \<open>Checking the rows of the lookup\<close>

fun check_rows ::
  "ident list \<Rightarrow> (ident \<times> candidate_row) list \<Rightarrow> (ident \<times> candidate_row list) list \<Rightarrow> child_hit list
     \<Rightarrow> (ident \<times> child_hit list) list \<Rightarrow> (ident \<times> child_hit list) list expand_op" where
  "check_rows allowed anchors groups [] acc = return_op acc"
| "check_rows allowed anchors groups (r # rs) acc =
     (case (map_of anchors (ch_anchor r), map_of groups (ch_anchor r)) of
        (Some a, Some g) \<Rightarrow>
          if Some (ch_anchor_unit r) \<noteq> ca_unit a then raise_op Invalid_Relation
          else if ch_unit r = ch_anchor_unit r then raise_op Self_Parent
          else if ch_document r \<noteq> ca_document a then raise_op Foreign_Document
          else if allowed \<noteq> [] \<and> ch_document r \<notin> set allowed
            then seq_op (modify_op (\<lambda>d. d\<lparr>ed_filtered := ed_filtered d + 1\<rparr>)) (check_rows allowed anchors groups rs acc)
          else check_rows allowed anchors groups rs (od_append (ch_anchor r) r acc)
      | _ \<Rightarrow> raise_op Unknown_Anchor)"

section \<open>Collecting the eligible children\<close>

record collected =
  co_eligible :: "(ident \<times> ident list) list"
  co_rows :: "(ident \<times> child_hit) list"
  co_refs :: "(ident \<times> anchor_reference list) list"

definition make_reference :: "candidate_row \<Rightarrow> expansion_error + anchor_reference" where
  "make_reference a = (case (ca_unit a, ca_rank a) of
       (Some u, Some n) \<Rightarrow> if 0 < n \<and> n \<le> 10 then Inr \<lparr>ar_chunk = ca_chunk a, ar_unit = u, ar_rank = n\<rparr>
         else Inl Invalid_Reference
     | _ \<Rightarrow> Inl Invalid_Reference)"

fun add_references ::
  "ident \<Rightarrow> candidate_row list \<Rightarrow> (ident \<times> anchor_reference list) list
     \<Rightarrow> (ident \<times> anchor_reference list) list expand_op" where
  "add_references child [] refs = return_op refs"
| "add_references child (a # as) refs = (case make_reference a of
       Inl e \<Rightarrow> raise_op e
     | Inr r \<Rightarrow> add_references child as (if (case map_of refs child of None \<Rightarrow> False | Some rs \<Rightarrow> r \<in> set rs) then refs
         else od_append child r refs))"

definition note_duplicate :: "expansion_diag \<Rightarrow> expansion_diag" where
  "note_duplicate d = d\<lparr>ed_duplicates := ed_duplicates d + 1\<rparr>"

fun collect_rows ::
  "ident list \<Rightarrow> ident \<Rightarrow> candidate_row list \<Rightarrow> child_hit list \<Rightarrow> ident list \<Rightarrow> collected \<Rightarrow> collected expand_op" where
  "collect_rows base p g [] seen co = return_op co"
| "collect_rows base p g (r # rs) seen co = (let c = ch_chunk r in
     if c \<in> set seen then seq_op (modify_op note_duplicate) (collect_rows base p g rs seen co)
     else if c \<in> set base
       then seq_op (modify_op (add_reason ''BASE_CANDIDATE_WINS'' \<circ> note_duplicate))
              (collect_rows base p g rs (c # seen) co)
     else then_op (add_references c g (co_refs co)) (\<lambda>refs.
            collect_rows base p g rs (c # seen)
              \<lparr>co_eligible = od_append p c (co_eligible co), co_rows = od_setdefault c r (co_rows co), co_refs = refs\<rparr>))"

fun collect_groups ::
  "ident list \<Rightarrow> (ident \<times> child_hit list) list \<Rightarrow> (ident \<times> candidate_row list) list \<Rightarrow> collected
     \<Rightarrow> collected expand_op" where
  "collect_groups base rows [] co = return_op co"
| "collect_groups base rows ((p, g) # gs) co = (case map_of rows p of
       None \<Rightarrow> seq_op (modify_op (\<lambda>d. d\<lparr>ed_childless := ed_childless d + 1\<rparr>)) (collect_groups base rows gs co)
     | Some rs \<Rightarrow> if rs = []
         then seq_op (modify_op (\<lambda>d. d\<lparr>ed_childless := ed_childless d + 1\<rparr>)) (collect_groups base rows gs co)
         else then_op (collect_rows base p g rs [] co) (collect_groups base rows gs))"

definition sort_references :: "collected \<Rightarrow> collected" where
  "sort_references co = co\<lparr>co_refs :=
     map (\<lambda>(c, rs). (c, sort_key ar_rank (sort_key ar_chunk rs))) (co_refs co)\<rparr>"

section \<open>Emitting the candidates\<close>

definition child_candidate :: "ident \<Rightarrow> child_hit \<Rightarrow> anchor_reference list \<Rightarrow> int \<Rightarrow> candidate_row" where
  "child_candidate c r refs n = (let p = hd refs in
     \<lparr>ca_chunk = c, ca_document = ch_document r, ca_content = ch_content r, ca_metadata = ch_metadata r,
      ca_provenance = ch_provenance r, ca_dense_score = None, ca_dense_rank = None, ca_lexical_score = None,
      ca_lexical_rank = None, ca_fusion = None, ca_rank = None, ca_order = n, ca_origin = HIERARCHY_CHILD,
      ca_unit = Some (ch_unit r), ca_relation = Some DIRECT_CHILD, ca_depth = 1,
      ca_anchor_chunk = Some (ar_chunk p), ca_anchor_unit = Some (ar_unit p), ca_anchor_rank = Some (ar_rank p),
      ca_references = refs, ca_final_rank = None\<rparr>)"

record emission =
  em_out :: "candidate_row list"
  em_children :: "ident list"
  em_expanded :: "ident list"

fun emit_children :: "collected \<Rightarrow> ident \<Rightarrow> ident list \<Rightarrow> nat \<Rightarrow> emission \<Rightarrow> emission expand_op" where
  "emit_children co a [] n em = return_op em"
| "emit_children co a (c # cs) n em = then_op (gets_op ed_added) (\<lambda>added.
     if c \<in> set (em_children em)
       then seq_op (modify_op (add_reason ''MULTIPLE_ANCHOR_DISCOVERY'' \<circ> note_duplicate)) (emit_children co a cs n em)
     else if max_children_per_anchor \<le> n
       then seq_op (modify_op (\<lambda>d. add_reason ''PER_ANCHOR_CAP_REACHED'' (d\<lparr>ed_anchor_caps := ed_anchor_caps d + 1\<rparr>)))
              (return_op em)
     else if max_candidates_added \<le> added
       then seq_op (modify_op (\<lambda>d. add_reason ''GLOBAL_CAP_REACHED'' (d\<lparr>ed_global_cap := True\<rparr>))) (return_op em)
     else (case (map_of (co_rows co) c, map_of (co_refs co) c) of
         (Some r, Some refs) \<Rightarrow>
           if refs = [] then raise_op Missing_Key
           else (let x = child_candidate c r refs (int (length (em_out em)) + 1) in
             if \<not> candidate_valid x then raise_op Invalid_Candidate
             else seq_op (modify_op (\<lambda>d. d\<lparr>ed_added := ed_added d + 1\<rparr>))
               (emit_children co a cs (n + 1) \<lparr>em_out = em_out em @ [x], em_children = c # em_children em,
                  em_expanded = List.insert a (em_expanded em)\<rparr>))
       | _ \<Rightarrow> raise_op Missing_Key))"

fun emit_anchors :: "collected \<Rightarrow> candidate_row list \<Rightarrow> emission \<Rightarrow> emission expand_op" where
  "emit_anchors co [] em = return_op em"
| "emit_anchors co (a # as) em =
     then_op (emit_children co (ca_chunk a)
         (case map_of (co_eligible co) (ca_chunk a) of None \<Rightarrow> [] | Some ids \<Rightarrow> ids) 0
         (em\<lparr>em_out := em_out em @ [a\<lparr>ca_order := int (length (em_out em)) + 1\<rparr>]\<rparr>))
       (emit_anchors co as)"

definition set_stage :: "string \<Rightarrow> expansion_diag \<Rightarrow> expansion_diag" where
  "set_stage s d = d\<lparr>ed_stage := Some s\<rparr>"

definition settle_status :: "emission \<Rightarrow> expansion_diag \<Rightarrow> expansion_diag" where
  "settle_status em d = (let e = d\<lparr>ed_expanded := length (em_expanded em)\<rparr> in
     if 0 < ed_added e then e\<lparr>ed_status := EXPANDED\<rparr>
     else add_reason ''NO_DIRECT_CHILD_CANDIDATE'' (e\<lparr>ed_status := NO_EXPANSION\<rparr>))"

definition merge_children ::
  "candidate_row list \<Rightarrow> child_hit list \<Rightarrow> (ident \<times> candidate_row list) list \<Rightarrow> ident list
     \<Rightarrow> candidate_row list expand_op" where
  "merge_children ordered rows groups docs =
     seq_op (modify_op (set_stage ''HIERARCHY_DEDUP''))
     (then_op (check_rows docs (by_chunk ordered) groups rows []) (\<lambda>checked.
      then_op (collect_groups (map ca_chunk ordered) checked groups \<lparr>co_eligible = [], co_rows = [], co_refs = []\<rparr>) (\<lambda>co.
      seq_op (modify_op (set_stage ''HIERARCHY_ORDERING''))
      (then_op (emit_anchors (sort_references co) ordered \<lparr>em_out = [], em_children = [], em_expanded = []\<rparr>) (\<lambda>em.
       seq_op (modify_op (settle_status em)) (return_op (em_out em)))))))"

section \<open>The expansion\<close>

type_synonym child_lookup = "ident list \<Rightarrow> ident list \<Rightarrow> unit + child_hit list"

definition lookup_and_merge ::
  "child_lookup \<Rightarrow> candidate_row list \<Rightarrow> candidate_row list \<Rightarrow> (ident \<times> candidate_row list) list \<Rightarrow> ident list
     \<Rightarrow> candidate_row list expand_op" where
  "lookup_and_merge lookup ordered primary groups docs =
     (case lookup (map ca_chunk primary) docs of
        Inl _ \<Rightarrow> raise_op Lookup_Raised
      | Inr rows \<Rightarrow> seq_op (modify_op (\<lambda>d. set_stage ''HIERARCHY_LOOKUP'' d\<lparr>ed_examined := length rows\<rparr>))
          (merge_children ordered rows groups docs))"

definition fall_back :: "candidate_row list \<Rightarrow> candidate_row list expand_op" where
  "fall_back ordered = seq_op (modify_op (\<lambda>d. set_stage ''HIERARCHY_LOOKUP'' (append_reason ''HIERARCHY_LOOKUP_FAILED''
       (d\<lparr>ed_status := BASELINE_FALLBACK, ed_fallback := True\<rparr>)))) (return_op (renumber_base ordered))"

definition empty_diag :: "bool \<Rightarrow> nat \<Rightarrow> expansion_diag" where
  "empty_diag enabled n = \<lparr>ed_status = NO_EXPANSION, ed_enabled = enabled, ed_stage = Some ''HIERARCHY_ANCHOR_SELECTION'',
     ed_reasons = [], ed_base = n, ed_units = 0, ed_expanded = 0, ed_unitless = 0, ed_childless = 0, ed_examined = 0,
     ed_added = 0, ed_duplicates = 0, ed_filtered = 0, ed_anchor_caps = 0, ed_global_cap = False, ed_fallback = False\<rparr>"

definition count_units :: "(ident \<times> candidate_row list) list \<Rightarrow> expansion_diag \<Rightarrow> expansion_diag" where
  "count_units groups d = (let e = d\<lparr>ed_units := length groups\<rparr> in
     if int (ed_units e) < int (ed_base e) - int (ed_unitless e)
     then add_reason ''DUPLICATE_ANCHOR_UNIT_COLLAPSED'' e else e)"

definition expand ::
  "child_lookup \<Rightarrow> bool \<Rightarrow> candidate_row list \<Rightarrow> ident list \<Rightarrow> bool \<Rightarrow> type_error + candidate_row list \<times> expansion_diag" where
  "expand lookup enabled base docs canonical = (let ordered = order_candidates base; d0 = empty_diag enabled (length ordered) in
     if \<not> enabled \<or> \<not> canonical
     then Inr (renumber_base ordered, append_reason
       (if \<not> enabled then ''HIERARCHY_DISABLED'' else ''NON_CANONICAL_BASE_WINDOW'') (d0\<lparr>ed_status := DISABLED\<rparr>))
     else (case group_anchors (take max_anchors ordered) ([], d0) of (groups, d1) \<Rightarrow>
       let d2 = count_units groups d1 in
       if groups = [] then Inr (renumber_base ordered, append_reason ''NO_EXPANDABLE_ANCHOR'' d2)
       else and_then (sort_primary (map (hd \<circ> snd) groups)) (\<lambda>primary.
         let by_primary = fold (\<lambda>g. AList.update (ca_chunk (hd (snd g))) (snd g)) groups [] in
         case catch_op (lookup_and_merge lookup ordered primary by_primary docs) (\<lambda>_. fall_back ordered) d2 of
           (Inr out, d3) \<Rightarrow> Inr (out, d3)
         | (Inl _, d3) \<Rightarrow> Inr (renumber_base ordered, d3))))"

section \<open>What the expansion promises\<close>

text \<open>The number of added children is the counter of the diagnostics; only the emission moves it.\<close>

definition added :: "nat \<Rightarrow> expansion_diag \<Rightarrow> bool" where
  "added k d \<longleftrightarrow> ed_added d = k"

lemma added_simps [simp]:
  "added k (add_reason r d) = added k d" "added k (append_reason r d) = added k d"
  "added k (note_duplicate d) = added k d" "added k (set_stage s d) = added k d"
  "added k (count_units gs d) = added k d"
  "added k (d\<lparr>ed_filtered := x\<rparr>) = added k d" "added k (d\<lparr>ed_childless := x\<rparr>) = added k d"
  "added k (d\<lparr>ed_anchor_caps := x\<rparr>) = added k d" "added k (d\<lparr>ed_global_cap := b\<rparr>) = added k d"
  "added k (d\<lparr>ed_unitless := x\<rparr>) = added k d" "added k (d\<lparr>ed_examined := x\<rparr>) = added k d"
  "added k (d\<lparr>ed_added := x\<rparr>) = (x = k)" "added 0 (empty_diag b n)"
  by (simp_all add: added_def add_reason_def append_reason_def note_duplicate_def set_stage_def count_units_def
      empty_diag_def Let_def)

lemma triple_Pair [simp]:
  "triple P (Pair (Inl e)) Q E \<longleftrightarrow> (\<forall>s. P s \<longrightarrow> E e s)"
  "triple P (Pair (Inr x)) Q E \<longleftrightarrow> (\<forall>s. P s \<longrightarrow> Q x s)"
  by (simp_all add: triple_def)

definition rows_sound :: "(child_hit \<Rightarrow> bool) \<Rightarrow> (ident \<times> child_hit list) list \<Rightarrow> bool" where
  "rows_sound R m \<longleftrightarrow> (\<forall>p rs. map_of m p = Some rs \<longrightarrow> (\<forall>r \<in> set rs. R r))"

lemma rows_sound_Nil [simp]: "rows_sound R []"
  by (simp add: rows_sound_def)

lemma rows_sound_append: "rows_sound R m \<Longrightarrow> R r \<Longrightarrow> rows_sound R (od_append p r m)"
  by (cases "map_of m p") (auto simp: rows_sound_def od_append_map_of)

definition row_allowed :: "(child_hit \<Rightarrow> bool) \<Rightarrow> ident list \<Rightarrow> (ident \<times> candidate_row) list \<Rightarrow> child_hit \<Rightarrow> bool" where
  "row_allowed P allowed anchors r \<longleftrightarrow> P r \<and> (allowed = [] \<or> ch_document r \<in> set allowed)
     \<and> (\<exists>a. map_of anchors (ch_anchor r) = Some a \<and> ca_unit a = Some (ch_anchor_unit r)
          \<and> ca_document a = ch_document r) \<and> ch_unit r \<noteq> ch_anchor_unit r"

lemma check_rows_sound:
  "\<forall>r \<in> set rs. P r \<Longrightarrow> rows_sound (row_allowed P allowed anchors) acc \<Longrightarrow>
     triple (added k) (check_rows allowed anchors groups rs acc)
       (\<lambda>m d. added k d \<and> rows_sound (row_allowed P allowed anchors) m) (\<lambda>_. added k)"
proof (induction rs arbitrary: acc)
  case Nil
  then show ?case by simp
next
  case (Cons r rs)
  have skip: "triple (added k) (seq_op (modify_op (\<lambda>d. d\<lparr>ed_filtered := ed_filtered d + 1\<rparr>))
       (check_rows allowed anchors groups rs acc))
       (\<lambda>m d. added k d \<and> rows_sound (row_allowed P allowed anchors) m) (\<lambda>_. added k)"
    by (rule triple_noted [OF _ Cons.IH [OF _ Cons.prems(2)]]) (use Cons.prems(1) in simp_all)
  have take: "triple (added k) (check_rows allowed anchors groups rs (od_append (ch_anchor r) r acc))
       (\<lambda>m d. added k d \<and> rows_sound (row_allowed P allowed anchors) m) (\<lambda>_. added k)"
    if "allowed = [] \<or> ch_document r \<in> set allowed" "map_of anchors (ch_anchor r) = Some a"
      "ca_unit a = Some (ch_anchor_unit r)" "ca_document a = ch_document r" "ch_unit r \<noteq> ch_anchor_unit r" for a
    by (rule Cons.IH [OF _ rows_sound_append [OF Cons.prems(2)]]) (use that Cons.prems(1) in \<open>auto simp: row_allowed_def\<close>)
  show ?case
    using skip take by (auto intro: triple_raise split: option.split)
qed

definition collected_sound :: "(child_hit \<Rightarrow> bool) \<Rightarrow> (anchor_reference \<Rightarrow> bool) \<Rightarrow> ident list \<Rightarrow> collected \<Rightarrow> bool" where
  "collected_sound R F base co \<longleftrightarrow>
     (\<forall>p cs. map_of (co_eligible co) p = Some cs \<longrightarrow> set cs \<inter> set base = {})
     \<and> (\<forall>c r. map_of (co_rows co) c = Some r \<longrightarrow> R r \<and> ch_chunk r = c)
     \<and> (\<forall>c rs. map_of (co_refs co) c = Some rs \<longrightarrow> (\<forall>x \<in> set rs. F x))"

lemma collected_sound_eligible:
  "collected_sound R F base co \<Longrightarrow> map_of (co_eligible co) p = Some cs \<Longrightarrow> x \<in> set cs \<Longrightarrow> x \<notin> set base"
  unfolding collected_sound_def by blast

lemma collected_sound_row:
  "collected_sound R F base co \<Longrightarrow> map_of (co_rows co) c = Some r \<Longrightarrow> R r \<and> ch_chunk r = c"
  unfolding collected_sound_def by blast

lemma collected_sound_add:
  assumes "collected_sound R F base co" "R r" "ch_chunk r \<notin> set base"
    and "\<forall>c rs. map_of refs c = Some rs \<longrightarrow> (\<forall>x \<in> set rs. F x)"
  shows "collected_sound R F base \<lparr>co_eligible = od_append p (ch_chunk r) (co_eligible co),
    co_rows = od_setdefault (ch_chunk r) r (co_rows co), co_refs = refs\<rparr>"
proof -
  have "set cs \<inter> set base = {}" if "map_of (od_append p (ch_chunk r) (co_eligible co)) p' = Some cs" for p' cs
    using od_append_mem [OF that] collected_sound_eligible [OF assms(1)] assms(3) by fast
  moreover have "R r' \<and> ch_chunk r' = c" if "map_of (od_setdefault (ch_chunk r) r (co_rows co)) c = Some r'" for c r'
    using od_setdefault_mem [OF that] collected_sound_row [OF assms(1)] assms(2) by fast
  ultimately show ?thesis
    using assms(4) unfolding collected_sound_def collected.simps by blast
qed

lemma add_references_sound:
  assumes "\<And>a r. a \<in> set g \<Longrightarrow> make_reference a = Inr r \<Longrightarrow> F r"
    and "\<forall>c rs. map_of refs c = Some rs \<longrightarrow> (\<forall>x \<in> set rs. F x)"
  shows "triple (added k) (add_references c g refs)
    (\<lambda>m d. added k d \<and> (\<forall>c rs. map_of m c = Some rs \<longrightarrow> (\<forall>x \<in> set rs. F x))) (\<lambda>_. added k)"
  using assms
proof (induction g arbitrary: refs)
  case Nil
  then show ?case by (simp add: triple_def)
next
  case (Cons a g)
  show ?case
  proof (cases "make_reference a")
    case (Inl e)
    then show ?thesis by (simp add: triple_def)
  next
    case (Inr r)
    have "F r" using Cons.prems(1) [of a r] Inr by simp
    then have "\<forall>c' rs. map_of (od_append c r refs) c' = Some rs \<longrightarrow> (\<forall>x \<in> set rs. F x)"
      using Cons.prems(2) by (blast dest: od_append_mem)
    then show ?thesis
      using Cons.prems(2) Inr by (auto intro!: Cons.IH intro: Cons.prems(1))
  qed
qed

lemma collect_rows_sound:
  assumes "\<And>a r. a \<in> set g \<Longrightarrow> make_reference a = Inr r \<Longrightarrow> F r"
    and "\<forall>r \<in> set rs. R r" and "collected_sound R F base co"
  shows "triple (added k) (collect_rows base p g rs seen co)
    (\<lambda>co d. added k d \<and> collected_sound R F base co) (\<lambda>_. added k)"
  using assms(2,3)
proof (induction rs arbitrary: seen co)
  case Nil
  then show ?case by (simp add: triple_def)
next
  case (Cons r rs)
  have next_row: "triple (\<lambda>d. added k d \<and> (\<forall>c rs. map_of refs c = Some rs \<longrightarrow> (\<forall>x \<in> set rs. F x)))
     (collect_rows base p g rs (ch_chunk r # seen) \<lparr>co_eligible = od_append p (ch_chunk r) (co_eligible co),
        co_rows = od_setdefault (ch_chunk r) r (co_rows co), co_refs = refs\<rparr>)
     (\<lambda>co d. added k d \<and> collected_sound R F base co) (\<lambda>_. added k)"
    if "ch_chunk r \<notin> set base" for refs
    using Cons.prems that by (intro triple_fact Cons.IH collected_sound_add) simp_all
  have refs: "triple (added k) (add_references (ch_chunk r) g (co_refs co))
     (\<lambda>m d. added k d \<and> (\<forall>c rs. map_of m c = Some rs \<longrightarrow> (\<forall>x \<in> set rs. F x))) (\<lambda>_. added k)"
    using Cons.prems(2) assms(1) by (intro add_references_sound) (auto simp: collected_sound_def)
  have skip: "triple (added k) (seq_op (modify_op f) (collect_rows base p g rs seen' co))
      (\<lambda>co d. added k d \<and> collected_sound R F base co) (\<lambda>_. added k)" if "\<And>d. added k (f d) = added k d" for f seen'
    by (rule triple_noted [OF _ Cons.IH]) (use Cons.prems that in auto)
  show ?case
    using skip triple_then [OF refs next_row] by (simp add: Let_def)
qed

lemma collect_groups_sound:
  assumes "\<And>p g a r. (p, g) \<in> set gs \<Longrightarrow> a \<in> set g \<Longrightarrow> make_reference a = Inr r \<Longrightarrow> F r"
    and "rows_sound R rows" and "collected_sound R F base co"
  shows "triple (added k) (collect_groups base rows gs co)
    (\<lambda>co d. added k d \<and> collected_sound R F base co) (\<lambda>_. added k)"
  using assms(1,3)
proof (induction gs arbitrary: co)
  case Nil
  then show ?case by (simp add: triple_def)
next
  case (Cons pg gs)
  obtain p g where pg: "pg = (p, g)" by (cases pg)
  have rest: "triple (\<lambda>d. added k d \<and> collected_sound R F base co') (collect_groups base rows gs co')
     (\<lambda>co d. added k d \<and> collected_sound R F base co) (\<lambda>_. added k)" for co'
    by (intro triple_fact Cons.IH) (use Cons.prems(1) in auto)
  have one: "triple (added k) (collect_rows base p g rs [] co)
     (\<lambda>co d. added k d \<and> collected_sound R F base co) (\<lambda>_. added k)" if "map_of rows p = Some rs" for rs
    by (rule collect_rows_sound) (use Cons.prems pg assms(2) that in \<open>auto simp: rows_sound_def\<close>)
  have childless: "triple (added k) (seq_op (modify_op (\<lambda>d. d\<lparr>ed_childless := ed_childless d + 1\<rparr>))
       (collect_groups base rows gs co)) (\<lambda>co d. added k d \<and> collected_sound R F base co) (\<lambda>_. added k)"
    by (rule triple_noted [OF _ Cons.IH]) (use Cons.prems in auto)
  show ?case
    using childless triple_then [OF one rest] by (auto simp: pg split: option.splits)
qed

lemma sort_references_sound:
  "collected_sound R F base co \<Longrightarrow> collected_sound R F base (sort_references co)"
  by (auto simp: collected_sound_def sort_references_def map_of_map map_option_case split: option.splits)

text \<open>
  The output in blocks: every base candidate followed by its children. \<open>child_ok\<close> says where a child comes from.
\<close>

definition child_ok :: "collected \<Rightarrow> candidate_row \<Rightarrow> bool" where
  "child_ok co x \<longleftrightarrow> candidate_valid x \<and> (\<exists>r refs. map_of (co_rows co) (ca_chunk x) = Some r
     \<and> map_of (co_refs co) (ca_chunk x) = Some refs \<and> refs \<noteq> [] \<and> x = child_candidate (ca_chunk x) r refs (ca_order x))"

definition numbered_from :: "nat \<Rightarrow> candidate_row list \<Rightarrow> bool" where
  "numbered_from n cs \<longleftrightarrow> (\<forall>i < length cs. ca_order (cs ! i) = int (n + i))"

lemma numbered_from_Nil [simp]: "numbered_from n []"
  by (simp add: numbered_from_def)

lemma numbered_from_Cons: "numbered_from n (c # cs) \<longleftrightarrow> ca_order c = int n \<and> numbered_from (Suc n) cs"
  by (auto simp: numbered_from_def nth_Cons' gr0_conv_Suc less_Suc_eq_0_disj)

lemma numbered_from_append:
  "numbered_from n (cs @ ds) \<longleftrightarrow> numbered_from n cs \<and> numbered_from (n + length cs) ds"
  by (induction cs arbitrary: n) (auto simp: numbered_from_Cons)

lemma child_candidate_simps [simp]:
  "ca_chunk (child_candidate c r refs n) = c" "ca_order (child_candidate c r refs n) = n"
  "ca_origin (child_candidate c r refs n) = HIERARCHY_CHILD"
  "ca_document (child_candidate c r refs n) = ch_document r" "ca_content (child_candidate c r refs n) = ch_content r"
  "ca_unit (child_candidate c r refs n) = Some (ch_unit r)" "ca_references (child_candidate c r refs n) = refs"
  by (simp_all add: child_candidate_def Let_def)

definition emitted_run ::
  "collected \<Rightarrow> ident list \<Rightarrow> emission \<Rightarrow> nat \<Rightarrow> candidate_row list \<Rightarrow> emission \<Rightarrow> nat \<Rightarrow> bool" where
  "emitted_run co ids em k xs em' k' \<longleftrightarrow> em_out em' = em_out em @ xs \<and> k' = k + length xs
     \<and> numbered_from (Suc (length (em_out em))) xs \<and> (\<forall>x \<in> set xs. child_ok co x \<and> ca_chunk x \<in> set ids)
     \<and> set (em_children em') = set (em_children em) \<union> ca_chunk ` set xs
     \<and> distinct (map ca_chunk xs) \<and> set (em_children em) \<inter> ca_chunk ` set xs = {}"

lemma emitted_run_refl: "emitted_run co ids em k [] em k"
  by (simp add: emitted_run_def)

lemma emit_children_run:
  assumes "emit_children co a ids n em d = (Inr em', d')"
    and "n \<le> max_children_per_anchor" and "ed_added d \<le> max_candidates_added"
  shows "\<exists>xs. emitted_run co ids em (ed_added d) xs em' (ed_added d') \<and> length xs + n \<le> max_children_per_anchor
    \<and> ed_added d' \<le> max_candidates_added"
  using assms
proof (induction ids arbitrary: n em d)
  case Nil
  then show ?case using emitted_run_refl [of co "[]"] by fastforce
next
  case (Cons c ids)
  consider (dup) "c \<in> set (em_children em)" | (stop) "c \<notin> set (em_children em)"
      "max_children_per_anchor \<le> n \<or> max_candidates_added \<le> ed_added d"
    | (emit) r refs where "c \<notin> set (em_children em)" "n < max_children_per_anchor" "ed_added d < max_candidates_added"
      "map_of (co_rows co) c = Some r" "map_of (co_refs co) c = Some refs" "refs \<noteq> []"
      "candidate_valid (child_candidate c r refs (int (length (em_out em)) + 1))"
    using Cons.prems(1)
    by (force simp: op_simps Let_def not_le split: if_splits option.splits)
  then show ?case
  proof cases
    case dup
    let ?d = "add_reason ''MULTIPLE_ANCHOR_DISCOVERY'' (note_duplicate d)"
    have "ed_added ?d = ed_added d" by (simp add: add_reason_def note_duplicate_def)
    moreover have "emit_children co a ids n em ?d = (Inr em', d')"
      using Cons.prems(1) dup by (simp add: op_simps)
    ultimately show ?thesis
      using Cons.IH [of n em ?d] Cons.prems(2,3) by (auto simp: emitted_run_def)
  next
    case stop
    then have "em' = em \<and> ed_added d' = ed_added d"
      using Cons.prems(1) by (auto simp: op_simps add_reason_def split: if_splits)
    then show ?thesis
      using Cons.prems(2,3) emitted_run_refl by (intro exI [of _ "[]"]) auto
  next
    case emit
    let ?x = "child_candidate c r refs (int (length (em_out em)) + 1)"
    let ?em = "\<lparr>em_out = em_out em @ [?x], em_children = c # em_children em, em_expanded = List.insert a (em_expanded em)\<rparr>"
    let ?d = "d\<lparr>ed_added := ed_added d + 1\<rparr>"
    have "emit_children co a ids (n + 1) ?em ?d = (Inr em', d')"
      using Cons.prems(1) emit by (simp add: op_simps Let_def)
    then obtain xs where xs: "emitted_run co ids ?em (ed_added ?d) xs em' (ed_added d')"
      "length xs + (n + 1) \<le> max_children_per_anchor" "ed_added d' \<le> max_candidates_added"
      using Cons.IH [of "n + 1" ?em ?d] emit(2,3) by auto
    have "child_ok co ?x"
      using emit by (auto simp: child_ok_def)
    with xs(1) emit(1) have "emitted_run co (c # ids) em (ed_added d) (?x # xs) em' (ed_added d')"
      by (auto simp: emitted_run_def numbered_from_Cons)
    with xs(2,3) show ?thesis by (intro exI [of _ "?x # xs"]) simp
  qed
qed

definition renumber_from :: "nat \<Rightarrow> candidate_row list \<Rightarrow> candidate_row list" where
  "renumber_from n cs = map (\<lambda>(i, c). c\<lparr>ca_order := int i\<rparr>) (enumerate n cs)"

lemma renumber_from_append: "renumber_from n (cs @ ds) = renumber_from n cs @ renumber_from (n + length cs) ds"
  by (simp add: renumber_from_def enumerate_append_eq)

lemma renumber_from_Cons [simp]: "renumber_from n (c # cs) = c\<lparr>ca_order := int n\<rparr> # renumber_from (Suc n) cs"
  by (simp add: renumber_from_def)

lemma renumber_from_Nil [simp]: "renumber_from n [] = []"
  by (simp add: renumber_from_def)

lemma renumber_from_id: "numbered_from n cs \<Longrightarrow> renumber_from n cs = cs"
  by (induction cs arbitrary: n) (simp_all add: numbered_from_Cons)

lemma length_renumber_from [simp]: "length (renumber_from n cs) = length cs"
  by (simp add: renumber_from_def)

text \<open>The base candidates, each with the children emitted after it.\<close>

definition interleave :: "candidate_row list \<Rightarrow> candidate_row list list \<Rightarrow> candidate_row list" where
  "interleave as css = concat (map2 Cons as css)"

definition eligible_of :: "collected \<Rightarrow> candidate_row \<Rightarrow> ident list" where
  "eligible_of co a = (case map_of (co_eligible co) (ca_chunk a) of None \<Rightarrow> [] | Some ids \<Rightarrow> ids)"

definition blocks_ok :: "collected \<Rightarrow> candidate_row list \<Rightarrow> candidate_row list list \<Rightarrow> bool" where
  "blocks_ok co as css \<longleftrightarrow> list_all2 (\<lambda>a xs. length xs \<le> max_children_per_anchor
     \<and> (\<forall>x \<in> set xs. child_ok co x \<and> ca_chunk x \<in> set (eligible_of co a))) as css
     \<and> distinct (map ca_chunk (concat css))"

lemma emit_anchors_blocks:
  assumes "emit_anchors co as em d = (Inr em', d')" and "ed_added d \<le> max_candidates_added"
  shows "\<exists>css. em_out em' = em_out em @ renumber_from (Suc (length (em_out em))) (interleave as css)
    \<and> blocks_ok co as css \<and> ed_added d' = ed_added d + length (concat css) \<and> ed_added d' \<le> max_candidates_added
    \<and> set (em_children em) \<inter> ca_chunk ` set (concat css) = {}"
  using assms
proof (induction as arbitrary: em d)
  case Nil
  then show ?case by (intro exI [of _ "[]"]) (simp add: interleave_def blocks_ok_def)
next
  case (Cons a as)
  let ?em = "em\<lparr>em_out := em_out em @ [a\<lparr>ca_order := int (length (em_out em)) + 1\<rparr>]\<rparr>"
  obtain e1 d1 where first: "emit_children co (ca_chunk a) (eligible_of co a) 0 ?em d = (Inr e1, d1)"
    and rest: "emit_anchors co as e1 d1 = (Inr em', d')"
    using Cons.prems(1) by (auto simp: op_simps eligible_of_def split: prod.splits sum.splits)
  obtain xs where xs: "emitted_run co (eligible_of co a) ?em (ed_added d) xs e1 (ed_added d1)"
    "length xs \<le> max_children_per_anchor" "ed_added d1 \<le> max_candidates_added"
    using emit_children_run [OF first _ Cons.prems(2)] by auto
  obtain css where css: "em_out em' = em_out e1 @ renumber_from (Suc (length (em_out e1))) (interleave as css)"
    "blocks_ok co as css" "ed_added d' = ed_added d1 + length (concat css)" "ed_added d' \<le> max_candidates_added"
    "set (em_children e1) \<inter> ca_chunk ` set (concat css) = {}"
    using Cons.IH [OF rest xs(3)] by blast
  have "em_out em' = em_out em @ renumber_from (Suc (length (em_out em))) (interleave (a # as) (xs # css))"
    using css(1) xs(1)
    by (simp add: interleave_def renumber_from_append renumber_from_id emitted_run_def add.commute)
  moreover have "blocks_ok co (a # as) (xs # css)"
    using css(2,5) xs(1,2) by (auto simp: blocks_ok_def emitted_run_def)
  moreover have "set (em_children em) \<inter> ca_chunk ` set (concat (xs # css)) = {}"
    using css(5) xs(1) by (auto simp: emitted_run_def)
  ultimately show ?case
    using css(3,4) xs(1) by (intro exI [of _ "xs # css"]) (simp add: emitted_run_def)
qed

lemma by_chunk_map: "map_of (by_chunk cs) c = Some a \<Longrightarrow> a \<in> set cs \<and> ca_chunk a = c"
proof -
  have "map_of (fold (\<lambda>c. AList.update (ca_chunk c) c) cs m) c = Some a \<Longrightarrow>
      a \<in> set cs \<and> ca_chunk a = c \<or> map_of m c = Some a" for m
    by (induction cs arbitrary: m) (fastforce simp: update_conv' split: if_splits)+
  from this [of "[]"] show "map_of (by_chunk cs) c = Some a \<Longrightarrow> a \<in> set cs \<and> ca_chunk a = c"
    by (simp add: by_chunk_def)
qed

text \<open>The references of a child name base candidates, and so does its document.\<close>

definition names_base :: "candidate_row list \<Rightarrow> anchor_reference \<Rightarrow> bool" where
  "names_base base r \<longleftrightarrow> (\<exists>a \<in> set base. ca_chunk a = ar_chunk r \<and> ca_unit a = Some (ar_unit r)
     \<and> ca_rank a = Some (ar_rank r))"

lemma make_reference_names: "make_reference a = Inr r \<Longrightarrow> a \<in> set base \<Longrightarrow> names_base base r"
  by (auto simp: make_reference_def names_base_def split: option.splits if_splits intro!: bexI [of _ a])

definition shows_row :: "child_hit \<Rightarrow> candidate_row \<Rightarrow> bool" where
  "shows_row r x \<longleftrightarrow> ca_chunk x = ch_chunk r \<and> ca_document x = ch_document r \<and> ca_content x = ch_content r
     \<and> ca_unit x = Some (ch_unit r) \<and> ca_metadata x = ch_metadata r \<and> ca_provenance x = ch_provenance r"

definition blocks :: "(child_hit \<Rightarrow> bool) \<Rightarrow> candidate_row list \<Rightarrow> ident list \<Rightarrow> candidate_row list list \<Rightarrow> bool" where
  "blocks P base docs css \<longleftrightarrow> length css = length base \<and> (\<forall>xs \<in> set css. length xs \<le> 4) \<and> length (concat css) \<le> 20
     \<and> distinct (map ca_chunk (concat css))
     \<and> (\<forall>x \<in> set (concat css). ca_origin x = HIERARCHY_CHILD \<and> candidate_valid x \<and> ca_chunk x \<notin> ca_chunk ` set base
          \<and> ca_document x \<in> ca_document ` set base \<and> (docs = [] \<or> ca_document x \<in> set docs)
          \<and> (\<exists>r. P r \<and> shows_row r x) \<and> (\<forall>r \<in> set (ca_references x). names_base base r))"

lemma blocks_empty: "blocks P base docs (replicate (length base) [])"
  by (simp add: blocks_def)

lemma child_ok_sound:
  assumes sound: "collected_sound (row_allowed P docs (by_chunk base)) (names_base base) (map ca_chunk base) co"
    and ok: "child_ok co x" and el: "ca_chunk x \<in> set (eligible_of co a)"
  shows "ca_origin x = HIERARCHY_CHILD \<and> candidate_valid x \<and> ca_chunk x \<notin> ca_chunk ` set base
          \<and> ca_document x \<in> ca_document ` set base \<and> (docs = [] \<or> ca_document x \<in> set docs)
          \<and> (\<exists>r. P r \<and> shows_row r x) \<and> (\<forall>r \<in> set (ca_references x). names_base base r)"
proof -
  obtain r refs where x: "map_of (co_rows co) (ca_chunk x) = Some r" "map_of (co_refs co) (ca_chunk x) = Some refs"
    "x = child_candidate (ca_chunk x) r refs (ca_order x)" "candidate_valid x"
    using ok by (auto simp: child_ok_def)
  have row: "row_allowed P docs (by_chunk base) r" and c: "ch_chunk r = ca_chunk x"
    using collected_sound_row [OF sound x(1)] by simp_all
  from row have document: "ch_document r \<in> ca_document ` set base" "docs = [] \<or> ch_document r \<in> set docs"
    using by_chunk_map by (auto simp: row_allowed_def intro!: rev_image_eqI)
  have "shows_row r x"
    by (subst x(3)) (simp add: shows_row_def child_candidate_def Let_def c)
  then have shown: "\<exists>r. P r \<and> shows_row r x"
    using row by (auto simp: row_allowed_def)
  have refs: "\<forall>r \<in> set refs. names_base base r"
    using sound x(2) unfolding collected_sound_def by blast
  have "ca_chunk x \<notin> set (map ca_chunk base)"
  proof (cases "map_of (co_eligible co) (ca_chunk a)")
    case None
    with el show ?thesis by (simp add: eligible_of_def)
  next
    case (Some ids)
    with el show ?thesis using collected_sound_eligible [OF sound Some] by (simp add: eligible_of_def)
  qed
  then have "ca_chunk x \<notin> ca_chunk ` set base" by simp
  moreover have "ca_origin x = HIERARCHY_CHILD" "ca_document x = ch_document r" "ca_references x = refs"
    using arg_cong [OF x(3), of ca_origin] arg_cong [OF x(3), of ca_document] arg_cong [OF x(3), of ca_references]
    by simp_all
  ultimately show ?thesis using x(4) document refs shown by simp
qed

lemma blocks_of_blocks_ok:
  assumes "collected_sound (row_allowed P docs (by_chunk base)) (names_base base) (map ca_chunk base) co"
    and ok: "blocks_ok co base css" and "length (concat css) \<le> max_candidates_added"
  shows "blocks P base docs css"
proof -
  have "\<exists>a. child_ok co x \<and> ca_chunk x \<in> set (eligible_of co a)" if "x \<in> set (concat css)" for x
  proof -
    from that obtain xs where "xs \<in> set css" "x \<in> set xs" by auto
    then obtain i where "i < length css" "x \<in> set (css ! i)"
      by (metis in_set_conv_nth)
    then show ?thesis
      using ok list_all2_nthD2 by (fastforce simp: blocks_ok_def)
  qed
  then have "\<forall>x \<in> set (concat css). ca_origin x = HIERARCHY_CHILD \<and> candidate_valid x \<and> ca_chunk x \<notin> ca_chunk ` set base
          \<and> ca_document x \<in> ca_document ` set base \<and> (docs = [] \<or> ca_document x \<in> set docs)
          \<and> (\<exists>r. P r \<and> shows_row r x) \<and> (\<forall>r \<in> set (ca_references x). names_base base r)"
    using child_ok_sound [OF assms(1)] by blast
  moreover have "\<forall>xs \<in> set css. length xs \<le> 4"
    using ok by (auto simp: blocks_ok_def list_all2_conv_all_nth in_set_conv_nth max_children_per_anchor_def)
  moreover have "length css = length base"
    using ok list_all2_lengthD by (force simp: blocks_ok_def)
  ultimately show ?thesis
    using ok assms(3) by (simp add: blocks_def blocks_ok_def max_candidates_added_def)
qed

lemma merge_children_blocks:
  assumes given: "\<forall>r \<in> set rows. P r" and groups: "\<And>p g a. (p, g) \<in> set groups \<Longrightarrow> a \<in> set g \<Longrightarrow> a \<in> set ordered"
  shows "triple (added 0) (merge_children ordered rows groups docs)
    (\<lambda>out d. \<exists>css. out = renumber_from 1 (interleave ordered css) \<and> blocks P ordered docs css
       \<and> ed_added d = length (concat css)) (\<lambda>_ _. True)"
proof -
  let ?sound = "collected_sound (row_allowed P docs (by_chunk ordered)) (names_base ordered) (map ca_chunk ordered)"
  have checked: "triple (added 0) (check_rows docs (by_chunk ordered) groups rows [])
      (\<lambda>m d. added 0 d \<and> rows_sound (row_allowed P docs (by_chunk ordered)) m) (\<lambda>_ _. True)"
    by (rule triple_weaken [OF check_rows_sound [OF given]]) simp_all
  have collected: "triple (\<lambda>d. added 0 d \<and> rows_sound (row_allowed P docs (by_chunk ordered)) m)
      (collect_groups (map ca_chunk ordered) m groups \<lparr>co_eligible = [], co_rows = [], co_refs = []\<rparr>)
      (\<lambda>co d. added 0 d \<and> ?sound co) (\<lambda>_ _. True)" for m
  proof (rule triple_fact)
    assume m: "rows_sound (row_allowed P docs (by_chunk ordered)) m"
    have "?sound \<lparr>co_eligible = [], co_rows = [], co_refs = []\<rparr>"
      by (simp add: collected_sound_def)
    then show "triple (added 0) (collect_groups (map ca_chunk ordered) m groups
        \<lparr>co_eligible = [], co_rows = [], co_refs = []\<rparr>) (\<lambda>co d. added 0 d \<and> ?sound co) (\<lambda>_ _. True)"
      using m groups make_reference_names
      by (intro triple_weaken [OF collect_groups_sound [where F = "names_base ordered" and k = 0]]) blast+
  qed
  have emitted: "triple (\<lambda>d. added 0 d \<and> ?sound co)
      (emit_anchors (sort_references co) ordered \<lparr>em_out = [], em_children = [], em_expanded = []\<rparr>)
      (\<lambda>em d. \<exists>css. em_out em = renumber_from 1 (interleave ordered css) \<and> blocks P ordered docs css
         \<and> ed_added d = length (concat css)) (\<lambda>_ _. True)" for co
  proof (rule triple_fact)
    assume co: "?sound co"
    show "triple (added 0) (emit_anchors (sort_references co) ordered \<lparr>em_out = [], em_children = [], em_expanded = []\<rparr>)
      (\<lambda>em d. \<exists>css. em_out em = renumber_from 1 (interleave ordered css) \<and> blocks P ordered docs css
         \<and> ed_added d = length (concat css)) (\<lambda>_ _. True)"
      unfolding triple_def
    proof (intro allI impI)
      fix d :: expansion_diag
      assume d: "added 0 d"
      show "case emit_anchors (sort_references co) ordered \<lparr>em_out = [], em_children = [], em_expanded = []\<rparr> d of
          (Inl e, t) \<Rightarrow> True
        | (Inr em, t) \<Rightarrow> \<exists>css. em_out em = renumber_from 1 (interleave ordered css) \<and> blocks P ordered docs css
           \<and> ed_added t = length (concat css)"
        using emit_anchors_blocks [of "sort_references co" ordered "\<lparr>em_out = [], em_children = [], em_expanded = []\<rparr>" d]
          blocks_of_blocks_ok [OF sort_references_sound [OF co]] d
        by (fastforce simp: added_def split: prod.splits sum.splits)
    qed
  qed
  show ?thesis
    unfolding merge_children_def
    by (intro triple_noted triple_then [OF checked] triple_then [OF collected] triple_seq [OF triple_modify]
        triple_then [OF emitted] triple_return)
      (auto simp: added_def set_stage_def settle_status_def add_reason_def Let_def)
qed

lemma interleave_empty: "interleave as (replicate (length as) []) = as"
  by (induction as) (simp_all add: interleave_def)

lemma renumber_base_from: "renumber_base cs = renumber_from 1 cs"
  by (simp add: renumber_base_def renumber_from_def)

lemma od_append_all:
  assumes "\<forall>g \<in> snd ` set m. Q g" and "Q [b]" and "\<And>g. Q g \<Longrightarrow> Q (g @ [b])"
  shows "\<forall>g \<in> snd ` set (od_append u b m). Q g"
proof -
  have "set (AList.update u v m) \<subseteq> set m \<union> {(u, v)}" for v
    by (induction m) auto
  then have "snd ` set (od_append u b m) \<subseteq> snd ` set m \<union> {(case map_of m u of None \<Rightarrow> [] | Some vs \<Rightarrow> vs) @ [b]}"
    unfolding od_append_def by fastforce
  moreover have "Q ((case map_of m u of None \<Rightarrow> [] | Some vs \<Rightarrow> vs) @ [b])"
  proof (cases "map_of m u")
    case (Some vs)
    then have "vs \<in> snd ` set m" using map_of_SomeD by force
    with assms(1) have "Q vs" by blast
    with Some assms(3) show ?thesis by simp
  qed (simp add: assms(2))
  ultimately show ?thesis using assms(1) by (metis (no_types, lifting) Un_iff singletonD subsetD)
qed

lemma group_anchors_all:
  assumes "group_anchors as (groups, d) = (groups', d')" and "\<forall>g \<in> snd ` set groups. Q g"
    and "\<And>b. b \<in> set as \<Longrightarrow> Q [b]" and "\<And>g b. b \<in> set as \<Longrightarrow> Q g \<Longrightarrow> Q (g @ [b])"
  shows "\<forall>g \<in> snd ` set groups'. Q g"
  using assms
proof (induction as arbitrary: groups d)
  case Nil
  then show ?case by simp
next
  case (Cons b as)
  have "\<forall>g \<in> snd ` set (od_append u b groups). Q g" for u
    by (rule od_append_all [OF Cons.prems(2)]) (use Cons.prems(3,4) in simp_all)
  moreover note Cons.IH [OF _ _ Cons.prems(3) Cons.prems(4)]
  ultimately show ?case
    using Cons.prems(1,2) by (cases "ca_unit b") simp_all
qed

lemma group_anchors_added: "group_anchors as (groups, d) = (groups', d') \<Longrightarrow> added k d' = added k d"
  by (induction as arbitrary: groups d) (auto split: option.splits)

lemma by_primary_members:
  "snd ` set (fold (\<lambda>g. AList.update (key g) (snd g)) gs m) \<subseteq> snd ` set m \<union> snd ` set gs"
proof (induction gs arbitrary: m)
  case Nil
  then show ?case by simp
next
  case (Cons h gs)
  have "snd ` set (AList.update (key h) (snd h) m) \<subseteq> snd ` set m \<union> {snd h}"
    by (induction m) auto
  with Cons.IH [of "AList.update (key h) (snd h) m"]
  have "snd ` set (fold (\<lambda>g. AList.update (key g) (snd g)) gs (AList.update (key h) (snd h) m))
      \<subseteq> snd ` set m \<union> {snd h} \<union> snd ` set gs"
    by (rule subset_trans [OF _ Un_mono]) simp_all
  then show ?case by simp
qed

text \<open>A row that the lookup gave for the requested documents.\<close>

definition returned :: "child_lookup \<Rightarrow> ident list \<Rightarrow> child_hit \<Rightarrow> bool" where
  "returned lookup docs r \<longleftrightarrow> (\<exists>anchors rows. lookup anchors docs = Inr rows \<and> r \<in> set rows)"

text \<open>A lookup that runs gives the children it may give, or the expansion falls back to the base.\<close>

definition expansion_result :: "(child_hit \<Rightarrow> bool) \<Rightarrow> candidate_row list \<Rightarrow> ident list \<Rightarrow> candidate_row list \<Rightarrow> expansion_diag \<Rightarrow> bool" where
  "expansion_result P ordered docs out d \<longleftrightarrow> (\<exists>css. out = renumber_base (interleave ordered css) \<and> blocks P ordered docs css
     \<and> (ed_added d = length (concat css) \<or> ed_fallback d \<and> concat css = []))"

lemma expansion_result_base:
  "ed_fallback d \<or> ed_added d = 0 \<Longrightarrow> expansion_result P ordered docs (renumber_base ordered) d"
  by (auto simp: expansion_result_def interleave_empty intro!: exI [of _ "replicate (length ordered) []"] blocks_empty)

lemma lookup_or_base:
  assumes P: "P = returned lookup docs" and members: "\<forall>x \<in> set groups. set (snd x) \<subseteq> set ordered" and "added 0 d"
  shows "\<exists>out d'. catch_op (lookup_and_merge lookup ordered primary groups docs) (\<lambda>_. fall_back ordered) d = (Inr out, d')
    \<and> expansion_result P ordered docs out d'"
proof -
  have merged: "triple (added 0) (lookup_and_merge lookup ordered primary groups docs)
      (expansion_result P ordered docs) (\<lambda>_ _. True)"
  proof (cases "lookup (map ca_chunk primary) docs")
    case (Inl e)
    then show ?thesis by (simp add: lookup_and_merge_def triple_raise)
  next
    case (Inr rows)
    have "triple (added 0) (merge_children ordered rows groups docs) (expansion_result P ordered docs) (\<lambda>_ _. True)"
      by (rule triple_weaken [OF merge_children_blocks [of rows P groups ordered docs]])
        (use members Inr in \<open>force simp: P returned_def expansion_result_def renumber_base_from\<close>)+
    then show ?thesis
      using Inr by (simp add: lookup_and_merge_def triple_noted)
  qed
  have safe: "triple (added 0) (catch_op (lookup_and_merge lookup ordered primary groups docs) (\<lambda>_. fall_back ordered))
      (expansion_result P ordered docs) (\<lambda>_ _. False)"
    by (rule triple_catch [OF merged])
      (auto simp: fall_back_def triple_def op_simps set_stage_def append_reason_def intro!: expansion_result_base)
  obtain r d' where
    run: "catch_op (lookup_and_merge lookup ordered primary groups docs) (\<lambda>_. fall_back ordered) d = (r, d')"
    by fastforce
  show ?thesis
    using tripleD [OF safe assms(3) run] run by (cases r) auto
qed

lemma expanded_sound:
  assumes "\<forall>c \<in> set base. candidate_valid c \<and> ca_origin c = RETRIEVAL"
  shows "\<exists>css d. expand lookup enabled base docs canonical = Inr (renumber_base (interleave (order_candidates base) css), d)
    \<and> blocks (returned lookup docs) (order_candidates base) docs css
    \<and> (ed_added d = length (concat css) \<or> ed_fallback d \<and> concat css = [])"
proof -
  let ?ordered = "order_candidates base"
  let ?P = "returned lookup docs"
  have ranks: "ca_rank c \<noteq> None" if "c \<in> set ?ordered" for c
    using assms that by (auto simp: order_candidates_def candidate_valid_def retrieval_contract_def)
  have "\<exists>out d. expand lookup enabled base docs canonical = Inr (out, d) \<and> expansion_result ?P ?ordered docs out d"
  proof (cases "enabled \<and> canonical")
    case False
    then show ?thesis
      by (auto simp: expand_def Let_def empty_diag_def append_reason_def intro!: expansion_result_base)
  next
    case True
    obtain groups d1 where groups: "group_anchors (take max_anchors ?ordered) ([], empty_diag enabled (length ?ordered)) = (groups, d1)"
      by fastforce
    have "\<forall>g \<in> snd ` set groups. g \<noteq> [] \<and> set g \<subseteq> set ?ordered"
      by (rule group_anchors_all [OF groups]) (auto dest: in_set_takeD)
    then have members: "g \<noteq> []" "set g \<subseteq> set ?ordered" if "g \<in> snd ` set groups" for g
      using that by auto
    then have "\<forall>g \<in> set groups. ca_rank (hd (snd g)) \<noteq> None"
      by (metis hd_in_set image_eqI ranks subsetD)
    then have primary: "sort_primary (map (hd \<circ> snd) groups) = Inr (sort_key (\<lambda>c. case ca_rank c of None \<Rightarrow> 0 | Some n \<Rightarrow> n)
        (sort_key ca_chunk (map (hd \<circ> snd) groups)))"
      by (simp add: sort_primary_def ranks_comparable_def)
    have added: "added 0 (count_units groups d1)"
      using group_anchors_added [OF groups, of 0] by simp
    show ?thesis
    proof (cases "groups = []")
      case True
      then have "expansion_result ?P ?ordered docs (renumber_base ?ordered)
          (append_reason ''NO_EXPANDABLE_ANCHOR'' (count_units groups d1))"
        using added by (intro expansion_result_base) (simp add: added_def append_reason_def)
      with True \<open>enabled \<and> canonical\<close> groups show ?thesis by (simp add: expand_def Let_def)
    next
      case False
      let ?by = "fold (\<lambda>g. AList.update (ca_chunk (hd (snd g))) (snd g)) groups []"
      let ?primary = "sort_key (\<lambda>c. case ca_rank c of None \<Rightarrow> 0 | Some n \<Rightarrow> n) (sort_key ca_chunk (map (hd \<circ> snd) groups))"
      have "\<forall>x \<in> set ?by. set (snd x) \<subseteq> set ?ordered"
      proof
        fix x
        assume "x \<in> set ?by"
        then have "snd x \<in> snd ` set ?by" by (rule imageI)
        then have "snd x \<in> snd ` set groups"
          using by_primary_members [of "\<lambda>g. ca_chunk (hd (snd g))" groups "[]"] by auto
        then show "set (snd x) \<subseteq> set ?ordered" by (rule members(2))
      qed
      from lookup_or_base [OF refl this added] obtain out d where "catch_op (lookup_and_merge lookup ?ordered ?primary ?by docs)
          (\<lambda>_. fall_back ?ordered) (count_units groups d1) = (Inr out, d)" "expansion_result ?P ?ordered docs out d"
        by blast
      then show ?thesis
        using False True groups primary by (simp add: expand_def Let_def)
    qed
  qed
  then show ?thesis by (auto simp: expansion_result_def)
qed

text \<open>C31. Whatever the repository answers or raises, expanding valid retrieval candidates returns all of them in rank
  order, each followed by at most four children, at most twenty in all; context orders count from 1. A child is a
  valid hierarchy candidate, occurs once, is no base candidate, lies in the document of a base candidate and in the
  requested documents, shows a row that the repository gave for them, and names only base candidates as its anchors. The diagnostics count the children unless
  the expansion fell back to the base, and then there is none.\<close>

theorem expand_sound:
  assumes "\<forall>c \<in> set base. candidate_valid c \<and> ca_origin c = RETRIEVAL"
  shows "\<exists>css d. expand lookup enabled base docs canonical = Inr (renumber_base (interleave (order_candidates base) css), d)
    \<and> blocks (returned lookup docs) (order_candidates base) docs css
    \<and> (ed_added d = length (concat css) \<or> ed_fallback d \<and> concat css = [])"
  using expanded_sound [OF assms] .

text \<open>Two anchors of one document; the lookup knows one child of the first.\<close>

definition sample_candidate :: "ident \<Rightarrow> ident \<Rightarrow> int \<Rightarrow> candidate_row" where
  "sample_candidate c u n = \<lparr>ca_chunk = c, ca_document = ''doc'', ca_content = [], ca_metadata = [], ca_provenance = [],
     ca_dense_score = Some 1, ca_dense_rank = Some n, ca_lexical_score = None, ca_lexical_rank = None,
     ca_fusion = Some (1 / rat_of_int (60 + n)), ca_rank = Some n, ca_order = n, ca_origin = RETRIEVAL, ca_unit = Some u,
     ca_relation = None, ca_depth = 0, ca_anchor_chunk = None, ca_anchor_unit = None, ca_anchor_rank = None,
     ca_references = [], ca_final_rank = Some n\<rparr>"

definition sample_lookup :: child_lookup where
  "sample_lookup anchors docs = Inr [\<lparr>ch_anchor = ''a'', ch_anchor_unit = ''u'', ch_unit = ''w'', ch_document = ''doc'',
     ch_char_start = 0, ch_type = ''clause'', ch_number = None, ch_title = None, ch_chunk = ''x'', ch_index = 0,
     ch_content = [], ch_metadata = [], ch_provenance = []\<rparr>]"

definition sample_base :: "candidate_row list" where
  "sample_base = [sample_candidate ''b'' ''v'' 2, sample_candidate ''a'' ''u'' 1]"

lemma expand_example:
  "map_sum (\<lambda>e. e) (\<lambda>(out, d). (map ca_chunk out, ed_added d)) (expand sample_lookup True sample_base [] True)
    = Inr ([''a'', ''x'', ''b''], 1)"
  by code_simp

theorem expand_sound_witness:
  "\<exists>css d. expand sample_lookup True sample_base [] True
      = Inr (renumber_base (interleave (order_candidates sample_base) css), d)
    \<and> blocks (returned sample_lookup []) (order_candidates sample_base) [] css
    \<and> (ed_added d = length (concat css) \<or> ed_fallback d \<and> concat css = [])"
  by (rule expand_sound)
    (simp add: sample_base_def sample_candidate_def candidate_valid_def retrieval_contract_def rank_ok_def)

end
