(* ===== verification/Evidence.thy ===== *)
theory Evidence
  imports Ranking Reconstruction Documents
begin

text \<open>
  The context builder: \<open>app/context/service.py\<close>, \<open>dedup.py\<close>, \<open>formatter.py\<close>, \<open>schemas.py\<close>. NFC normalisation and
  the token counter are parameters; the counter may keep state and raise. Scores are finite by their type.
\<close>

section \<open>Source identifiers\<close>

definition source_id :: "nat \<Rightarrow> string" where
  "source_id n = ''S'' @ nat_str n"

definition category_handle :: "nat \<Rightarrow> string" where
  "category_handle n = ''K'' @ nat_str n"

lemma source_id_inject [simp]: "source_id m = source_id n \<longleftrightarrow> m = n"
  by (simp add: source_id_def)

lemma category_handle_inject [simp]: "category_handle m = category_handle n \<longleftrightarrow> m = n"
  by (simp add: category_handle_def)

section \<open>Errors, evidence and packages\<close>

datatype context_error =
    Empty_Request_Id | Empty_Query | Bad_Budget | Invalid_Candidate_At nat | Empty_Content_At nat | Invalid_Uuid_At nat
  | Order_Not_Increasing | Bad_Branch_Rank | Unhashable_Path_Source
  | Counter_Unavailable | Counter_Invalid | Inconsistent_Counts | Context_Exceeds_Budget

datatype stop_reason = STOP_NONE | TOKEN_BUDGET | TOP_EVIDENCE_EXCEEDS_CONTEXT_BUDGET

text \<open>The fields that \<open>SelectedEvidence\<close> copies from the candidate are kept as the candidate.\<close>

record selected_evidence =
  se_source :: string
  se_candidate :: candidate_row
  se_tokens :: int

record context_package =
  pk_request :: pytext
  pk_query :: pytext
  pk_text :: pytext
  pk_selected :: "selected_evidence list"
  pk_tokens :: int
  pk_budget :: int
  pk_candidates :: nat
  pk_duplicates :: nat
  pk_selected_count :: nat
  pk_dropped :: int
  pk_exhausted :: bool
  pk_stop :: stop_reason

section \<open>Validation\<close>

text \<open>
  \<open>model_validate\<close> passes an instance unchecked and checks a dict (\<open>None\<close>: a field is missing or has the wrong
  type).
\<close>

datatype raw_candidate = Instance candidate_row | Fields "candidate_row option"

definition model_validate :: "raw_candidate \<Rightarrow> candidate_row option" where
  "model_validate r = (case r of Instance c \<Rightarrow> Some c
     | Fields (Some c) \<Rightarrow> if candidate_valid c then Some c else None | Fields None \<Rightarrow> None)"

definition positive_rank :: "int option \<Rightarrow> bool" where
  "positive_rank r \<longleftrightarrow> (case r of None \<Rightarrow> True | Some n \<Rightarrow> 0 < n)"

fun validate_candidates :: "raw_candidate list \<Rightarrow> nat \<Rightarrow> int \<Rightarrow> context_error + candidate_row list" where
  "validate_candidates [] i previous = Inr []"
| "validate_candidates (r # rs) i previous = (case model_validate r of
       None \<Rightarrow> Inl (Invalid_Candidate_At i)
     | Some c \<Rightarrow>
         if py_strip (ca_content c) = [] then Inl (Empty_Content_At i)
         else if \<not> is_uuid (ca_chunk c) \<or> \<not> is_uuid (ca_document c) then Inl (Invalid_Uuid_At i)
         else if ca_order c \<le> previous then Inl Order_Not_Increasing
         else if \<not> positive_rank (ca_dense_rank c) \<or> \<not> positive_rank (ca_lexical_rank c) then Inl Bad_Branch_Rank
         else and_then (validate_candidates rs (i + 1) (ca_order c)) (\<lambda>cs. Inr (c # cs)))"

definition validate_input :: "pytext \<Rightarrow> pytext \<Rightarrow> raw_candidate list \<Rightarrow> int \<Rightarrow> context_error + candidate_row list" where
  "validate_input request query raws budget =
     (if py_strip request = [] then Inl Empty_Request_Id
      else if py_strip query = [] then Inl Empty_Query
      else if budget \<le> 0 then Inl Bad_Budget
      else validate_candidates raws 0 0)"

section \<open>Deduplication\<close>

definition normalize_content :: "(pytext \<Rightarrow> pytext) \<Rightarrow> pytext \<Rightarrow> pytext" where
  "normalize_content nfc t = py_strip (collapse_runs py_space 1 [32] (nfc t))"

definition dedup_key :: "(pytext \<Rightarrow> pytext) \<Rightarrow> candidate_row \<Rightarrow> ident \<times> pytext" where
  "dedup_key nfc c = (ca_document c, normalize_content nfc (ca_content c))"

fun deduplicate ::
  "(pytext \<Rightarrow> pytext) \<Rightarrow> candidate_row list \<Rightarrow> (ident \<times> pytext) list \<Rightarrow> candidate_row list \<times> nat" where
  "deduplicate nfc [] seen = ([], 0)"
| "deduplicate nfc (c # cs) seen =
     (if dedup_key nfc c \<in> set seen then (case deduplicate nfc cs seen of (kept, n) \<Rightarrow> (kept, n + 1))
      else (case deduplicate nfc cs (dedup_key nfc c # seen) of (kept, n) \<Rightarrow> (c # kept, n)))"

section \<open>Authoritative paths and category handles\<close>

definition resolver_sources :: "pytext set" where
  "resolver_sources = {ascii ''LEGAL_UNIT_REPOSITORY'', ascii ''REPAIRED_LEGAL_UNIT_REPOSITORY''}"

definition authoritative_path :: "metadata \<Rightarrow> metadata option" where
  "authoritative_path m = (case meta_dict m ''authoritative_legal_path'' of None \<Rightarrow> None
     | Some p \<Rightarrow> (case meta_str p ''path_source'' of None \<Rightarrow> None
         | Some s \<Rightarrow> if s \<in> resolver_sources then Some p else None))"

text \<open>Testing membership of a list or a dict in a set raises TypeError.\<close>

definition unhashable_source :: "metadata \<Rightarrow> bool" where
  "unhashable_source m = (case meta_dict m ''authoritative_legal_path'' of None \<Rightarrow> False
     | Some p \<Rightarrow> (case map_of p ''path_source'' of Some (MList _) \<Rightarrow> True | Some (MDict _) \<Rightarrow> True | _ \<Rightarrow> False))"

definition category_root :: "metadata \<Rightarrow> pytext option" where
  "category_root m = (case authoritative_path m of None \<Rightarrow> None
     | Some p \<Rightarrow> (case meta_str p ''category_root_id'' of Some t \<Rightarrow> if t = [] then None else Some t | None \<Rightarrow> None))"

definition set_category_key :: "string \<Rightarrow> candidate_row \<Rightarrow> candidate_row" where
  "set_category_key k c = c\<lparr>ca_metadata := AList.update ''authoritative_legal_path''
     (MDict (AList.update ''category_key'' (MStr (ascii k)) (the (authoritative_path (ca_metadata c))))) (ca_metadata c)\<rparr>"

fun with_category_keys ::
  "candidate_row list \<Rightarrow> (pytext \<times> string) list \<Rightarrow> context_error + candidate_row list" where
  "with_category_keys [] keys = Inr []"
| "with_category_keys (c # cs) keys =
     (if unhashable_source (ca_metadata c) then Inl Unhashable_Path_Source
      else (case category_root (ca_metadata c) of
         None \<Rightarrow> and_then (with_category_keys cs keys) (\<lambda>out. Inr (c # out))
       | Some r \<Rightarrow> let keys' = od_setdefault r (category_handle (length keys + 1)) keys;
             k = the (map_of keys' r)
           in and_then (with_category_keys cs keys') (\<lambda>out. Inr (set_category_key k c # out))))"

section \<open>Formatting\<close>

definition evidence_separator :: pytext where
  "evidence_separator = [10, 10] @ ascii ''---'' @ [10, 10]"

definition missing_identity :: pytext where
  "missing_identity = ascii ''Kh'' @ [244] @ ascii ''ng c'' @ [243] @ ascii '' th'' @ [244] @ ascii ''ng tin ''
     @ [273, 7883] @ ascii ''nh danh trong metadata''"

definition metadata_text :: "(pytext \<Rightarrow> pytext) \<Rightarrow> metadata \<Rightarrow> string \<Rightarrow> pytext option" where
  "metadata_text nfc m k = (case meta_str m k of None \<Rightarrow> None
     | Some v \<Rightarrow> (let t = normalize_content nfc v in if t = [] then None else Some t))"

definition legal_identity :: "(pytext \<Rightarrow> pytext) \<Rightarrow> metadata \<Rightarrow> pytext" where
  "legal_identity nfc m =
     (let parts = (case (metadata_text nfc m ''document_type'', metadata_text nfc m ''document_number'') of
            (Some t, Some n) \<Rightarrow> [t @ ascii '' s'' @ [7889] @ ascii '' '' @ n]
          | (Some t, None) \<Rightarrow> [t]
          | (None, Some n) \<Rightarrow> [ascii ''S'' @ [7889] @ ascii '' '' @ n]
          | (None, None) \<Rightarrow> [])
        @ (case metadata_text nfc m ''title'' of Some t \<Rightarrow> [t] | None \<Rightarrow> [])
      in if parts = [] then missing_identity else join_with (ascii '' '' @ [8212] @ ascii '' '') parts)"

definition hierarchy_labels :: "candidate_row \<Rightarrow> pytext list" where
  "hierarchy_labels c = (case authoritative_path (ca_metadata c) of None \<Rightarrow> []
     | Some p \<Rightarrow> (case meta_strings p ''ancestor_display_labels'' of None \<Rightarrow> []
         | Some xs \<Rightarrow> if list_all (\<lambda>x. py_strip x \<noteq> []) xs then map py_strip xs else []))"

definition category_key :: "candidate_row \<Rightarrow> pytext option" where
  "category_key c = (case authoritative_path (ca_metadata c) of None \<Rightarrow> None
     | Some p \<Rightarrow> (case meta_str p ''category_key'' of Some t \<Rightarrow> if t = [] then None else Some t | None \<Rightarrow> None))"

definition relation_text :: "candidate_row \<Rightarrow> pytext" where
  "relation_text c = (case ca_origin c of
       HIERARCHY_CHILD \<Rightarrow> ascii ''N'' @ [7897] @ ascii ''i dung con tr'' @ [7921] @ ascii ''c ti'' @ [7871] @ ascii ''p c''
         @ [7911] @ ascii ''a c'' @ [259] @ ascii ''n c'' @ [7913] @ ascii '' '' @ [273, 432, 7907]
         @ ascii ''c truy xu'' @ [7845] @ ascii ''t''
     | RETRIEVAL \<Rightarrow> ascii ''C'' @ [259] @ ascii ''n c'' @ [7913] @ ascii '' '' @ [273, 432, 7907] @ ascii ''c truy xu''
         @ [7845] @ ascii ''t tr'' @ [7921] @ ascii ''c ti'' @ [7871] @ ascii ''p'')"

definition location_title :: pytext where
  "location_title = ascii ''V'' @ [7883] @ ascii '' tr'' @ [237] @ ascii '' ph'' @ [225] @ ascii ''p l'' @ [253] @ ascii '':''"

definition category_line :: "pytext \<Rightarrow> pytext" where
  "category_line k = ascii ''M'' @ [227] @ ascii '' danh m'' @ [7909] @ ascii ''c ph'' @ [225] @ ascii ''p l'' @ [253]
     @ ascii '' '' @ [273, 432, 7907] @ ascii ''c ph'' @ [233] @ ascii ''p: '' @ k"

definition evidence_tag :: "string \<Rightarrow> pytext" where
  "evidence_tag s = ascii ''[Evidence '' @ ascii s @ ascii '']''"

definition source_line :: "pytext \<Rightarrow> pytext" where
  "source_line i = ascii ''Ngu'' @ [7891] @ ascii ''n: '' @ i"

definition content_title :: pytext where
  "content_title = ascii ''N'' @ [7897] @ ascii ''i dung:'' @ [10]"

text \<open>A candidate always has a relation line.\<close>

definition evidence_block :: "(pytext \<Rightarrow> pytext) \<Rightarrow> candidate_row \<Rightarrow> string \<Rightarrow> pytext" where
  "evidence_block nfc c s =
     (let parts = [location_title] @ hierarchy_labels c
            @ (case category_key c of Some k \<Rightarrow> [category_line k] | None \<Rightarrow> [])
            @ [ascii ''Quan h'' @ [7879] @ ascii '': '' @ relation_text c]
      in evidence_tag s @ [10] @ source_line (legal_identity nfc (ca_metadata c)) @ [10]
         @ [10] @ join_with [10] parts @ [10] @ [10] @ content_title @ ca_content c)"

definition evidence_body :: "(pytext \<Rightarrow> pytext) \<Rightarrow> candidate_row \<Rightarrow> string \<Rightarrow> pytext" where
  "evidence_body nfc c s = evidence_tag s @ [10] @ source_line (legal_identity nfc (ca_metadata c)) @ [10, 10]
     @ content_title @ ca_content c"

definition group_key :: "candidate_row \<Rightarrow> string \<Rightarrow> pytext \<times> pytext" where
  "group_key c s = (case authoritative_path (ca_metadata c) of None \<Rightarrow> (ascii ''UNAVAILABLE'', ascii s)
     | Some p \<Rightarrow> (case meta_str p ''legal_unit_id'' of
           Some u \<Rightarrow> if u = [] then (ascii ''UNAVAILABLE'', ascii s) else (ascii (ca_document c), u)
         | None \<Rightarrow> (ascii ''UNAVAILABLE'', ascii s)))"

definition group_evidence :: "(candidate_row \<times> string) list \<Rightarrow> ((pytext \<times> pytext) \<times> (candidate_row \<times> string) list) list" where
  "group_evidence es = fold (\<lambda>(c, s). od_append (group_key c s) (c, s)) es []"

definition group_text :: "(pytext \<Rightarrow> pytext) \<Rightarrow> nat \<Rightarrow> (candidate_row \<times> string) list \<Rightarrow> pytext list" where
  "group_text nfc n items =
     (let path = hierarchy_labels (fst (hd items)) in
      if 1 < length items \<and> path \<noteq> []
      then [ascii ''[Legal Group G'' @ ascii (nat_str n) @ ascii '']'' @ [10] @ location_title @ [10] @ join_with [10] path
              @ (case category_key (fst (hd items)) of Some k \<Rightarrow> [10] @ category_line k | None \<Rightarrow> []),
            join_with evidence_separator (map (\<lambda>(c, s). evidence_body nfc c s) items)]
      else [join_with evidence_separator (map (\<lambda>(c, s). evidence_block nfc c s) items)])"

definition grouped_evidence :: "(pytext \<Rightarrow> pytext) \<Rightarrow> (candidate_row \<times> string) list \<Rightarrow> pytext" where
  "grouped_evidence nfc es = join_with evidence_separator
     (concat (map (\<lambda>(n, g). group_text nfc n (snd g)) (enumerate 1 (group_evidence es))))"

section \<open>Selection within the budget\<close>

type_synonym 's counter = "pytext \<Rightarrow> ('s, unit, int) op"

definition counted :: "'s counter \<Rightarrow> pytext \<Rightarrow> ('s, context_error, int) op" where
  "counted counter t = (\<lambda>s. case counter t s of (Inl _, s') \<Rightarrow> (Inl Counter_Unavailable, s')
     | (Inr n, s') \<Rightarrow> (if n < 0 then Inl Counter_Invalid else Inr n, s'))"

definition lift_context :: "context_error + 'a \<Rightarrow> ('s, context_error, 'a) op" where
  "lift_context r = (\<lambda>s. (r, s))"

record selection =
  sl_selected :: "selected_evidence list"
  sl_pieces :: "pytext list"
  sl_tokens :: int
  sl_exhausted :: bool
  sl_stop :: stop_reason

definition piece_of :: "(pytext \<Rightarrow> pytext) \<Rightarrow> candidate_row \<Rightarrow> nat \<Rightarrow> pytext" where
  "piece_of nfc c n = (if n = 0 then evidence_block nfc c (source_id (Suc n))
     else evidence_separator @ evidence_block nfc c (source_id (Suc n)))"

fun select_evidence ::
  "(pytext \<Rightarrow> pytext) \<Rightarrow> 's counter \<Rightarrow> int \<Rightarrow> candidate_row list \<Rightarrow> selection \<Rightarrow> ('s, context_error, selection) op" where
  "select_evidence nfc counter budget [] sel = return_op sel"
| "select_evidence nfc counter budget (c # cs) sel =
     (let n = length (sl_selected sel); piece = piece_of nfc c n; text = concat (sl_pieces sel) @ piece in
      then_op (counted counter (evidence_block nfc c (source_id (Suc n)))) (\<lambda>block_tokens.
      then_op (counted counter piece) (\<lambda>piece_tokens.
      then_op (counted counter text) (\<lambda>tokens.
        if budget < sl_tokens sel + piece_tokens \<or> budget < tokens
        then return_op (sel\<lparr>sl_exhausted := True,
               sl_stop := (if sl_selected sel = [] then TOP_EVIDENCE_EXCEEDS_CONTEXT_BUDGET else TOKEN_BUDGET)\<rparr>)
        else select_evidence nfc counter budget cs
               (sel\<lparr>sl_selected := sl_selected sel @ [\<lparr>se_source = source_id (Suc n), se_candidate = c, se_tokens = block_tokens\<rparr>],
                  sl_pieces := sl_pieces sel @ [piece], sl_tokens := tokens\<rparr>)))))"

definition presented :: "(pytext \<Rightarrow> pytext) \<Rightarrow> selection \<Rightarrow> pytext" where
  "presented nfc sel = grouped_evidence nfc (map (\<lambda>e. (se_candidate e, se_source e)) (sl_selected sel))"

definition choose_text ::
  "(pytext \<Rightarrow> pytext) \<Rightarrow> 's counter \<Rightarrow> selection \<Rightarrow> int \<Rightarrow> ('s, context_error, pytext \<times> int) op" where
  "choose_text nfc counter sel tokens =
     (if 1 < length (sl_selected sel)
      then then_op (counted counter (presented nfc sel)) (\<lambda>n.
             return_op (if n \<le> tokens then (presented nfc sel, n) else (concat (sl_pieces sel), tokens)))
      else return_op (concat (sl_pieces sel), tokens))"

definition build_context ::
  "(pytext \<Rightarrow> pytext) \<Rightarrow> 's counter \<Rightarrow> pytext \<Rightarrow> pytext \<Rightarrow> raw_candidate list \<Rightarrow> int
     \<Rightarrow> ('s, context_error, context_package) op" where
  "build_context nfc counter request query raws budget =
     then_op (lift_context (validate_input request query raws budget)) (\<lambda>cands.
     (case deduplicate nfc cands [] of (kept, duplicates) \<Rightarrow>
      then_op (lift_context (with_category_keys kept [])) (\<lambda>keyed.
      then_op (select_evidence nfc counter budget keyed
          \<lparr>sl_selected = [], sl_pieces = [], sl_tokens = 0, sl_exhausted = False, sl_stop = STOP_NONE\<rparr>) (\<lambda>sel.
      then_op (counted counter (concat (sl_pieces sel))) (\<lambda>tokens.
        if tokens \<noteq> sl_tokens sel then raise_op Inconsistent_Counts
        else then_op (choose_text nfc counter sel tokens) (\<lambda>(text, exact).
          if budget < exact then raise_op Context_Exceeds_Budget
          else return_op \<lparr>pk_request = request, pk_query = query, pk_text = text, pk_selected = sl_selected sel,
                 pk_tokens = exact, pk_budget = budget, pk_candidates = length cands, pk_duplicates = duplicates,
                 pk_selected_count = length (sl_selected sel),
                 pk_dropped = int (length cands) - int (length (sl_selected sel)),
                 pk_exhausted = sl_exhausted sel, pk_stop = sl_stop sel\<rparr>))))))"

section \<open>Substrings\<close>

definition occurs :: "'a list \<Rightarrow> 'a list \<Rightarrow> bool" where
  "occurs x t \<longleftrightarrow> (\<exists>a b. t = a @ x @ b)"

lemma occurs_refl [simp]: "occurs x x"
  unfolding occurs_def by (rule exI [of _ "[]"], rule exI [of _ "[]"]) simp

lemma occurs_left: "occurs x t \<Longrightarrow> occurs x (u @ t)"
  unfolding occurs_def by (metis append.assoc)

lemma occurs_right: "occurs x t \<Longrightarrow> occurs x (t @ u)"
  unfolding occurs_def by (metis append.assoc)

lemma occurs_trans: "occurs x t \<Longrightarrow> occurs t u \<Longrightarrow> occurs x u"
  unfolding occurs_def by (metis append.assoc)

lemma occurs_concat: "t \<in> set ts \<Longrightarrow> occurs t (concat ts)"
  by (induction ts) (auto intro: occurs_left occurs_right)

lemma occurs_join: "t \<in> set ts \<Longrightarrow> occurs t (join_with sep ts)"
  by (induction sep ts rule: join_with.induct) (auto intro: occurs_left occurs_right)

lemmas occurs_intro = occurs_left occurs_right

section \<open>What each step gives\<close>

definition raw_row :: "raw_candidate \<Rightarrow> candidate_row" where
  "raw_row r = (case r of Instance c \<Rightarrow> c | Fields (Some c) \<Rightarrow> c | Fields None \<Rightarrow> undefined)"

lemma model_validate_row: "model_validate r = Some c \<Longrightarrow> raw_row r = c"
  by (auto simp: model_validate_def raw_row_def split: raw_candidate.splits option.splits if_splits)

lemma validate_candidates_rows: "validate_candidates rs i p = Inr cs \<Longrightarrow> cs = map raw_row rs"
  by (induction rs i p arbitrary: cs rule: validate_candidates.induct)
    (auto simp: and_then_Inr model_validate_row split: option.splits if_splits)

lemma validate_input_rows: "validate_input q t rs b = Inr cs \<Longrightarrow> cs = map raw_row rs \<and> 0 < b"
  by (auto simp: validate_input_def dest!: validate_candidates_rows split: if_splits)

lemma deduplicate_first:
  "deduplicate nfc cs seen = (kept, n) \<Longrightarrow>
     map (dedup_key nfc) kept = filter (\<lambda>k. k \<notin> set seen) (dedupe (map (dedup_key nfc) cs))
     \<and> length kept + n = length cs"
proof (induction cs arbitrary: seen kept n)
  case Nil
  then show ?case by simp
next
  case (Cons c cs)
  have drop_seen: "filter (\<lambda>k. k \<notin> set seen) (filter (\<lambda>y. y \<noteq> x) ks) = filter (\<lambda>k. k \<notin> set seen) ks"
    if "x \<in> set seen" for x and ks :: "(ident \<times> pytext) list"
    unfolding filter_filter by (rule filter_cong) (use that in auto)
  have drop_new: "filter (\<lambda>k. k \<notin> set seen) (filter (\<lambda>y. y \<noteq> x) ks) = filter (\<lambda>k. k \<notin> set (x # seen)) ks"
    for x and ks :: "(ident \<times> pytext) list"
    unfolding filter_filter by (rule filter_cong) auto
  show ?case
  proof (cases "dedup_key nfc c \<in> set seen")
    case True
    then show ?thesis
      using Cons.prems Cons.IH [of seen] drop_seen [OF True] by (auto simp del: filter_filter split: prod.splits)
  next
    case False
    then show ?thesis
      using Cons.prems Cons.IH [of "dedup_key nfc c # seen"] drop_new [of "dedup_key nfc c"]
      by (auto simp del: filter_filter split: prod.splits)
  qed
qed

text \<open>The handles: a list of category roots, the \<open>i\<close>-th with handle \<open>Ki\<close>.\<close>

definition handles_ok :: "(pytext \<times> string) list \<Rightarrow> bool" where
  "handles_ok keys \<longleftrightarrow> distinct (map fst keys) \<and> map snd keys = map (\<lambda>i. category_handle (Suc i)) [0 ..< length keys]"

lemma handles_ok_Nil [simp]: "handles_ok []"
  by (simp add: handles_ok_def)

lemma handles_ok_setdefault: "handles_ok keys \<Longrightarrow> handles_ok (od_setdefault r (category_handle (length keys + 1)) keys)"
  by (simp add: handles_ok_def od_setdefault_def map_of_None_keys)

lemma handles_inject:
  assumes "handles_ok keys" "map_of keys r = Some h" "map_of keys r' = Some h"
  shows "r = r'"
proof -
  have "distinct (map snd keys)"
    using assms(1) by (simp add: handles_ok_def distinct_map inj_on_def)
  then have "inj_on snd (set keys)" by (simp add: distinct_map)
  from inj_onD [OF this, of "(r, h)" "(r', h)"] show ?thesis
    using map_of_SomeD [OF assms(2)] map_of_SomeD [OF assms(3)] by simp
qed

definition handled :: "(pytext \<times> string) list \<Rightarrow> candidate_row \<Rightarrow> candidate_row \<Rightarrow> bool" where
  "handled keys c d \<longleftrightarrow> (case category_root (ca_metadata c) of None \<Rightarrow> d = c
     | Some r \<Rightarrow> \<exists>h. map_of keys r = Some h \<and> d = set_category_key h c)"

lemma handled_root:
  "category_root (ca_metadata c) = Some r \<Longrightarrow> map_of keys r = Some h \<Longrightarrow> handled keys c (set_category_key h c)"
  by (simp add: handled_def)

lemma with_category_keys_handled:
  "with_category_keys cs keys = Inr out \<Longrightarrow> handles_ok keys \<Longrightarrow>
     \<exists>keys'. handles_ok keys' \<and> map_of keys \<subseteq>\<^sub>m map_of keys' \<and> list_all2 (handled keys') cs out"
proof (induction cs arbitrary: keys out)
  case Nil
  then show ?case by auto
next
  case (Cons c cs)
  show ?case
  proof (cases "category_root (ca_metadata c)")
    case None
    then obtain rest where rest: "with_category_keys cs keys = Inr rest" "out = c # rest"
      using Cons.prems(1) by (auto simp: and_then_Inr split: if_splits)
    with Cons.IH [OF rest(1) Cons.prems(2)] None show ?thesis
      by (auto simp: handled_def)
  next
    case (Some r)
    let ?keys = "od_setdefault r (category_handle (length keys + 1)) keys"
    obtain rest where rest: "with_category_keys cs ?keys = Inr rest" "out = set_category_key (the (map_of ?keys r)) c # rest"
      using Cons.prems(1) Some by (auto simp: and_then_Inr Let_def split: if_splits)
    obtain keys' where keys': "handles_ok keys'" "map_of ?keys \<subseteq>\<^sub>m map_of keys'" "list_all2 (handled keys') cs rest"
      using Cons.IH [OF rest(1) handles_ok_setdefault [OF Cons.prems(2)]] by blast
    obtain h where h: "map_of ?keys r = Some h"
      by (cases "map_of keys r") (auto simp: od_setdefault_map_of)
    then have "map_of keys' r = Some h" using keys'(2) by (auto simp: map_le_def dom_def)
    moreover have "map_of keys \<subseteq>\<^sub>m map_of ?keys"
      by (auto simp: map_le_def od_setdefault_map_of)
    ultimately have "map_of keys \<subseteq>\<^sub>m map_of keys' \<and> list_all2 (handled keys') (c # cs) out"
      using keys' h rest(2) handled_root [OF Some] map_le_trans by auto
    with keys'(1) show ?thesis by blast
  qed
qed

lemma handled_chunk: "handled keys c d \<Longrightarrow> ca_chunk d = ca_chunk c \<and> ca_content d = ca_content c \<and> ca_document d = ca_document c"
  by (auto simp: handled_def set_category_key_def split: option.splits)

lemma authoritative_pathD:
  "authoritative_path m = Some p \<Longrightarrow> meta_dict m ''authoritative_legal_path'' = Some p
     \<and> (\<exists>s. meta_str p ''path_source'' = Some s \<and> s \<in> resolver_sources)"
  by (auto simp: authoritative_path_def split: option.splits if_splits)

lemma meta_str_update [simp]:
  "meta_str (AList.update k v m) k' = (if k' = k then (case v of MStr t \<Rightarrow> Some t | _ \<Rightarrow> None) else meta_str m k')"
  by (simp add: meta_str_def update_conv' split: meta.splits)

lemma meta_dict_update [simp]:
  "meta_dict (AList.update k v m) k' = (if k' = k then (case v of MDict d \<Rightarrow> Some d | _ \<Rightarrow> None) else meta_dict m k')"
  by (simp add: meta_dict_def update_conv' split: meta.splits)

lemma category_key_set:
  assumes "authoritative_path (ca_metadata c) = Some p" and "k \<noteq> []"
  shows "category_key (set_category_key k c) = Some (ascii k)"
  using authoritative_pathD [OF assms(1)] assms
  by (auto simp: category_key_def set_category_key_def authoritative_path_def)

lemma handled_key:
  assumes "handles_ok keys" "handled keys c d" "category_root (ca_metadata c) = Some r"
  shows "\<exists>h. map_of keys r = Some h \<and> category_key d = Some (ascii h)"
proof -
  obtain h where h: "map_of keys r = Some h" "d = set_category_key h c"
    using assms(2,3) by (auto simp: handled_def)
  have "h \<in> set (map snd keys)"
    using map_of_SomeD [OF h(1)] by force
  also have "map snd keys = map (\<lambda>i. category_handle (Suc i)) [0 ..< length keys]"
    using assms(1) by (simp only: handles_ok_def)
  finally have "h \<noteq> []"
    by (auto simp: category_handle_def)
  moreover obtain p where "authoritative_path (ca_metadata c) = Some p"
    using assms(3) by (auto simp: category_root_def split: option.splits)
  ultimately show ?thesis
    using h category_key_set by blast
qed

section \<open>What the selection keeps\<close>

definition selection_ok :: "(pytext \<Rightarrow> pytext) \<Rightarrow> int \<Rightarrow> candidate_row list \<Rightarrow> selection \<Rightarrow> bool" where
  "selection_ok nfc budget keyed sel \<longleftrightarrow> (let n = length (sl_selected sel) in n \<le> length keyed
     \<and> map se_candidate (sl_selected sel) = take n keyed
     \<and> map se_source (sl_selected sel) = map (\<lambda>i. source_id (Suc i)) [0 ..< n]
     \<and> sl_pieces sel = map (\<lambda>i. piece_of nfc (keyed ! i) i) [0 ..< n] \<and> sl_tokens sel \<le> budget)"

definition stop_ok :: "candidate_row list \<Rightarrow> selection \<Rightarrow> bool" where
  "stop_ok keyed sel \<longleftrightarrow> (let n = length (sl_selected sel) in
     if sl_exhausted sel
     then n < length keyed \<and> sl_stop sel = (if n = 0 then TOP_EVIDENCE_EXCEEDS_CONTEXT_BUDGET else TOKEN_BUDGET)
     else n = length keyed \<and> sl_stop sel = STOP_NONE)"

definition empty_selection :: selection where
  "empty_selection = \<lparr>sl_selected = [], sl_pieces = [], sl_tokens = 0, sl_exhausted = False, sl_stop = STOP_NONE\<rparr>"

definition pick :: "(pytext \<Rightarrow> pytext) \<Rightarrow> candidate_row \<Rightarrow> int \<Rightarrow> int \<Rightarrow> selection \<Rightarrow> selection" where
  "pick nfc c block_tokens tokens sel = (let n = length (sl_selected sel) in
     sel\<lparr>sl_selected := sl_selected sel @ [\<lparr>se_source = source_id (Suc n), se_candidate = c, se_tokens = block_tokens\<rparr>],
        sl_pieces := sl_pieces sel @ [piece_of nfc c n], sl_tokens := tokens\<rparr>)"

definition stop_here :: "selection \<Rightarrow> selection" where
  "stop_here sel = sel\<lparr>sl_exhausted := True,
     sl_stop := (if sl_selected sel = [] then TOP_EVIDENCE_EXCEEDS_CONTEXT_BUDGET else TOKEN_BUDGET)\<rparr>"

lemma select_evidence_Cons:
  "select_evidence nfc counter budget (c # cs) sel =
     (let n = length (sl_selected sel) in
      then_op (counted counter (evidence_block nfc c (source_id (Suc n)))) (\<lambda>block_tokens.
      then_op (counted counter (piece_of nfc c n)) (\<lambda>piece_tokens.
      then_op (counted counter (concat (sl_pieces sel) @ piece_of nfc c n)) (\<lambda>tokens.
        if budget < sl_tokens sel + piece_tokens \<or> budget < tokens then return_op (stop_here sel)
        else select_evidence nfc counter budget cs (pick nfc c block_tokens tokens sel)))))"
  unfolding select_evidence.simps Let_def pick_def stop_here_def by (rule refl)

lemma selection_ok_pick:
  assumes "selection_ok nfc budget keyed sel" "drop (length (sl_selected sel)) keyed = c # cs" "tokens \<le> budget"
  shows "selection_ok nfc budget keyed (pick nfc c b tokens sel)"
proof -
  have "length (sl_selected sel) < length keyed" "keyed ! length (sl_selected sel) = c"
    using assms(2) by (metis drop_eq_Nil2 list.distinct(1) not_le, metis hd_drop_conv_nth drop_eq_Nil2 list.distinct(1) list.sel(1) not_le)
  then show ?thesis
    using assms(1,3) by (simp add: selection_ok_def pick_def Let_def take_Suc_conv_app_nth)
qed

lemma pick_simps [simp]:
  "length (sl_selected (pick nfc c b t sel)) = Suc (length (sl_selected sel))"
  "sl_exhausted (pick nfc c b t sel) = sl_exhausted sel" "sl_stop (pick nfc c b t sel) = sl_stop sel"
  "sl_tokens (pick nfc c b t sel) = t"
  "sl_pieces (pick nfc c b t sel) = sl_pieces sel @ [piece_of nfc c (length (sl_selected sel))]"
  by (simp_all add: pick_def Let_def)

lemma stop_here_ok:
  assumes "selection_ok nfc budget keyed sel" "drop (length (sl_selected sel)) keyed = c # cs"
  shows "selection_ok nfc budget keyed (stop_here sel) \<and> stop_ok keyed (stop_here sel)"
proof -
  have "length (sl_selected sel) < length keyed"
    using assms(2) by (metis drop_eq_Nil2 list.distinct(1) not_le)
  then show ?thesis
    using assms(1) by (simp add: selection_ok_def stop_ok_def stop_here_def Let_def)
qed

lemma select_evidence_ok:
  assumes "drop (length (sl_selected sel)) keyed = cs" "selection_ok nfc budget keyed sel"
    "\<not> sl_exhausted sel" "sl_stop sel = STOP_NONE"
  shows "triple (\<lambda>_. True) (select_evidence nfc counter budget cs sel)
    (\<lambda>sel' _. selection_ok nfc budget keyed sel' \<and> stop_ok keyed sel') (\<lambda>_ _. True)"
  using assms
proof (induction cs arbitrary: sel)
  case Nil
  then have "length (sl_selected sel) = length keyed"
    by (simp add: selection_ok_def Let_def)
  with Nil show ?case by (simp add: triple_def stop_ok_def Let_def)
next
  case (Cons c cs)
  have counted: "triple (\<lambda>_. True) (counted counter t) (\<lambda>_ _. True) (\<lambda>_ _. True)" for t
    by (simp add: triple_def split: prod.splits sum.splits)
  have "drop (Suc (length (sl_selected sel))) keyed = cs"
    using Cons.prems(1) by (metis drop_Suc list.sel(3) tl_drop)
  then have step: "triple (\<lambda>_. True) (if budget < sl_tokens sel + p \<or> budget < t then return_op (stop_here sel)
        else select_evidence nfc counter budget cs (pick nfc c b t sel))
      (\<lambda>sel' _. selection_ok nfc budget keyed sel' \<and> stop_ok keyed sel') (\<lambda>_ _. True)" for b p t
    using Cons.IH [of "pick nfc c b t sel"] Cons.prems stop_here_ok [OF Cons.prems(2,1)]
      selection_ok_pick [OF Cons.prems(2,1)]
    by (simp add: triple_return not_less)
  show ?case
    unfolding select_evidence_Cons Let_def by (intro triple_then [OF counted] step)
qed

section \<open>What the text shows\<close>

lemma tag_in_block: "occurs (evidence_tag s) (evidence_block nfc c s)"
  unfolding evidence_block_def Let_def by (rule occurs_right) simp

lemma content_in_block: "occurs (ca_content c) (evidence_block nfc c s)"
  unfolding evidence_block_def Let_def append_assoc [symmetric] by (rule occurs_left) simp

lemma tag_in_body: "occurs (evidence_tag s) (evidence_body nfc c s)"
  unfolding evidence_body_def by (rule occurs_right) simp

lemma content_in_body: "occurs (ca_content c) (evidence_body nfc c s)"
  unfolding evidence_body_def append_assoc [symmetric] by (rule occurs_left) simp

definition shows_evidence :: "pytext \<Rightarrow> candidate_row \<times> string \<Rightarrow> bool" where
  "shows_evidence t e \<longleftrightarrow> occurs (evidence_tag (snd e)) t \<and> occurs (ca_content (fst e)) t"

lemma shows_evidence_mono: "shows_evidence t e \<Longrightarrow> occurs t u \<Longrightarrow> shows_evidence u e"
  by (auto simp: shows_evidence_def intro: occurs_trans)

lemma group_text_shows:
  assumes "e \<in> set items"
  shows "\<exists>t \<in> set (group_text nfc n items). shows_evidence t e"
proof -
  obtain c s where e: "e = (c, s)" by (cases e)
  have "shows_evidence (evidence_block nfc c s) e" "shows_evidence (evidence_body nfc c s) e"
    by (simp_all add: shows_evidence_def e tag_in_block content_in_block tag_in_body content_in_body)
  moreover have "occurs (f c s) (join_with evidence_separator (map (\<lambda>(c, s). f c s) items))" for f
    by (rule occurs_join) (use assms e in force)
  ultimately show ?thesis
    by (auto simp: group_text_def Let_def intro: shows_evidence_mono)
qed

lemma od_append_keeps:
  "map_of m k = Some g \<Longrightarrow> e \<in> set g \<Longrightarrow> \<exists>g'. map_of (od_append u x m) k = Some g' \<and> e \<in> set g'"
  by (auto simp: od_append_map_of)

lemma od_append_adds: "\<exists>g. map_of (od_append u x m) u = Some g \<and> x \<in> set g"
  by (auto simp: od_append_map_of)

lemma fold_append_mem:
  "e \<in> set es \<or> (\<exists>k g. map_of m k = Some g \<and> e \<in> set g) \<Longrightarrow>
     \<exists>k g. map_of (fold (\<lambda>x. od_append (key x) x) es m) k = Some g \<and> e \<in> set g"
proof (induction es arbitrary: m)
  case Nil
  then show ?case by simp
next
  case (Cons x es)
  have "e \<in> set es \<or> (\<exists>k g. map_of (od_append (key x) x m) k = Some g \<and> e \<in> set g)"
    using Cons.prems od_append_adds [of "key x" x m] od_append_keeps [of m _ _ e "key x" x] by (metis set_ConsD)
  then show ?case by (simp add: Cons.IH)
qed

lemma grouped_shows:
  assumes "e \<in> set es"
  shows "shows_evidence (grouped_evidence nfc es) e"
proof -
  have "group_evidence es = fold (\<lambda>x. od_append (group_key (fst x) (snd x)) x) es []"
    by (simp add: group_evidence_def case_prod_beta')
  then obtain k g where "map_of (group_evidence es) k = Some g" "e \<in> set g"
    using fold_append_mem [of e es "[]" "\<lambda>x. group_key (fst x) (snd x)"] assms by auto
  then obtain i where i: "i < length (group_evidence es)" "group_evidence es ! i = (k, g)"
    by (metis in_set_conv_nth map_of_SomeD)
  obtain t where t: "t \<in> set (group_text nfc (1 + i) g)" "shows_evidence t e"
    using group_text_shows [OF \<open>e \<in> set g\<close>] by blast
  have "(1 + i, k, g) \<in> set (enumerate 1 (group_evidence es))"
    using i by (auto simp: in_set_enumerate_eq)
  then have "group_text nfc (1 + i) g
      \<in> set (map (\<lambda>(n, g). group_text nfc n (snd g)) (enumerate 1 (group_evidence es)))"
    unfolding set_map by (rule rev_image_eqI) simp
  then have "t \<in> set (concat (map (\<lambda>(n, g). group_text nfc n (snd g)) (enumerate 1 (group_evidence es))))"
    unfolding set_concat by (rule UN_I) (rule t(1))
  with t(2) show ?thesis
    unfolding grouped_evidence_def by (blast intro: shows_evidence_mono occurs_join)
qed

lemma ungrouped_shows:
  assumes ok: "selection_ok nfc budget keyed sel" and e: "e \<in> set (sl_selected sel)"
  shows "shows_evidence (concat (sl_pieces sel)) (se_candidate e, se_source e)"
proof -
  obtain i where i: "i < length (sl_selected sel)" "sl_selected sel ! i = e"
    using e by (metis in_set_conv_nth)
  have candidates: "map se_candidate (sl_selected sel) = take (length (sl_selected sel)) keyed"
    and sources: "map se_source (sl_selected sel) = map (\<lambda>i. source_id (Suc i)) [0 ..< length (sl_selected sel)]"
    and pieces: "sl_pieces sel = map (\<lambda>i. piece_of nfc (keyed ! i) i) [0 ..< length (sl_selected sel)]"
    using ok unfolding selection_ok_def Let_def by blast+
  have e_is: "se_candidate e = keyed ! i" "se_source e = source_id (Suc i)"
    using arg_cong [OF candidates, of "\<lambda>xs. xs ! i"] arg_cong [OF sources, of "\<lambda>xs. xs ! i"] i by auto
  have "piece_of nfc (keyed ! i) i \<in> set (sl_pieces sel)"
    using pieces i(1) by auto
  then have piece: "occurs (piece_of nfc (keyed ! i) i) (concat (sl_pieces sel))"
    by (rule occurs_concat)
  have block: "occurs (evidence_block nfc (keyed ! i) (source_id (Suc i))) (piece_of nfc (keyed ! i) i)"
    by (simp add: piece_of_def occurs_left)
  have "shows_evidence (evidence_block nfc (keyed ! i) (source_id (Suc i))) (keyed ! i, source_id (Suc i))"
    by (simp add: shows_evidence_def tag_in_block content_in_block)
  from shows_evidence_mono [OF shows_evidence_mono [OF this block] piece] show ?thesis
    by (simp add: e_is)
qed

section \<open>The package\<close>

lemma empty_selection_ok: "0 < budget \<Longrightarrow> selection_ok nfc budget keyed empty_selection"
  by (simp add: selection_ok_def empty_selection_def Let_def)

text \<open>The candidates that the package may show: the kept ones, with their category handles.\<close>

definition offered :: "(pytext \<Rightarrow> pytext) \<Rightarrow> raw_candidate list \<Rightarrow> candidate_row list \<Rightarrow> bool" where
  "offered nfc raws keyed \<longleftrightarrow> (\<exists>kept keys. map (dedup_key nfc) kept = dedupe (map (dedup_key nfc \<circ> raw_row) raws)
     \<and> set kept \<subseteq> raw_row ` set raws \<and> handles_ok keys \<and> list_all2 (handled keys) kept keyed)"

definition package_of :: "(pytext \<Rightarrow> pytext) \<Rightarrow> candidate_row list \<Rightarrow> selection \<Rightarrow> pytext \<Rightarrow> int \<Rightarrow> bool" where
  "package_of nfc keyed sel text tokens \<longleftrightarrow> selection_ok nfc tokens keyed sel \<and> stop_ok keyed sel
     \<and> text \<in> {concat (sl_pieces sel), presented nfc sel}"

lemma deduplicate_subset: "deduplicate nfc cs seen = (kept, n) \<Longrightarrow> set kept \<subseteq> set cs"
  by (induction cs arbitrary: seen kept n) (auto split: if_splits prod.splits, blast+)

lemma build_context_cases:
  assumes "build_context nfc counter request query raws budget s = (Inr pkg, t)"
  shows "\<exists>keyed sel. offered nfc raws keyed \<and> selection_ok nfc budget keyed sel \<and> stop_ok keyed sel
    \<and> pk_text pkg \<in> {concat (sl_pieces sel), presented nfc sel} \<and> pk_tokens pkg \<le> budget
    \<and> pk_selected pkg = sl_selected sel \<and> pk_selected_count pkg = length (sl_selected sel)
    \<and> pk_exhausted pkg = sl_exhausted sel \<and> pk_stop pkg = sl_stop sel
    \<and> pk_candidates pkg = length raws \<and> pk_duplicates pkg + length keyed = length raws
    \<and> pk_dropped pkg = int (length raws) - int (length (sl_selected sel))"
proof -
  obtain cands where cands: "validate_input request query raws budget = Inr cands"
    using assms by (auto simp: build_context_def op_simps lift_context_def split: sum.splits prod.splits)
  obtain kept d where kept: "deduplicate nfc cands [] = (kept, d)" by fastforce
  obtain keyed where keyed: "with_category_keys kept [] = Inr keyed"
    using assms cands kept by (auto simp: build_context_def op_simps lift_context_def split: sum.splits prod.splits)
  obtain sel s1 where sel: "select_evidence nfc counter budget keyed empty_selection s = (Inr sel, s1)"
    using assms cands kept keyed
    by (auto simp: build_context_def empty_selection_def op_simps lift_context_def split: sum.splits prod.splits)
  have budget: "0 < budget" and rows: "cands = map raw_row raws"
    using validate_input_rows [OF cands] by simp_all
  have ok: "selection_ok nfc budget keyed sel \<and> stop_ok keyed sel"
    using tripleD [OF select_evidence_ok [OF _ empty_selection_ok [OF budget]] _ sel]
    by (simp add: empty_selection_def)
  obtain keys where keys: "handles_ok keys" "list_all2 (handled keys) kept keyed"
    using with_category_keys_handled [OF keyed] by auto
  have "offered nfc raws keyed"
    unfolding offered_def using deduplicate_first [OF kept] deduplicate_subset [OF kept] keys rows by auto
  moreover have "length keyed + d = length raws"
    using deduplicate_first [OF kept] list_all2_lengthD [OF keys(2)] rows by simp
  moreover have "pk_text pkg \<in> {concat (sl_pieces sel), presented nfc sel} \<and> pk_tokens pkg \<le> budget
    \<and> pk_selected pkg = sl_selected sel \<and> pk_selected_count pkg = length (sl_selected sel)
    \<and> pk_exhausted pkg = sl_exhausted sel \<and> pk_stop pkg = sl_stop sel
    \<and> pk_candidates pkg = length raws \<and> pk_duplicates pkg = d
    \<and> pk_dropped pkg = int (length raws) - int (length (sl_selected sel))"
    using assms cands kept keyed sel rows
    by (auto simp: build_context_def empty_selection_def choose_text_def op_simps lift_context_def
        split: sum.splits prod.splits if_splits)
  ultimately show ?thesis using ok by (intro exI [of _ keyed] exI [of _ sel]) auto
qed

lemma context_built:
  assumes "build_context nfc counter request query raws budget s = (Inr pkg, t)"
  shows "pk_tokens pkg \<le> budget
    \<and> (\<forall>e \<in> set (pk_selected pkg). shows_evidence (pk_text pkg) (se_candidate e, se_source e))
    \<and> (\<exists>keyed n. offered nfc raws keyed \<and> n \<le> length keyed \<and> pk_selected_count pkg = n
        \<and> map se_candidate (pk_selected pkg) = take n keyed
        \<and> map se_source (pk_selected pkg) = map (\<lambda>i. source_id (Suc i)) [0 ..< n]
        \<and> pk_duplicates pkg + length keyed = pk_candidates pkg
        \<and> pk_dropped pkg = int (pk_candidates pkg) - int n
        \<and> (pk_exhausted pkg \<longleftrightarrow> n < length keyed)
        \<and> pk_stop pkg = (if n = length keyed then STOP_NONE
             else if n = 0 then TOP_EVIDENCE_EXCEEDS_CONTEXT_BUDGET else TOKEN_BUDGET))"
proof -
  obtain keyed sel where offered: "offered nfc raws keyed" and ok: "selection_ok nfc budget keyed sel" "stop_ok keyed sel"
    and shown: "pk_text pkg \<in> {concat (sl_pieces sel), presented nfc sel}"
    and pkg: "pk_tokens pkg \<le> budget" "pk_selected pkg = sl_selected sel" "pk_selected_count pkg = length (sl_selected sel)"
      "pk_exhausted pkg = sl_exhausted sel" "pk_stop pkg = sl_stop sel"
      "pk_candidates pkg = length raws" "pk_duplicates pkg + length keyed = length raws"
      "pk_dropped pkg = int (length raws) - int (length (sl_selected sel))"
    using build_context_cases [OF assms] by blast
  have "shows_evidence (pk_text pkg) (se_candidate e, se_source e)" if e: "e \<in> set (pk_selected pkg)" for e
  proof (cases "pk_text pkg = presented nfc sel")
    case True
    have "(se_candidate e, se_source e) \<in> set (map (\<lambda>e. (se_candidate e, se_source e)) (sl_selected sel))"
      using e pkg(2) by simp
    then show ?thesis unfolding True presented_def by (rule grouped_shows)
  next
    case False
    with shown e pkg(2) show ?thesis by (simp add: ungrouped_shows [OF ok(1)])
  qed
  moreover have "length (sl_selected sel) \<le> length keyed"
    "map se_candidate (sl_selected sel) = take (length (sl_selected sel)) keyed"
    "map se_source (sl_selected sel) = map (\<lambda>i. source_id (Suc i)) [0 ..< length (sl_selected sel)]"
    using ok(1) unfolding selection_ok_def Let_def by blast+
  moreover have "(sl_exhausted sel \<longleftrightarrow> length (sl_selected sel) < length keyed)
    \<and> sl_stop sel = (if length (sl_selected sel) = length keyed then STOP_NONE
         else if length (sl_selected sel) = 0 then TOP_EVIDENCE_EXCEEDS_CONTEXT_BUDGET else TOKEN_BUDGET)"
    using ok(2) by (auto simp: stop_ok_def Let_def split: if_splits)
  ultimately show ?thesis
    using offered pkg by (intro conjI exI [of _ keyed] exI [of _ "length (sl_selected sel)"]) auto
qed


section \<open>A counter that never fails\<close>

definition pure_counter :: "(pytext \<Rightarrow> int) \<Rightarrow> 's counter" where
  "pure_counter len t = return_op (len t)"

definition context_prefix :: "(pytext \<Rightarrow> pytext) \<Rightarrow> candidate_row list \<Rightarrow> nat \<Rightarrow> pytext" where
  "context_prefix nfc keyed n = concat (map (\<lambda>i. piece_of nfc (keyed ! i) i) [0 ..< n])"

definition next_fits :: "(pytext \<Rightarrow> pytext) \<Rightarrow> (pytext \<Rightarrow> int) \<Rightarrow> int \<Rightarrow> candidate_row list \<Rightarrow> nat \<Rightarrow> bool" where
  "next_fits nfc len budget keyed n \<longleftrightarrow>
     len (context_prefix nfc keyed n) + len (piece_of nfc (keyed ! n) n) \<le> budget
     \<and> len (context_prefix nfc keyed (Suc n)) \<le> budget"

lemma counted_pure [simp]: "0 \<le> len t \<Longrightarrow> counted (pure_counter len) t s = (Inr (len t), s)"
  by (simp add: counted_def pure_counter_def)

lemma select_evidence_pure:
  assumes "\<And>t. 0 \<le> len t" and "drop (length (sl_selected sel)) keyed = cs" "selection_ok nfc budget keyed sel"
    "\<not> sl_exhausted sel" "sl_tokens sel = len (concat (sl_pieces sel))"
  shows "\<exists>sel'. select_evidence nfc (pure_counter len) budget cs sel s = (Inr sel', s)
    \<and> sl_tokens sel' = len (concat (sl_pieces sel'))
    \<and> (sl_exhausted sel' \<longrightarrow> \<not> next_fits nfc len budget keyed (length (sl_selected sel')))"
  using assms(2-)
proof (induction cs arbitrary: sel)
  case Nil
  then show ?case by simp
next
  case (Cons c cs)
  let ?n = "length (sl_selected sel)"
  have n: "?n < length keyed" "keyed ! ?n = c"
    using Cons.prems(1) by (metis drop_eq_Nil2 list.distinct(1) not_le, metis hd_drop_conv_nth drop_eq_Nil2 list.distinct(1) list.sel(1) not_le)
  have rest: "drop (Suc ?n) keyed = cs"
    using Cons.prems(1) by (metis drop_Suc list.sel(3) tl_drop)
  have prefix: "concat (sl_pieces sel) = context_prefix nfc keyed ?n"
    using Cons.prems(2) by (simp add: context_prefix_def selection_ok_def Let_def)
  show ?case
  proof (cases "next_fits nfc len budget keyed ?n")
    case False
    then have "select_evidence nfc (pure_counter len) budget (c # cs) sel s = (Inr (stop_here sel), s)"
      using Cons.prems(4) n prefix
      by (auto simp: select_evidence_Cons Let_def then_op_apply assms(1) next_fits_def context_prefix_def
          simp del: select_evidence.simps)
    with False Cons.prems(4) show ?thesis by (simp add: stop_here_def)
  next
    case True
    let ?sel = "pick nfc c (len (evidence_block nfc c (source_id (Suc ?n))))
      (len (concat (sl_pieces sel) @ piece_of nfc c ?n)) sel"
    have step: "select_evidence nfc (pure_counter len) budget (c # cs) sel s
        = select_evidence nfc (pure_counter len) budget cs ?sel s"
      using True Cons.prems(4) n prefix
      by (auto simp: select_evidence_Cons Let_def then_op_apply assms(1) next_fits_def context_prefix_def
          simp del: select_evidence.simps)
    have "selection_ok nfc budget keyed ?sel"
      using True prefix n by (intro selection_ok_pick [OF Cons.prems(2,1)]) (simp add: next_fits_def context_prefix_def)
    then show ?thesis
      unfolding step using Cons.IH [of ?sel] rest Cons.prems(3) by simp
  qed
qed

lemma with_category_keys_total:
  "\<forall>c \<in> set cs. \<not> unhashable_source (ca_metadata c) \<Longrightarrow> \<exists>out. with_category_keys cs keys = Inr out"
proof (induction cs arbitrary: keys)
  case (Cons c cs)
  then have "\<exists>out. with_category_keys cs keys' = Inr out" for keys' by simp
  then show ?case
    using Cons.prems by (auto simp: Let_def split: option.split) (metis and_then_simps(2))+
qed simp

definition greedy_run ::
  "(pytext \<Rightarrow> pytext) \<Rightarrow> (pytext \<Rightarrow> int) \<Rightarrow> int \<Rightarrow> candidate_row list \<Rightarrow> selection \<Rightarrow> bool" where
  "greedy_run nfc len budget keyed sel \<longleftrightarrow> selection_ok nfc budget keyed sel
     \<and> sl_tokens sel = len (concat (sl_pieces sel))
     \<and> (length (sl_selected sel) = length keyed \<or> \<not> next_fits nfc len budget keyed (length (sl_selected sel)))"

lemma select_greedy:
  assumes "\<And>t. 0 \<le> len t" and "len [] = 0" and "0 < budget"
  shows "\<exists>sel. select_evidence nfc (pure_counter len) budget keyed empty_selection s = (Inr sel, s)
    \<and> greedy_run nfc len budget keyed sel"
proof -
  obtain sel where sel: "select_evidence nfc (pure_counter len) budget keyed empty_selection s = (Inr sel, s)"
    "sl_tokens sel = len (concat (sl_pieces sel))"
    "sl_exhausted sel \<longrightarrow> \<not> next_fits nfc len budget keyed (length (sl_selected sel))"
    using select_evidence_pure [of len empty_selection keyed keyed nfc budget s] empty_selection_ok [OF assms(3)] assms(1,2)
    by (auto simp: empty_selection_def)
  moreover have "selection_ok nfc budget keyed sel \<and> stop_ok keyed sel"
    using tripleD [OF select_evidence_ok [OF _ empty_selection_ok [OF assms(3)]] _ sel(1)]
    by (simp add: empty_selection_def)
  ultimately show ?thesis by (auto simp: greedy_run_def stop_ok_def Let_def split: if_splits)
qed

lemma build_greedy:
  assumes "\<forall>t. 0 \<le> len t" and "len [] = 0" and "validate_input request query raws budget = Inr cands"
    and "\<forall>c \<in> set cands. \<not> unhashable_source (ca_metadata c)"
  shows "\<exists>pkg keyed sel. build_context nfc (pure_counter len) request query raws budget s = (Inr pkg, s)
    \<and> offered nfc raws keyed \<and> greedy_run nfc len budget keyed sel \<and> pk_selected pkg = sl_selected sel
    \<and> pk_selected_count pkg = length (sl_selected sel) \<and> pk_tokens pkg = len (pk_text pkg)"
proof -
  obtain kept d where kept: "deduplicate nfc cands [] = (kept, d)" by fastforce
  obtain keyed where keyed: "with_category_keys kept [] = Inr keyed"
    using with_category_keys_total [of kept "[]"] deduplicate_subset [OF kept] assms(4) by blast
  have budget: "0 < budget" and rows: "cands = map raw_row raws"
    using validate_input_rows [OF assms(3)] by simp_all
  obtain sel where sel: "select_evidence nfc (pure_counter len) budget keyed empty_selection s = (Inr sel, s)"
    "greedy_run nfc len budget keyed sel"
    using select_greedy [of len budget nfc keyed s] assms(1,2) budget by blast
  then have tokens: "sl_tokens sel \<le> budget" "sl_tokens sel = len (concat (sl_pieces sel))"
    unfolding greedy_run_def selection_ok_def Let_def by blast+
  obtain keys where keys: "handles_ok keys" "list_all2 (handled keys) kept keyed"
    using with_category_keys_handled [OF keyed] by auto
  have "offered nfc raws keyed"
    unfolding offered_def using deduplicate_first [OF kept] deduplicate_subset [OF kept] keys rows by auto
  moreover have "\<exists>pkg. build_context nfc (pure_counter len) request query raws budget s = (Inr pkg, s)
      \<and> pk_selected pkg = sl_selected sel \<and> pk_selected_count pkg = length (sl_selected sel)
      \<and> pk_tokens pkg = len (pk_text pkg)"
    using assms(1,3) kept keyed sel(1) tokens
    by (auto simp: build_context_def empty_selection_def choose_text_def op_simps lift_context_def)
  ultimately show ?thesis using sel(2) by blast
qed

text \<open>C33. With a tokenizer that always answers, gives no negative count and none to the empty text, valid input is
  always packed: the count is the one of the text, and the selection is greedy - it ends with the candidates or at
  one that does not fit behind the evidence before it.\<close>

theorem context_total:
  assumes "\<forall>t. 0 \<le> len t" and "len [] = 0" and "validate_input request query raws budget = Inr cands"
    and "\<forall>c \<in> set cands. \<not> unhashable_source (ca_metadata c)"
  shows "\<exists>pkg keyed. build_context nfc (pure_counter len) request query raws budget s = (Inr pkg, s)
    \<and> offered nfc raws keyed \<and> pk_tokens pkg = len (pk_text pkg)
    \<and> (pk_selected_count pkg = length keyed \<or> \<not> next_fits nfc len budget keyed (pk_selected_count pkg))"
  using build_greedy [OF assms, of nfc s] unfolding greedy_run_def by metis

text \<open>C34. The category handle of the model's prompt is faithful: two offered candidates with an authoritative category
  carry the same handle exactly when they have the same category root.\<close>

theorem category_handles_faithful:
  assumes "with_category_keys cs [] = Inr out" and "i < length cs" and "j < length cs"
    and "category_root (ca_metadata (cs ! i)) = Some a" and "category_root (ca_metadata (cs ! j)) = Some b"
  shows "category_key (out ! i) \<noteq> None \<and> (category_key (out ! i) = category_key (out ! j) \<longleftrightarrow> a = b)"
proof -
  obtain keys where keys: "handles_ok keys" "list_all2 (handled keys) cs out"
    using with_category_keys_handled [OF assms(1)] by auto
  obtain g where g: "map_of keys a = Some g" "category_key (out ! i) = Some (ascii g)"
    using handled_key [OF keys(1) list_all2_nthD [OF keys(2) assms(2)] assms(4)] by blast
  obtain h where h: "map_of keys b = Some h" "category_key (out ! j) = Some (ascii h)"
    using handled_key [OF keys(1) list_all2_nthD [OF keys(2) assms(3)] assms(5)] by blast
  have "ascii g = ascii h \<longleftrightarrow> g = h"
    by (rule inj_eq) (simp add: inj_map_eq_map inj_of_char)
  then show ?thesis
    using g h handles_inject [OF keys(1)] by auto
qed

section \<open>A package of two sources\<close>

definition sample_path :: "string \<Rightarrow> metadata" where
  "sample_path r = [(''authoritative_legal_path'', MDict [(''path_source'', MStr (ascii ''LEGAL_UNIT_REPOSITORY'')),
     (''category_root_id'', MStr (ascii r)), (''ancestor_display_labels'', MList [MStr (ascii ''Article'')])])]"

definition sample_evidence :: "string \<Rightarrow> int \<Rightarrow> candidate_row" where
  "sample_evidence body n = \<lparr>ca_chunk = sample_uuid, ca_document = sample_uuid, ca_content = ascii body,
     ca_metadata = sample_path ''r'', ca_provenance = [], ca_dense_score = Some 1, ca_dense_rank = Some n,
     ca_lexical_score = None, ca_lexical_rank = None,
     ca_fusion = Some 1, ca_rank = Some n, ca_order = n, ca_origin = RETRIEVAL, ca_unit = None, ca_relation = None,
     ca_depth = 0, ca_anchor_chunk = None, ca_anchor_unit = None, ca_anchor_rank = None, ca_references = [],
     ca_final_rank = Some n\<rparr>"

definition sample_raws :: "raw_candidate list" where
  "sample_raws = [Instance (sample_evidence ''a'' 1), Fields (Some (sample_evidence ''b'' 2))]"

definition sample_len :: "pytext \<Rightarrow> int" where
  "sample_len t = int (length t)"

lemma sample_validate: "validate_input [105] [113] sample_raws 400 = Inr (map raw_row sample_raws)"
  using sample_is_uuid
  by (simp add: validate_input_def strip_by_def py_space_def sample_raws_def model_validate_def sample_evidence_def
      candidate_valid_def retrieval_contract_def rank_ok_def positive_rank_def raw_row_def)

lemma sample_hashable: "\<forall>c \<in> set (map raw_row sample_raws). \<not> unhashable_source (ca_metadata c)"
  by (simp add: sample_raws_def raw_row_def sample_evidence_def sample_path_def unhashable_source_def meta_dict_def)

lemma sample_run:
  "\<exists>pkg. build_context (\<lambda>t. t) (pure_counter sample_len) [105] [113] sample_raws 400 () = (Inr pkg, ())"
  using build_greedy [OF _ _ sample_validate sample_hashable, of sample_len "\<lambda>t. t" "()"] by (auto simp: sample_len_def)


theorem context_total_witness:
  "\<exists>pkg keyed. build_context (\<lambda>t. t) (pure_counter sample_len) [105] [113] sample_raws 400 () = (Inr pkg, ())
    \<and> offered (\<lambda>t. t) sample_raws keyed \<and> pk_tokens pkg = sample_len (pk_text pkg)"
  using context_total [OF _ _ sample_validate sample_hashable, of sample_len "\<lambda>t. t" "()"]
  by (auto simp: sample_len_def)

lemma sample_keyed: "with_category_keys (map raw_row sample_raws) []
    = Inr (map (set_category_key (category_handle 1) \<circ> raw_row) sample_raws)"
  by (simp add: sample_raws_def raw_row_def sample_evidence_def sample_path_def unhashable_source_def meta_dict_def
      category_root_def authoritative_path_def meta_str_def resolver_sources_def od_setdefault_def Let_def)

theorem category_handles_faithful_witness:
  "category_key (map (set_category_key (category_handle 1) \<circ> raw_row) sample_raws ! 0) \<noteq> None
   \<and> category_key (map (set_category_key (category_handle 1) \<circ> raw_row) sample_raws ! 0)
     = category_key (map (set_category_key (category_handle 1) \<circ> raw_row) sample_raws ! 1)"
proof -
  have root: "category_root (ca_metadata (map raw_row sample_raws ! i)) = Some (ascii ''r'')" if "i < 2" for i
    using that by (auto simp: less_Suc_eq numeral_2_eq_2 sample_raws_def raw_row_def sample_evidence_def sample_path_def meta_dict_def
        category_root_def authoritative_path_def meta_str_def resolver_sources_def)
  show ?thesis
    using category_handles_faithful [OF sample_keyed, of 0 1] root [of 0] root [of 1] by (simp add: sample_raws_def) metis
qed

end
