(* ===== verification/Answers.thy ===== *)
theory Answers
  imports Evidence
begin

text \<open>
  From the text of the model to the answer: status markers (\<open>app/generation/answerability.py\<close>), citations
  (\<open>citations.py\<close>), the final result (\<open>finalization.py\<close>) and structured claims (\<open>local_compute/structured_claims.py\<close>).
  A regular expression is the function it computes: its classes are disjoint from the literals that follow them, so
  no match backtracks. Under \<open>IGNORECASE\<close> the letter S also matches U+017F.
\<close>

section \<open>Markers\<close>

datatype answerability = ANSWERABLE | INSUFFICIENT

datatype answerability_validation =
    AV_PASS | AV_NOT_APPLICABLE | MISSING_STATUS | MALFORMED_STATUS | DUPLICATE_STATUS | UNKNOWN_STATUS
  | STRUCTURED_OUTPUT_INVALID

record parsed_answer =
  pa_status :: "answerability option"
  pa_text :: pytext
  pa_validation :: answerability_validation

definition marker_start :: pytext where
  "marker_start = ascii ''[STATUS''"

definition same_letter :: "codepoint \<Rightarrow> codepoint \<Rightarrow> bool" where
  "same_letter p x \<longleftrightarrow> x = p \<or> (65 \<le> p \<and> p \<le> 90 \<and> (x = p + 32 \<or> p = 83 \<and> x = 383))"

definition starts_marker :: "pytext \<Rightarrow> bool" where
  "starts_marker t \<longleftrightarrow> list_all2 same_letter marker_start (take 7 t)"

definition blank :: "codepoint \<Rightarrow> bool" where
  "blank c \<longleftrightarrow> c = 32 \<or> c = 9"

definition blank_or_newline :: "codepoint \<Rightarrow> bool" where
  "blank_or_newline c \<longleftrightarrow> c = 32 \<or> c = 9 \<or> c = 13 \<or> c = 10"

abbreviation lstrip :: "pytext \<Rightarrow> pytext" where
  "lstrip \<equiv> dropWhile blank_or_newline"

text \<open>\<open>_MARKER_LIKE\<close> at the start of a text: the text behind the match.\<close>

definition marker_at :: "pytext \<Rightarrow> pytext option" where
  "marker_at t = (if starts_marker t
     then (case dropWhile (\<lambda>c. c \<noteq> 93 \<and> c \<noteq> 13 \<and> c \<noteq> 10) (drop 7 t) of
         [] \<Rightarrow> None | c # rest \<Rightarrow> if c = 93 then Some rest else None)
     else None)"

lemma marker_at_shorter: "marker_at t = Some rest \<Longrightarrow> length rest < length t"
proof -
  assume "marker_at t = Some rest"
  then have "dropWhile (\<lambda>c. c \<noteq> 93 \<and> c \<noteq> 13 \<and> c \<noteq> 10) (drop 7 t) = 93 # rest"
    by (auto simp: marker_at_def split: if_splits list.splits)
  from arg_cong [OF this, of length] show ?thesis
    using length_dropWhile_le [of "\<lambda>c. c \<noteq> 93 \<and> c \<noteq> 13 \<and> c \<noteq> 10" "drop 7 t"] by simp
qed

function remove_markers :: "pytext \<Rightarrow> pytext" where
  "remove_markers [] = []"
| "remove_markers (x # xs) = (case marker_at (x # xs) of Some rest \<Rightarrow> remove_markers rest
     | None \<Rightarrow> x # remove_markers xs)"
  by pat_completeness auto
termination
  by (relation "measure length") (auto dest: marker_at_shorter)

function count_markers :: "pytext \<Rightarrow> nat" where
  "count_markers [] = 0"
| "count_markers (x # xs) = (case marker_at (x # xs) of Some rest \<Rightarrow> Suc (count_markers rest)
     | None \<Rightarrow> count_markers xs)"
  by pat_completeness auto
termination
  by (relation "measure length") (auto dest: marker_at_shorter)

definition opens_with_marker :: "pytext \<Rightarrow> bool" where
  "opens_with_marker t = starts_marker (lstrip t)"

definition strip_internal_markers :: "pytext \<Rightarrow> pytext" where
  "strip_internal_markers t = (let cleaned = remove_markers t in
     lstrip (if opens_with_marker cleaned
       then (case split_once 10 cleaned of None \<Rightarrow> [] | Some (_, rest) \<Rightarrow> rest) else cleaned))"

text \<open>What follows \<open>[STATUS :\<close>, with any blanks around the colon; the letters are case-sensitive here.\<close>

definition after_colon :: "pytext \<Rightarrow> pytext option" where
  "after_colon t = (let u = lstrip t in
     if starts_with marker_start u
     then (case dropWhile blank (drop 7 u) of [] \<Rightarrow> None | c # rest \<Rightarrow> if c = 58 then Some (dropWhile blank rest) else None)
     else None)"

definition closed_by :: "pytext \<Rightarrow> pytext option" where
  "closed_by t = (case dropWhile blank t of [] \<Rightarrow> None | c # rest \<Rightarrow> if c = 93 then Some rest else None)"

definition valid_prefix :: "pytext \<Rightarrow> (answerability \<times> pytext) option" where
  "valid_prefix t = (case after_colon t of None \<Rightarrow> None
     | Some u \<Rightarrow>
         if starts_with (ascii ''ANSWERABLE'') u then map_option (Pair ANSWERABLE) (closed_by (drop 10 u))
         else if starts_with (ascii ''INSUFFICIENT_EVIDENCE'') u
           then map_option (Pair INSUFFICIENT) (closed_by (drop 21 u))
         else None)"

definition token_char :: "codepoint \<Rightarrow> bool" where
  "token_char c \<longleftrightarrow> (65 \<le> c \<and> c \<le> 90) \<or> c = 95"

definition known_token :: "pytext \<Rightarrow> pytext option" where
  "known_token t = (case after_colon t of None \<Rightarrow> None
     | Some u \<Rightarrow> let token = takeWhile token_char u in
         if token = [] \<or> closed_by (dropWhile token_char u) = None then None else Some token)"

definition status_names :: "pytext set" where
  "status_names = {ascii ''ANSWERABLE'', ascii ''INSUFFICIENT_EVIDENCE''}"

definition parse_answerability :: "pytext \<Rightarrow> parsed_answer" where
  "parse_answerability t = (let n = count_markers t in
     case (valid_prefix t, n = 1) of
       (Some (status, rest), True) \<Rightarrow> \<lparr>pa_status = Some status, pa_text = lstrip rest, pa_validation = AV_PASS\<rparr>
     | _ \<Rightarrow> \<lparr>pa_status = None, pa_text = strip_internal_markers t, pa_validation =
         (if 1 < n then DUPLICATE_STATUS
          else if n = 1 then (case known_token t of
              Some token \<Rightarrow> if token \<notin> status_names then UNKNOWN_STATUS else MALFORMED_STATUS
            | None \<Rightarrow> MALFORMED_STATUS)
          else if opens_with_marker t then MALFORMED_STATUS else MISSING_STATUS)\<rparr>)"

definition resolved_prefix :: "pytext \<Rightarrow> parsed_answer option" where
  "resolved_prefix t = map_option (\<lambda>(status, rest).
     \<lparr>pa_status = Some status, pa_text = lstrip rest, pa_validation = AV_PASS\<rparr>) (valid_prefix t)"

section \<open>The streaming filter\<close>

text \<open>\<open>str.upper\<close> replaces every character by the text \<open>up\<close> gives for it, which may be longer than one.\<close>

type_synonym upper_table = "codepoint \<Rightarrow> pytext"

definition py_upper :: "upper_table \<Rightarrow> pytext \<Rightarrow> pytext" where
  "py_upper up t = concat (map up t)"

fun find_sub :: "'a list \<Rightarrow> 'a list \<Rightarrow> nat option" where
  "find_sub p [] = (if p = [] then Some 0 else None)"
| "find_sub p (x # xs) = (if starts_with p (x # xs) then Some 0 else map_option Suc (find_sub p xs))"

definition last_chars :: "nat \<Rightarrow> pytext \<Rightarrow> pytext" where
  "last_chars n t = drop (length t - n) t"

definition retained_length :: "upper_table \<Rightarrow> pytext \<Rightarrow> nat" where
  "retained_length up t = (case filter (\<lambda>n. starts_with (py_upper up (last_chars n t)) marker_start)
       (rev [1 ..< Suc (min (length t) 6)]) of [] \<Rightarrow> 0 | n # _ \<Rightarrow> n)"

lemma split_once_shorter: "split_once x t = Some (a, b) \<Longrightarrow> length b < length t"
  by (induction t arbitrary: a b) (auto split: if_splits)

function feed_loop :: "upper_table \<Rightarrow> pytext \<Rightarrow> pytext \<times> pytext" where
  "feed_loop up t = (if t = [] then ([], [])
     else (case find_sub marker_start (py_upper up t) of
         Some i \<Rightarrow> (case split_once 93 (drop i t) of
             None \<Rightarrow> (take i t, drop i t)
           | Some (_, rest) \<Rightarrow> (case feed_loop up rest of (out, pending) \<Rightarrow> (take i t @ out, pending)))
       | None \<Rightarrow> let n = retained_length up t in (take (length t - n) t, drop (length t - n) t)))"
  by pat_completeness auto
termination
proof (relation "measure (\<lambda>(up, t). length t)", goal_cases)
  case (2 up t i p a rest)
  then have "length rest < length (drop i t)" by (auto dest: split_once_shorter)
  then show ?case by simp
qed simp

declare feed_loop.simps [simp del]

text \<open>The state of the filter is its pending text.\<close>

definition feed :: "upper_table \<Rightarrow> pytext \<Rightarrow> pytext \<Rightarrow> pytext \<times> pytext" where
  "feed up pending chunk = feed_loop up (pending @ chunk)"

definition finish_filter :: "upper_table \<Rightarrow> pytext \<Rightarrow> pytext" where
  "finish_filter up pending = (if starts_with marker_start (py_upper up pending) then [] else pending)"

fun stream :: "upper_table \<Rightarrow> pytext \<Rightarrow> pytext list \<Rightarrow> pytext" where
  "stream up pending [] = finish_filter up pending"
| "stream up pending (c # cs) = (case feed up pending c of (out, pending') \<Rightarrow> out @ stream up pending' cs)"

text \<open>The reference: from the start of a marker everything up to its closing bracket is dropped, or everything.\<close>

definition starts_upper :: "upper_table \<Rightarrow> pytext \<Rightarrow> bool" where
  "starts_upper up t \<longleftrightarrow> starts_with marker_start (py_upper up t)"

function shown :: "upper_table \<Rightarrow> pytext \<Rightarrow> pytext" where
  "shown up [] = []"
| "shown up (x # xs) = (if starts_upper up (x # xs)
     then (case split_once 93 (x # xs) of None \<Rightarrow> [] | Some (_, rest) \<Rightarrow> shown up rest)
     else x # shown up xs)"
  by pat_completeness auto
termination
  by (relation "measure (\<lambda>(up, t). length t)") (auto dest: split_once_shorter simp del: split_once.simps)

declare shown.simps(2) [simp del]

definition plain :: "upper_table \<Rightarrow> pytext \<Rightarrow> bool" where
  "plain up t \<longleftrightarrow> (\<forall>c \<in> set t. length (up c) = 1)"

lemma plain_simps [simp]:
  "plain up []" "plain up (c # t) \<longleftrightarrow> length (up c) = 1 \<and> plain up t" "plain up (s @ t) \<longleftrightarrow> plain up s \<and> plain up t"
  by (auto simp: plain_def)

lemma plain_drop: "plain up t \<Longrightarrow> plain up (drop n t)"
  by (auto simp: plain_def dest: in_set_dropD)

lemma py_upper_append [simp]: "py_upper up (s @ t) = py_upper up s @ py_upper up t"
  by (simp add: py_upper_def)

lemma length_py_upper [simp]: "plain up t \<Longrightarrow> length (py_upper up t) = length t"
  by (induction t) (auto simp: py_upper_def)

lemma py_upper_drop: "plain up t \<Longrightarrow> py_upper up (drop n t) = drop n (py_upper up t)"
proof (induction t arbitrary: n)
  case (Cons c t)
  then show ?case by (cases n) (auto simp: py_upper_def length_Suc_conv)
qed (simp add: py_upper_def)

lemma starts_with_append: "length p \<le> length s \<Longrightarrow> starts_with p (s @ t) = starts_with p s"
  by (simp add: starts_with_def)

lemma starts_with_length: "starts_with p s \<Longrightarrow> length p \<le> length s"
  by (auto simp: starts_with_def dest: arg_cong [of _ _ length])

lemma find_sub_Some:
  "find_sub p s = Some i \<Longrightarrow> i \<le> length s \<and> starts_with p (drop i s) \<and> (\<forall>j < i. \<not> starts_with p (drop j s))"
proof (induction s arbitrary: i)
  case Nil
  then show ?case by (simp add: starts_with_def split: if_splits)
next
  case (Cons x s)
  show ?case
  proof (cases "starts_with p (x # s)")
    case True
    with Cons.prems show ?thesis by simp
  next
    case False
    with Cons.prems obtain k where "find_sub p s = Some k" "i = Suc k" by auto
    with Cons.IH [of k] False show ?thesis by (auto simp: less_Suc_eq_0_disj)
  qed
qed

lemma find_sub_None: "find_sub p s = None \<Longrightarrow> p \<noteq> [] \<Longrightarrow> \<not> starts_with p (drop j s)"
proof (induction s arbitrary: j)
  case Nil
  then show ?case by (simp add: starts_with_def)
next
  case (Cons x s)
  then show ?case by (cases j) (auto split: if_splits)
qed

lemma length_marker_start [simp]: "length marker_start = 7" "marker_start \<noteq> []"
  by (simp_all add: marker_start_def)

lemma shown_skip:
  "\<forall>j < i. \<not> starts_upper up (drop j t) \<Longrightarrow> i \<le> length t \<Longrightarrow> shown up t = take i t @ shown up (drop i t)"
proof (induction i arbitrary: t)
  case (Suc i)
  then obtain x xs where t: "t = x # xs" by (cases t) auto
  have "\<not> starts_upper up (drop j xs)" if "j < i" for j
    using Suc.prems(1) that t by (metis drop_Suc_Cons Suc_less_eq)
  then have "shown up xs = take i xs @ shown up (drop i xs)"
    using Suc.IH [of xs] Suc.prems(2) t by simp
  moreover have "\<not> starts_upper up (x # xs)"
    using Suc.prems(1) t by fastforce
  ultimately show ?case by (simp add: t shown.simps(2))
qed simp

lemma starts_upper_append:
  "plain up s \<Longrightarrow> 7 \<le> length s \<Longrightarrow> starts_upper up (s @ t) = starts_upper up s"
  by (simp add: starts_upper_def starts_with_append)

lemma starts_upper_length: "plain up s \<Longrightarrow> starts_upper up s \<Longrightarrow> 7 \<le> length s"
  using starts_with_length [of marker_start "py_upper up s"] by (simp add: starts_upper_def)

lemma split_once_append_Some: "split_once x s = Some (a, b) \<Longrightarrow> split_once x (s @ t) = Some (a, b @ t)"
  by (induction s arbitrary: a) (auto split: if_splits)

lemma retained_length_le: "retained_length up t \<le> length t \<and> retained_length up t \<le> 6"
proof -
  let ?c = "filter (\<lambda>n. starts_with (py_upper up (last_chars n t)) marker_start) (rev [1 ..< Suc (min (length t) 6)])"
  show ?thesis
  proof (cases ?c)
    case (Cons n ns)
    then have "n \<in> set (rev [1 ..< Suc (min (length t) 6)])"
      by (metis filter_is_subset list.set_intros(1) subsetD)
    then have "n \<le> length t \<and> n \<le> 6" by (auto simp del: upt_Suc)
    with Cons show ?thesis by (simp add: retained_length_def del: upt_Suc)
  qed (simp add: retained_length_def del: upt_Suc)
qed

lemma rev_upt_greatest:
  assumes "filter P (rev [1 ..< Suc k]) = n # ns" "1 \<le> m" "m \<le> k" "P m"
  shows "m \<le> n"
proof -
  have "m \<in> set (filter P (rev [1 ..< Suc k]))" using assms(2-4) by (auto simp del: upt_Suc)
  moreover have "sorted_wrt (\<lambda>a b. b \<le> a) (filter P (rev [1 ..< Suc k]))"
    by (rule sorted_wrt_filter) (simp add: sorted_wrt_rev del: upt_Suc)
  ultimately show ?thesis unfolding assms(1) by auto
qed

lemma retained_greatest:
  assumes "1 \<le> m" "m \<le> length t" "m \<le> 6" "starts_with (py_upper up (last_chars m t)) marker_start"
  shows "m \<le> retained_length up t"
proof -
  let ?P = "\<lambda>n. starts_with (py_upper up (last_chars n t)) marker_start"
  have "filter ?P (rev [1 ..< Suc (min (length t) 6)]) \<noteq> []"
    using assms by (auto simp: filter_empty_conv simp del: upt_Suc)
  then obtain n ns where n: "filter ?P (rev [1 ..< Suc (min (length t) 6)]) = n # ns"
    by (cases "filter ?P (rev [1 ..< Suc (min (length t) 6)])") auto
  have "m \<le> n" by (rule rev_upt_greatest [OF n]) (use assms in auto)
  with n show ?thesis by (simp add: retained_length_def del: upt_Suc)
qed

lemma marker_prefix_suffix:
  assumes "plain up (t @ r)" "j < length t" "starts_upper up (drop j t @ r)" "length (drop j t) < 7"
  shows "starts_with (py_upper up (drop j t)) marker_start"
proof -
  have "take 7 (py_upper up (drop j t) @ py_upper up r) = marker_start"
    using assms(3) by (simp add: starts_upper_def starts_with_def)
  moreover have "length (py_upper up (drop j t)) < 7"
    using assms(1,4) by (simp add: plain_drop)
  ultimately show ?thesis
    by (metis append_eq_conv_conj starts_with_def take_all_iff less_imp_le take_append)
qed

lemma feed_loop_shown:
  "feed_loop up t = (out, pending) \<Longrightarrow> plain up (t @ r) \<Longrightarrow>
     shown up (t @ r) = out @ shown up (pending @ r) \<and> shown up pending = finish_filter up pending \<and> plain up pending"
proof (induction up t arbitrary: out pending rule: feed_loop.induct)
  case (1 up t)
  have plain_t: "plain up t" and plain_r: "plain up r" using "1.prems"(2) by simp_all
  show ?case
  proof (cases "t = []")
    case True
    moreover from this have "out = []" "pending = []"
      using "1.prems"(1) by (simp_all add: feed_loop.simps [of up "[]"])
    ultimately show ?thesis by (simp add: finish_filter_def)
  next
    case nonempty: False
    show ?thesis
    proof (cases "find_sub marker_start (py_upper up t)")
      case (Some i)
      have at: "starts_upper up (drop i t)" "i \<le> length t" and before: "\<forall>j < i. \<not> starts_upper up (drop j t)"
        using find_sub_Some [OF Some] plain_t by (simp_all add: starts_upper_def py_upper_drop)
      have long: "7 \<le> length (drop i t)"
        using starts_upper_length [OF plain_drop [OF plain_t] at(1)] .
      have "\<not> starts_upper up (drop j (t @ r))" if "j < i" for j
        using before that long starts_upper_append [OF plain_drop [OF plain_t], of j r] by auto
      then have skip: "shown up (t @ r) = take i t @ shown up (drop i t @ r)"
        using shown_skip [of i up "t @ r"] at(2) by simp
      have start: "starts_upper up (drop i t @ r)"
        using at(1) long starts_upper_append [OF plain_drop [OF plain_t]] by blast
      obtain x xs where cons: "drop i t = x # xs" using long by (cases "drop i t") auto
      show ?thesis
      proof (cases "split_once 93 (drop i t)")
        case None
        then have "out = take i t" "pending = drop i t"
          using "1.prems"(1) nonempty Some by (simp_all add: feed_loop.simps [of up t])
        moreover have "shown up (drop i t) = []" "finish_filter up (drop i t) = []"
          using at(1) None cons by (simp_all add: shown.simps(2) finish_filter_def starts_upper_def)
        ultimately show ?thesis using skip plain_drop [OF plain_t] by simp
      next
        case (Some ab)
        then obtain a b where ab: "split_once 93 (drop i t) = Some (a, b)" by (cases ab) auto
        obtain o' p' where rec: "feed_loop up b = (o', p')" by fastforce
        have parts: "out = take i t @ o'" "pending = p'"
          using "1.prems"(1) nonempty \<open>find_sub marker_start (py_upper up t) = Some i\<close> ab rec
          by (simp_all add: feed_loop.simps [of up t])
        have "shown up (drop i t @ r) = shown up (b @ r)"
          using start split_once_append_Some [OF ab, of r] cons by (simp add: shown.simps(2))
        moreover have "plain up (b @ r)"
          using plain_drop [OF plain_t, of i] plain_r split_once_Some [OF ab] by simp
        ultimately show ?thesis
          using "1.IH" [OF nonempty \<open>find_sub marker_start (py_upper up t) = Some i\<close> ab refl rec] skip parts by simp
      qed
    next
      case None
      let ?n = "retained_length up t"
      have parts: "out = take (length t - ?n) t" "pending = drop (length t - ?n) t"
        using "1.prems"(1) nonempty None by (simp_all add: feed_loop.simps [of up t] Let_def)
      have n: "?n \<le> length t" "?n \<le> 6" using retained_length_le by auto
      have before: "\<not> starts_upper up (drop j (t @ r))" if j: "j < length t - ?n" for j
      proof
        assume start: "starts_upper up (drop j (t @ r))"
        show False
        proof (cases "7 \<le> length (drop j t)")
          case True
          then have "starts_upper up (drop j t)"
            using start j starts_upper_append [OF plain_drop [OF plain_t]] by simp
          then show False
            using find_sub_None [OF None, of j] plain_t by (simp add: starts_upper_def py_upper_drop)
        next
          case False
          let ?m = "length (drop j t)"
          have "starts_with (py_upper up (drop j t)) marker_start"
            by (rule marker_prefix_suffix [OF "1.prems"(2)]) (use j start False in auto)
          then have "?m \<le> ?n"
            using False j by (intro retained_greatest) (auto simp: last_chars_def)
          with j show False by auto
        qed
      qed
      have "shown up (t @ r) = out @ shown up (pending @ r)"
        using shown_skip [of "length t - ?n" up "t @ r"] before parts by simp
      moreover have short: "length pending \<le> 6" using parts n by simp
      moreover have "plain up pending" using parts plain_drop [OF plain_t] by simp
      moreover have "\<not> starts_upper up (drop j pending)" for j
        using starts_upper_length [OF plain_drop [OF \<open>plain up pending\<close>], of j] short by auto
      then have "shown up pending = pending" "finish_filter up pending = pending"
        using shown_skip [of "length pending" up pending] by (simp_all add: finish_filter_def starts_upper_def) (metis drop0)
      ultimately show ?thesis by simp
    qed
  qed
qed



text \<open>A character whose upper case is longer shifts the filter: behind eleven sharp s the whole marker is shown.\<close>

definition sharp_upper :: upper_table where
  "sharp_upper c = (if c = 223 then [83, 83] else [c])"

theorem stream_shifted:
  "stream sharp_upper [] [replicate 11 223 @ ascii ''[STATUS: X]''] = replicate 11 223 @ ascii ''[STATUS: X]''"
  by (simp add: feed_def feed_loop.simps marker_start_def py_upper_def sharp_upper_def starts_with_def finish_filter_def
      numeral_eq_Suc)

text \<open>An unclosed marker behind a line break is not removed: only the text up to the first line break is.\<close>

theorem newline_keeps_marker: "strip_internal_markers (10 # ascii ''[STATUS: X'') = ascii ''[STATUS: X''"
  by (simp add: strip_internal_markers_def marker_at_def starts_marker_def marker_start_def same_letter_def
      opens_with_marker_def blank_or_newline_def)

text \<open>Removing a marker can make one: the removal is a single pass.\<close>

theorem removal_makes_marker:
  "strip_internal_markers (ascii ''a [STA[STATUS x]TUS: y] b'') = ascii ''a [STATUS: y] b''"
  by (simp add: strip_internal_markers_def marker_at_def starts_marker_def marker_start_def same_letter_def
      opens_with_marker_def blank_or_newline_def)

section \<open>Citations\<close>

record citation =
  ct_source :: string
  ct_chunk :: ident
  ct_document :: ident
  ct_metadata :: metadata
  ct_provenance :: metadata

datatype citation_validation = CITATIONS_PASS | INVALID_REFERENCES | MISSING_CITATIONS

datatype generation_status = COMPLETED | COMPLETED_WITH_WARNINGS | NO_EVIDENCE

definition digit :: "codepoint \<Rightarrow> bool" where
  "digit c \<longleftrightarrow> 48 \<le> c \<and> c \<le> 57"

text \<open>\<open>\[S([1-9][0-9]*)\]\<close> at the start of a text: the source id and the text behind.\<close>

definition citation_at :: "pytext \<Rightarrow> (string \<times> pytext) option" where
  "citation_at t = (if starts_with (ascii ''[S'') t
     then (let ds = takeWhile digit (drop 2 t) in
       case dropWhile digit (drop 2 t) of
         [] \<Rightarrow> None
       | c # rest \<Rightarrow> if c = 93 \<and> ds \<noteq> [] \<and> hd ds \<noteq> 48 then Some (''S'' @ map char_of ds, rest) else None)
     else None)"

lemma citation_at_shorter: "citation_at t = Some (s, rest) \<Longrightarrow> length rest < length t"
proof -
  assume "citation_at t = Some (s, rest)"
  then have "dropWhile digit (drop 2 t) = 93 # rest"
    by (auto simp: citation_at_def Let_def split: if_splits list.splits)
  from arg_cong [OF this, of length] show ?thesis
    using length_dropWhile_le [of digit "drop 2 t"] by simp
qed

function citation_matches :: "pytext \<Rightarrow> string list" where
  "citation_matches [] = []"
| "citation_matches (x # xs) = (case citation_at (x # xs) of Some (s, rest) \<Rightarrow> s # citation_matches rest
     | None \<Rightarrow> citation_matches xs)"
  by pat_completeness auto
termination
  by (relation "measure length") (auto dest: citation_at_shorter)

fun first_seen :: "string list \<Rightarrow> string list \<Rightarrow> string list" where
  "first_seen [] ordered = ordered"
| "first_seen (s # ss) ordered = first_seen ss (if s \<in> set ordered then ordered else ordered @ [s])"

definition parse_citation_ids :: "pytext \<Rightarrow> string list" where
  "parse_citation_ids t = first_seen (citation_matches t) []"

definition available_sources :: "selected_evidence list \<Rightarrow> (string \<times> selected_evidence) list" where
  "available_sources es = fold (\<lambda>e. AList.update (se_source e) e) es []"

definition citation_of :: "string \<Rightarrow> selected_evidence \<Rightarrow> citation" where
  "citation_of s e = \<lparr>ct_source = s, ct_chunk = ca_chunk (se_candidate e), ct_document = ca_document (se_candidate e),
     ct_metadata = ca_metadata (se_candidate e), ct_provenance = ca_provenance (se_candidate e)\<rparr>"

definition validate_and_map_citations ::
  "pytext \<Rightarrow> selected_evidence list \<Rightarrow> citation list \<times> string list \<times> citation_validation \<times> generation_status" where
  "validate_and_map_citations answer es =
     (let available = available_sources es; parsed = parse_citation_ids answer;
          valid = filter (\<lambda>s. map_of available s \<noteq> None) parsed;
          invalid = filter (\<lambda>s. map_of available s = None) parsed;
          citations = map (\<lambda>s. citation_of s (the (map_of available s))) valid
      in if invalid \<noteq> [] then (citations, invalid, INVALID_REFERENCES, COMPLETED_WITH_WARNINGS)
         else if py_strip answer \<noteq> [] \<and> valid = [] then ([], [], MISSING_CITATIONS, COMPLETED_WITH_WARNINGS)
         else (citations, [], CITATIONS_PASS, COMPLETED))"

section \<open>The final result\<close>

record ('u) generation_result =
  gr_request :: pytext
  gr_status :: generation_status
  gr_answer :: pytext
  gr_citations :: "citation list"
  gr_invalid :: "string list"
  gr_validation :: citation_validation
  gr_model :: string
  gr_prompt_version :: string
  gr_finish_reason :: "string option"
  gr_usage :: "'u option"
  gr_answerability :: "answerability option"
  gr_answerability_validation :: answerability_validation

definition insufficient_message :: pytext where
  "insufficient_message = ascii ''B'' @ [7857] @ ascii ''ng ch'' @ [7913] @ ascii ''ng '' @ [273, 432, 7907] @ ascii ''c cung c''
     @ [7845] @ ascii ''p kh'' @ [244] @ ascii ''ng '' @ [273, 7911] @ ascii '' '' @ [273, 7875] @ ascii '' tr''
     @ [7843] @ ascii '' l'' @ [7901] @ ascii ''i c'' @ [226] @ ascii ''u h'' @ [7887] @ ascii ''i.''"

text \<open>\<open>model_id or profile.model_id\<close>: an empty model id counts as none.\<close>

definition finalize_generation_result ::
  "pytext \<Rightarrow> context_package \<Rightarrow> string \<times> string \<Rightarrow> pytext \<Rightarrow> string option \<Rightarrow> 'u option \<Rightarrow> string option \<Rightarrow> 'u generation_result" where
  "finalize_generation_result request pkg profile provider_text finish usage model =
     (let parsed = parse_answerability provider_text;
          model_id = (case model of None \<Rightarrow> fst profile | Some m \<Rightarrow> if m = [] then fst profile else m)
      in if pa_status parsed = Some INSUFFICIENT
         then \<lparr>gr_request = request, gr_status = NO_EVIDENCE, gr_answer = insufficient_message, gr_citations = [],
           gr_invalid = [], gr_validation = CITATIONS_PASS, gr_model = model_id, gr_prompt_version = snd profile,
           gr_finish_reason = finish, gr_usage = usage, gr_answerability = pa_status parsed,
           gr_answerability_validation = pa_validation parsed\<rparr>
         else (case validate_and_map_citations (pa_text parsed) (pk_selected pkg) of
           (citations, invalid, validation, status) \<Rightarrow>
             \<lparr>gr_request = request,
              gr_status = (if pa_validation parsed \<noteq> AV_PASS then COMPLETED_WITH_WARNINGS else status),
              gr_answer = pa_text parsed, gr_citations = citations, gr_invalid = invalid, gr_validation = validation,
              gr_model = model_id, gr_prompt_version = snd profile, gr_finish_reason = finish, gr_usage = usage,
              gr_answerability = pa_status parsed, gr_answerability_validation = pa_validation parsed\<rparr>))"

lemma first_seen_dedupe: "first_seen ss ordered = ordered @ filter (\<lambda>s. s \<notin> set ordered) (dedupe ss)"
proof (induction ss arbitrary: ordered)
  case (Cons s ss)
  have "filter (\<lambda>x. x \<notin> set ordered) (filter (\<lambda>y. y \<noteq> s) (dedupe ss)) = filter (\<lambda>x. x \<notin> set ordered) (dedupe ss)"
    if "s \<in> set ordered"
    unfolding filter_filter by (rule filter_cong) (use that in auto)
  moreover have "filter (\<lambda>x. x \<notin> set ordered) (filter (\<lambda>y. y \<noteq> s) (dedupe ss))
      = filter (\<lambda>x. x \<notin> set (ordered @ [s])) (dedupe ss)"
    unfolding filter_filter by (rule filter_cong) auto
  ultimately show ?case by (auto simp: Cons.IH simp del: filter_filter)
qed simp

lemma parse_citation_ids_dedupe: "parse_citation_ids t = dedupe (citation_matches t)"
  by (simp add: parse_citation_ids_def first_seen_dedupe)

lemma available_sources_map:
  "map_of (available_sources es) s = Some e \<Longrightarrow> e \<in> set es \<and> se_source e = s"
proof -
  have "map_of (fold (\<lambda>e. AList.update (se_source e) e) es m) s = Some e \<Longrightarrow>
      e \<in> set es \<and> se_source e = s \<or> map_of m s = Some e" for m
    by (induction es arbitrary: m) (fastforce simp: update_conv' split: if_splits)+
  from this [of "[]"] show "map_of (available_sources es) s = Some e \<Longrightarrow> e \<in> set es \<and> se_source e = s"
    by (simp add: available_sources_def)
qed

lemma available_sources_dom: "map_of (available_sources es) s = None \<longleftrightarrow> s \<notin> se_source ` set es"
proof -
  have "map_of (fold (\<lambda>e. AList.update (se_source e) e) es m) s = None \<longleftrightarrow> s \<notin> se_source ` set es \<and> map_of m s = None" for m
    by (induction es arbitrary: m) (auto simp: update_conv')
  from this [of "[]"] show ?thesis by (simp add: available_sources_def)
qed

definition grounded_citation :: "selected_evidence list \<Rightarrow> citation \<Rightarrow> bool" where
  "grounded_citation es c \<longleftrightarrow> (\<exists>e \<in> set es. c = citation_of (se_source e) e)"

lemma available_grounded:
  assumes "map_of (available_sources es) s \<noteq> None"
  shows "grounded_citation es (citation_of s (the (map_of (available_sources es) s)))"
proof -
  obtain e where e: "map_of (available_sources es) s = Some e" using assms by auto
  with available_sources_map [OF e] show ?thesis by (auto simp: grounded_citation_def)
qed

definition mapped_citations :: "selected_evidence list \<Rightarrow> pytext \<Rightarrow> citation list" where
  "mapped_citations es t = map (\<lambda>s. citation_of s (the (map_of (available_sources es) s)))
     (filter (\<lambda>s. map_of (available_sources es) s \<noteq> None) (parse_citation_ids t))"

lemma mapped_citations_grounded: "c \<in> set (mapped_citations es t) \<Longrightarrow> grounded_citation es c"
  unfolding mapped_citations_def using available_grounded by force

lemma citations_grounded:
  "validate_and_map_citations t es = (citations, invalid, validation, status) \<Longrightarrow> c \<in> set citations \<Longrightarrow> grounded_citation es c"
  using mapped_citations_grounded [of c es t]
  by (auto simp: validate_and_map_citations_def Let_def mapped_citations_def split: if_splits)

lemma citations_completed:
  assumes "validate_and_map_citations t es = (citations, invalid, validation, COMPLETED)"
  shows "map ct_source citations = parse_citation_ids t \<and> set (parse_citation_ids t) \<subseteq> se_source ` set es
     \<and> (py_strip t = [] \<or> citations \<noteq> [])"
proof -
  have none: "filter (\<lambda>s. map_of (available_sources es) s = None) (parse_citation_ids t) = []"
    and citations: "citations = mapped_citations es t"
    and cited: "py_strip t = [] \<or> filter (\<lambda>s. map_of (available_sources es) s \<noteq> None) (parse_citation_ids t) \<noteq> []"
    using assms unfolding validate_and_map_citations_def Let_def mapped_citations_def by (simp_all split: if_splits)
  have all: "\<forall>s \<in> set (parse_citation_ids t). map_of (available_sources es) s \<noteq> None"
    using none by (simp add: filter_empty_conv)
  then have "filter (\<lambda>s. map_of (available_sources es) s \<noteq> None) (parse_citation_ids t) = parse_citation_ids t"
    by (simp add: filter_id_conv)
  then have "map ct_source citations = parse_citation_ids t"
    unfolding citations mapped_citations_def by (simp add: citation_of_def comp_def)
  moreover have "set (parse_citation_ids t) \<subseteq> se_source ` set es"
    using all available_sources_dom by blast
  ultimately show ?thesis
    using cited unfolding citations mapped_citations_def by auto
qed

text \<open>C36. A result is COMPLETED only if the model's text has exactly one marker, a valid ANSWERABLE one at its start,
  and the answer behind it cites: its citations are, in order, the source ids of the text, each of them selected
  evidence, and an answer that is not blank has one. Under every status a citation is one of selected evidence.\<close>

theorem finalize_sound:
  assumes "finalize_generation_result request pkg profile provider_text finish usage model = r"
  shows "list_all (grounded_citation (pk_selected pkg)) (gr_citations r)
    \<and> (gr_status r = COMPLETED \<longrightarrow> count_markers provider_text = 1
        \<and> (\<exists>rest. valid_prefix provider_text = Some (ANSWERABLE, rest) \<and> gr_answer r = lstrip rest)
        \<and> map ct_source (gr_citations r) = parse_citation_ids (gr_answer r)
        \<and> set (parse_citation_ids (gr_answer r)) \<subseteq> se_source ` set (pk_selected pkg)
        \<and> (py_strip (gr_answer r) = [] \<or> gr_citations r \<noteq> []))"
proof -
  obtain citations invalid validation status where
    mapped: "validate_and_map_citations (pa_text (parse_answerability provider_text)) (pk_selected pkg)
      = (citations, invalid, validation, status)"
    by (metis prod_cases4)
  have passed: "count_markers provider_text = 1 \<and> (\<exists>rest st. valid_prefix provider_text = Some (st, rest)
      \<and> pa_status (parse_answerability provider_text) = Some st \<and> pa_text (parse_answerability provider_text) = lstrip rest)"
    if "pa_validation (parse_answerability provider_text) = AV_PASS"
    using that by (auto simp: parse_answerability_def Let_def split: option.splits bool.splits if_splits)
  show ?thesis
  proof (cases "pa_status (parse_answerability provider_text) = Some INSUFFICIENT")
    case True
    then show ?thesis using assms by (auto simp: finalize_generation_result_def Let_def)
  next
    case False
    then have r: "gr_citations r = citations" "gr_answer r = pa_text (parse_answerability provider_text)"
      "gr_status r = (if pa_validation (parse_answerability provider_text) \<noteq> AV_PASS then COMPLETED_WITH_WARNINGS else status)"
      using assms mapped by (auto simp: finalize_generation_result_def Let_def)
    have "list_all (grounded_citation (pk_selected pkg)) (gr_citations r)"
      using citations_grounded [OF mapped] r(1) by (simp add: list_all_iff)
    moreover have "\<exists>rest. valid_prefix provider_text = Some (ANSWERABLE, rest)
        \<and> pa_text (parse_answerability provider_text) = lstrip rest"
      if pass: "pa_validation (parse_answerability provider_text) = AV_PASS"
    proof -
      obtain rest st where "valid_prefix provider_text = Some (st, rest)"
        "pa_status (parse_answerability provider_text) = Some st" "pa_text (parse_answerability provider_text) = lstrip rest"
        using passed [OF pass] by blast
      with False show ?thesis by (cases st) auto
    qed
    ultimately show ?thesis
      using r passed citations_completed [of _ _ citations invalid validation] mapped
      by (auto split: if_splits)
  qed
qed

definition sample_package :: context_package where
  "sample_package = \<lparr>pk_request = [105], pk_query = [113], pk_text = [],
     pk_selected = [\<lparr>se_source = ''S1'', se_candidate = sample_evidence ''a'' 1, se_tokens = 1\<rparr>], pk_tokens = 1, pk_budget = 9,
     pk_candidates = 1, pk_duplicates = 0, pk_selected_count = 1, pk_dropped = 0, pk_exhausted = False, pk_stop = STOP_NONE\<rparr>"

definition sample_result :: "unit generation_result" where
  "sample_result = finalize_generation_result [105] sample_package (''m'', ''p'') (ascii ''[STATUS: ANSWERABLE] x [S1]'')
     None None None"

lemma char_of_49: "char_of (49 :: nat) = CHR ''1''"
  by code_simp

lemma sample_completed: "gr_status sample_result = COMPLETED"
  by (simp add: sample_result_def finalize_generation_result_def parse_answerability_def marker_at_def starts_marker_def
      marker_start_def same_letter_def valid_prefix_def after_colon_def closed_by_def starts_with_def blank_def
      blank_or_newline_def validate_and_map_citations_def parse_citation_ids_def citation_at_def digit_def Let_def
      available_sources_def sample_package_def char_of_49)

theorem finalize_sound_witness:
  "list_all (grounded_citation (pk_selected sample_package)) (gr_citations sample_result)
   \<and> map ct_source (gr_citations sample_result) = parse_citation_ids (gr_answer sample_result)
   \<and> gr_status sample_result = COMPLETED"
  using finalize_sound [OF sample_result_def [symmetric]] sample_completed by blast

section \<open>Structured claims\<close>

datatype claim_type = DIRECT_FACT | CATEGORY_MEMBERSHIP | SYNTHESIS | INFERENCE

record grounded_claim =
  gc_id :: string
  gc_text :: pytext
  gc_sources :: "string list"
  gc_category :: "string option"
  gc_type :: claim_type

record structured_answer =
  sa_answerability :: answerability
  sa_claims :: "grounded_claim list"

datatype claim_error =
    Claims_Invalid | Duplicate_Claim | Duplicate_Source | Unavailable_Source | Unknown_Category | Wrong_Category
  | Malformed_Path | Unhashable_Source

text \<open>The patterns \<open>^C[1-9][0-9]*$\<close> and \<open>^K[1-9][0-9]*$\<close>.\<close>

definition numbered_id :: "char \<Rightarrow> string \<Rightarrow> bool" where
  "numbered_id x s \<longleftrightarrow> (case s of c # d # ds \<Rightarrow> c = x \<and> d \<noteq> CHR ''0'' \<and> list_all (\<lambda>e. digit (of_char e)) (d # ds)
     | _ \<Rightarrow> False)"

definition claim_shape :: "grounded_claim \<Rightarrow> bool" where
  "claim_shape c \<longleftrightarrow> numbered_id CHR ''C'' (gc_id c) \<and> 1 \<le> length (gc_text c) \<and> length (gc_text c) \<le> 1200
     \<and> 1 \<le> length (gc_sources c) \<and> length (gc_sources c) \<le> 8
     \<and> (case gc_category c of None \<Rightarrow> True | Some k \<Rightarrow> numbered_id CHR ''K'' k)
     \<and> (gc_type c = CATEGORY_MEMBERSHIP \<longleftrightarrow> gc_category c \<noteq> None)"

definition answer_shape :: "structured_answer \<Rightarrow> bool" where
  "answer_shape a \<longleftrightarrow> length (sa_claims a) \<le> 12 \<and> list_all claim_shape (sa_claims a)
     \<and> (sa_answerability a = INSUFFICIENT \<longleftrightarrow> sa_claims a = [])"

text \<open>
  \<open>_support_index\<close>: the ancestors of every source, and for every category handle the unit and the label it stands
  for. The last evidence of a source wins, the first of a handle.
\<close>

type_synonym support_index = "(string \<times> pytext list) list \<times> (pytext \<times> pytext \<times> pytext) list"

fun index_of :: "'a \<Rightarrow> 'a list \<Rightarrow> nat option" where
  "index_of x [] = None"
| "index_of x (y # ys) = (if x = y then Some 0 else map_option Suc (index_of x ys))"

definition label_of :: "metadata \<Rightarrow> pytext list \<Rightarrow> (pytext \<times> pytext \<times> pytext) option" where
  "label_of p ancestors = (case (meta_str p ''category_root_id'', meta_str p ''category_key'') of
       (Some category, Some key) \<Rightarrow> (case index_of category ancestors of None \<Rightarrow> None
         | Some i \<Rightarrow> (case map_of p ''ancestor_display_labels'' of
               Some (MList ds) \<Rightarrow> if i < length ds then (case ds ! i of MStr l \<Rightarrow> Some (key, category, l) | _ \<Rightarrow> None) else None
             | _ \<Rightarrow> None))
     | _ \<Rightarrow> None)"

fun support_index :: "selected_evidence list \<Rightarrow> support_index \<Rightarrow> claim_error + support_index" where
  "support_index [] index = Inr index"
| "support_index (e # es) (sources, labels) =
     (let m = ca_metadata (se_candidate e) in
      if unhashable_source m then Inl Unhashable_Source
      else (case authoritative_path m of
          None \<Rightarrow> support_index es (AList.update (se_source e) [] sources, labels)
        | Some p \<Rightarrow> (case meta_strings p ''ancestor_unit_ids'' of
              None \<Rightarrow> Inl Malformed_Path
            | Some ancestors \<Rightarrow> support_index es (AList.update (se_source e) ancestors sources,
                (case label_of p ancestors of None \<Rightarrow> labels | Some (key, category, l) \<Rightarrow> od_setdefault key (category, l) labels)))))"

definition citation_suffix :: "string list \<Rightarrow> pytext" where
  "citation_suffix ss = join_with [32] (map (\<lambda>s. [91] @ ascii s @ [93]) ss)"

definition membership_phrase :: pytext where
  "membership_phrase = ascii '' '' @ [8212] @ ascii '' thu'' @ [7897] @ ascii ''c ''"

definition claim_line :: "grounded_claim \<Rightarrow> pytext option \<Rightarrow> pytext" where
  "claim_line c l = py_strip (py_strip (gc_text c) @ (case l of None \<Rightarrow> [] | Some l \<Rightarrow> membership_phrase @ l)
     @ [32] @ citation_suffix (gc_sources c))"

definition claim_label :: "support_index \<Rightarrow> grounded_claim \<Rightarrow> claim_error + pytext option" where
  "claim_label index c =
     (if gc_type c = CATEGORY_MEMBERSHIP
      then (case map_of (snd index) (ascii (case gc_category c of None \<Rightarrow> [] | Some k \<Rightarrow> k)) of
          None \<Rightarrow> Inl Unknown_Category
        | Some (category, l) \<Rightarrow>
            if \<exists>s \<in> set (gc_sources c). category \<notin> set (case map_of (fst index) s of None \<Rightarrow> [] | Some us \<Rightarrow> us) then Inl Wrong_Category
            else Inr (Some l))
      else Inr None)"

fun render_claims :: "support_index \<Rightarrow> grounded_claim list \<Rightarrow> string list \<Rightarrow> claim_error + pytext list" where
  "render_claims index [] seen = Inr []"
| "render_claims index (c # cs) seen =
     (if gc_id c \<in> set seen then Inl Duplicate_Claim
      else if \<not> distinct (gc_sources c) then Inl Duplicate_Source
      else if \<exists>s \<in> set (gc_sources c). map_of (fst index) s = None then Inl Unavailable_Source
      else and_then (claim_label index c) (\<lambda>l.
             and_then (render_claims index cs (gc_id c # seen)) (\<lambda>lines. Inr (claim_line c l # lines))))"

text \<open>Decoding JSON into typed fields is a parameter; the constraints on the fields are \<open>answer_shape\<close>.\<close>

definition render_provider_text ::
  "(pytext \<Rightarrow> structured_answer option) \<Rightarrow> pytext \<Rightarrow> context_package \<Rightarrow> claim_error + pytext" where
  "render_provider_text decode raw pkg = (case decode raw of
       None \<Rightarrow> Inl Claims_Invalid
     | Some a \<Rightarrow> if \<not> answer_shape a then Inl Claims_Invalid
         else if sa_answerability a = INSUFFICIENT then Inr (ascii ''[STATUS: INSUFFICIENT_EVIDENCE]'')
         else and_then (support_index (pk_selected pkg) ([], [])) (\<lambda>index.
              and_then (render_claims index (sa_claims a) []) (\<lambda>lines.
                Inr (join_with [10] (ascii ''[STATUS: ANSWERABLE]'' # lines)))))"

section \<open>What a rendered answer promises\<close>

definition evidence_ancestors :: "selected_evidence \<Rightarrow> pytext list" where
  "evidence_ancestors e = (case authoritative_path (ca_metadata (se_candidate e)) of None \<Rightarrow> []
     | Some p \<Rightarrow> (case meta_strings p ''ancestor_unit_ids'' of None \<Rightarrow> [] | Some us \<Rightarrow> us))"

definition evidence_category :: "candidate_row \<Rightarrow> (pytext \<times> pytext) option" where
  "evidence_category c = (case authoritative_path (ca_metadata c) of None \<Rightarrow> None
     | Some p \<Rightarrow> (case (meta_str p ''category_key'', meta_str p ''category_root_id'') of
           (Some k, Some r) \<Rightarrow> Some (k, r) | _ \<Rightarrow> None))"

definition index_sound :: "selected_evidence list \<Rightarrow> support_index \<Rightarrow> bool" where
  "index_sound es index \<longleftrightarrow>
     (\<forall>s us. map_of (fst index) s = Some us \<longrightarrow> (\<exists>e \<in> set es. se_source e = s \<and> us = evidence_ancestors e))
     \<and> (\<forall>k r l. map_of (snd index) k = Some (r, l) \<longrightarrow> (\<exists>e \<in> set es. evidence_category (se_candidate e) = Some (k, r)))"

lemma label_of_category:
  "label_of p us = Some (k, r, l) \<Longrightarrow> meta_str p ''category_key'' = Some k \<and> meta_str p ''category_root_id'' = Some r"
  by (auto simp: label_of_def split: option.splits meta.splits if_splits)

lemma index_sound_step:
  assumes "index_sound es (sources, labels)" "set es \<subseteq> set fs" "e \<in> set fs" "us = evidence_ancestors e"
    and "labels' = labels \<or> (\<exists>k r l. labels' = od_setdefault k (r, l) labels \<and> evidence_category (se_candidate e) = Some (k, r))"
  shows "index_sound fs (AList.update (se_source e) us sources, labels')"
proof -
  have "\<exists>f \<in> set fs. se_source f = s \<and> vs = evidence_ancestors f"
    if "map_of (AList.update (se_source e) us sources) s = Some vs" for s vs
  proof (cases "s = se_source e")
    case True
    with that assms(3,4) show ?thesis by (auto simp: update_conv')
  next
    case False
    with that have "map_of sources s = Some vs" by (simp add: update_conv')
    with assms(1,2) show ?thesis unfolding index_sound_def fst_conv by blast
  qed
  moreover have "\<exists>f \<in> set fs. evidence_category (se_candidate f) = Some (k, r)" if "map_of labels' k = Some (r, l)" for k r l
  proof (cases "map_of labels k = Some (r, l)")
    case True
    with assms(1,2) show ?thesis unfolding index_sound_def snd_conv by blast
  next
    case False
    with that assms(5) obtain k' r' l' where "labels' = od_setdefault k' (r', l') labels"
      "evidence_category (se_candidate e) = Some (k', r')" by auto
    with False od_setdefault_mem [of k' "(r', l')" labels k "(r, l)"] that assms(3) show ?thesis by auto
  qed
  ultimately show ?thesis by (simp add: index_sound_def)
qed

lemma support_index_sound:
  "support_index es (sources, labels) = Inr index \<Longrightarrow> index_sound ds (sources, labels) \<Longrightarrow> index_sound (ds @ es) index"
proof (induction es arbitrary: ds sources labels)
  case Nil
  then show ?case by simp
next
  case (Cons e es)
  let ?m = "ca_metadata (se_candidate e)"
  have step: "index_sound (ds @ [e]) (AList.update (se_source e) us sources, labels')"
    if "us = evidence_ancestors e" "labels' = labels \<or> (\<exists>k r l. labels' = od_setdefault k (r, l) labels
        \<and> evidence_category (se_candidate e) = Some (k, r))" for us labels'
    by (rule index_sound_step [OF Cons.prems(2)]) (use that in auto)
  have rest: "index_sound (ds @ e # es) index"
    if "support_index es (AList.update (se_source e) us sources, labels') = Inr index" "us = evidence_ancestors e"
      "labels' = labels \<or> (\<exists>k r l. labels' = od_setdefault k (r, l) labels
        \<and> evidence_category (se_candidate e) = Some (k, r))" for us labels'
    using Cons.IH [OF that(1) step [OF that(2,3)]] by simp
  show ?case
  proof (cases "authoritative_path ?m")
    case None
    then show ?thesis
      using Cons.prems(1) by (auto simp: Let_def evidence_ancestors_def split: if_splits intro!: rest)
  next
    case (Some p)
    then obtain us where us: "meta_strings p ''ancestor_unit_ids'' = Some us" "us = evidence_ancestors e"
      using Cons.prems(1) by (auto simp: Let_def evidence_ancestors_def split: if_splits option.splits)
    show ?thesis
    proof (cases "label_of p us")
      case None
      with Cons.prems(1) Some us show ?thesis by (intro rest [of us labels]) (auto simp: Let_def split: if_splits)
    next
      case (Some krl)
      then obtain k r l where krl: "label_of p us = Some (k, r, l)" by (cases krl) auto
      then have "evidence_category (se_candidate e) = Some (k, r)"
        using \<open>authoritative_path ?m = Some p\<close> label_of_category [OF krl] by (simp add: evidence_category_def)
      with Cons.prems(1) \<open>authoritative_path ?m = Some p\<close> us krl show ?thesis
        by (intro rest [of us "od_setdefault k (r, l) labels"]) (auto simp: Let_def split: if_splits)
    qed
  qed
qed

text \<open>One claim of a rendered answer.\<close>

definition claim_grounded :: "selected_evidence list \<Rightarrow> grounded_claim \<Rightarrow> bool" where
  "claim_grounded es c \<longleftrightarrow> distinct (gc_sources c) \<and> set (gc_sources c) \<subseteq> se_source ` set es
     \<and> (gc_type c = CATEGORY_MEMBERSHIP \<longrightarrow> (\<exists>k r. gc_category c = Some k
          \<and> (\<exists>e \<in> set es. evidence_category (se_candidate e) = Some (ascii k, r))
          \<and> (\<forall>s \<in> set (gc_sources c). \<exists>e \<in> set es. se_source e = s \<and> r \<in> set (evidence_ancestors e))))"

lemma claim_step_grounded:
  assumes sound: "index_sound es index" and shape: "claim_shape c" and "distinct (gc_sources c)"
    and known: "\<forall>s \<in> set (gc_sources c). map_of (fst index) s \<noteq> None" and label: "claim_label index c = Inr l"
  shows "claim_grounded es c"
proof -
  have source: "\<exists>e \<in> set es. se_source e = s \<and> map_of (fst index) s = Some (evidence_ancestors e)"
    if "s \<in> set (gc_sources c)" for s
  proof -
    obtain us where us: "map_of (fst index) s = Some us" using known \<open>s \<in> set (gc_sources c)\<close> by blast
    then show ?thesis using sound unfolding index_sound_def by blast
  qed
  have "\<exists>k r. gc_category c = Some k \<and> (\<exists>e \<in> set es. evidence_category (se_candidate e) = Some (ascii k, r))
      \<and> (\<forall>s \<in> set (gc_sources c). \<exists>e \<in> set es. se_source e = s \<and> r \<in> set (evidence_ancestors e))"
    if member: "gc_type c = CATEGORY_MEMBERSHIP"
  proof -
    obtain k where k: "gc_category c = Some k"
      using shape member by (auto simp: claim_shape_def)
    obtain r t where r: "map_of (snd index) (ascii k) = Some (r, t)"
      and all: "\<forall>s \<in> set (gc_sources c). r \<in> set (case map_of (fst index) s of None \<Rightarrow> [] | Some us \<Rightarrow> us)"
      using label member k by (auto simp: claim_label_def split: option.splits if_splits)
    have "\<exists>e \<in> set es. evidence_category (se_candidate e) = Some (ascii k, r)"
      using sound r unfolding index_sound_def by blast
    moreover have "\<exists>e \<in> set es. se_source e = s \<and> r \<in> set (evidence_ancestors e)" if "s \<in> set (gc_sources c)" for s
      using source [OF that] all that by fastforce
    ultimately show ?thesis using k by blast
  qed
  moreover have "set (gc_sources c) \<subseteq> se_source ` set es"
    using source by blast
  ultimately show ?thesis using assms(3) by (simp add: claim_grounded_def)
qed

lemma render_claims_grounded:
  "render_claims index cs seen = Inr lines \<Longrightarrow> index_sound es index \<Longrightarrow> list_all claim_shape cs \<Longrightarrow>
     list_all (claim_grounded es) cs \<and> distinct (map gc_id cs) \<and> set (map gc_id cs) \<inter> set seen = {}
     \<and> list_all2 (\<lambda>c line. \<exists>l. line = claim_line c l) cs lines"
proof (induction cs arbitrary: seen lines)
  case Nil
  then show ?case by simp
next
  case (Cons c cs)
  obtain l rest where step: "claim_label index c = Inr l" "render_claims index cs (gc_id c # seen) = Inr rest"
    "lines = claim_line c l # rest" "gc_id c \<notin> set seen" "distinct (gc_sources c)"
    "\<forall>s \<in> set (gc_sources c). map_of (fst index) s \<noteq> None"
    using Cons.prems(1) by (auto simp: and_then_Inr split: if_splits)
  have "claim_grounded es c"
    using Cons.prems(2,3) step by (intro claim_step_grounded) auto
  with Cons.IH [OF step(2) Cons.prems(2)] Cons.prems(3) step(3,4) show ?case by auto
qed

text \<open>C37. When structured claims are rendered, each one cites available sources only, none twice, and has its own id;
  a category membership names a category that some evidence carries, and every source it cites has the unit of that
  category among its authoritative ancestors. The text is the ANSWERABLE marker and one line for each claim.\<close>

theorem render_grounded:
  assumes "render_provider_text decode raw pkg = Inr t"
  shows "\<exists>a. decode raw = Some a \<and> answer_shape a
    \<and> (if sa_answerability a = INSUFFICIENT then t = ascii ''[STATUS: INSUFFICIENT_EVIDENCE]''
       else list_all (claim_grounded (pk_selected pkg)) (sa_claims a) \<and> distinct (map gc_id (sa_claims a))
         \<and> (\<exists>lines. t = join_with [10] (ascii ''[STATUS: ANSWERABLE]'' # lines)
              \<and> list_all2 (\<lambda>c line. \<exists>l. line = claim_line c l) (sa_claims a) lines))"
proof -
  obtain a where a: "decode raw = Some a" "answer_shape a"
    using assms by (auto simp: render_provider_text_def split: option.splits if_splits)
  show ?thesis
  proof (cases "sa_answerability a = INSUFFICIENT")
    case True
    with assms a show ?thesis by (auto simp: render_provider_text_def)
  next
    case False
    obtain index lines where run: "support_index (pk_selected pkg) ([], []) = Inr index"
      "render_claims index (sa_claims a) [] = Inr lines" "t = join_with [10] (ascii ''[STATUS: ANSWERABLE]'' # lines)"
      using assms a False by (auto simp: render_provider_text_def and_then_Inr simp del: join_with.simps)
    have "index_sound ([] @ pk_selected pkg) index"
      by (rule support_index_sound [OF run(1)]) (simp add: index_sound_def)
    then have "list_all (claim_grounded (pk_selected pkg)) (sa_claims a) \<and> distinct (map gc_id (sa_claims a))
        \<and> list_all2 (\<lambda>c line. \<exists>l. line = claim_line c l) (sa_claims a) lines"
      using render_claims_grounded [OF run(2)] a(2) by (simp add: answer_shape_def)
    with a False run(3) show ?thesis by (intro exI [of _ a]) auto
  qed
qed

text \<open>Evidence of a package that was built from candidates without a handle of their own.\<close>

definition unhandled :: "candidate_row \<Rightarrow> bool" where
  "unhandled c \<longleftrightarrow> (case authoritative_path (ca_metadata c) of None \<Rightarrow> True | Some p \<Rightarrow> meta_str p ''category_key'' = None)"

lemma evidence_category_handled:
  assumes "handles_ok keys" "handled keys c d" "unhandled c" "evidence_category d = Some (k, r)"
  shows "\<exists>h. map_of keys r = Some h \<and> k = ascii h"
proof (cases "category_root (ca_metadata c)")
  case None
  with assms show ?thesis
    by (auto simp: handled_def evidence_category_def unhandled_def split: option.splits)
next
  case (Some r')
  then obtain p where p: "authoritative_path (ca_metadata c) = Some p" "meta_str p ''category_root_id'' = Some r'"
    by (auto simp: category_root_def split: option.splits if_splits)
  obtain h where h: "map_of keys r' = Some h" "d = set_category_key h c"
    using assms(2) Some by (auto simp: handled_def)
  have "evidence_category d = Some (ascii h, r')"
    using p authoritative_pathD [OF p(1)] h(2)
    by (auto simp: evidence_category_def set_category_key_def authoritative_path_def)
  with assms(4) h(1) show ?thesis by auto
qed

text \<open>The handles of a built context are unambiguous: two selected sources that carry the same handle carry the same
  category, so the category that a rendered membership names is the one of every source shown under that handle.\<close>

theorem handle_names_category:
  assumes "build_context nfc counter request query raws budget s = (Inr pkg, t)"
    and "\<forall>x \<in> set raws. unhandled (raw_row x)"
    and "e \<in> set (pk_selected pkg)" and "evidence_category (se_candidate e) = Some (k, r)"
    and "f \<in> set (pk_selected pkg)" and "evidence_category (se_candidate f) = Some (k, r')"
  shows "r = r'"
proof -
  obtain keyed sel where built: "offered nfc raws keyed" "selection_ok nfc budget keyed sel" "pk_selected pkg = sl_selected sel"
    using build_context_cases [OF assms(1)] by blast
  obtain kept keys where kept: "set kept \<subseteq> raw_row ` set raws" "handles_ok keys" "list_all2 (handled keys) kept keyed"
    using built(1) unfolding offered_def by blast
  have name: "\<exists>h. map_of keys q = Some h \<and> k = ascii h"
    if "g \<in> set (pk_selected pkg)" "evidence_category (se_candidate g) = Some (k, q)" for g q
  proof -
    have "map se_candidate (sl_selected sel) = take (length (sl_selected sel)) keyed"
      using built(2) unfolding selection_ok_def Let_def by blast
    then have "se_candidate g \<in> set keyed"
      using that(1) built(3) by (metis imageI in_set_takeD set_map)
    then obtain c where "c \<in> set kept" "handled keys c (se_candidate g)"
      using kept(3) by (metis in_set_conv_nth list_all2_conv_all_nth)
    moreover from this have "unhandled c" using kept(1) assms(2) by auto
    ultimately show ?thesis using evidence_category_handled [OF kept(2)] that(2) by blast
  qed
  obtain h h' where "map_of keys r = Some h" "map_of keys r' = Some h'" "k = ascii h" "k = ascii h'"
    using name [OF assms(3,4)] name [OF assms(5,6)] by blast
  moreover from this have "h = h'" by (simp add: ascii_inject)
  ultimately show ?thesis using handles_inject [OF kept(2)] by blast
qed

definition sample_claim :: grounded_claim where
  "sample_claim = \<lparr>gc_id = ''C1'', gc_text = [120], gc_sources = [''S1''], gc_category = None, gc_type = DIRECT_FACT\<rparr>"

definition sample_decode :: "pytext \<Rightarrow> structured_answer option" where
  "sample_decode raw = Some \<lparr>sa_answerability = ANSWERABLE, sa_claims = [sample_claim]\<rparr>"

definition claims_package :: context_package where
  "claims_package = sample_package\<lparr>pk_selected := [\<lparr>se_source = ''S1'', se_candidate = (sample_evidence ''a'' 1)\<lparr>ca_metadata := []\<rparr>,
     se_tokens = 1\<rparr>]\<rparr>"

lemma claims_rendered: "render_provider_text sample_decode [] claims_package
    = Inr (join_with [10] [ascii ''[STATUS: ANSWERABLE]'', claim_line sample_claim None])"
  by (simp add: render_provider_text_def sample_decode_def answer_shape_def claim_shape_def sample_claim_def numbered_id_def
      digit_def claims_package_def unhashable_source_def authoritative_path_def meta_dict_def claim_label_def Let_def)

theorem render_grounded_witness:
  "\<exists>a. sample_decode [] = Some a \<and> answer_shape a
    \<and> (if sa_answerability a = INSUFFICIENT
       then join_with [10] [ascii ''[STATUS: ANSWERABLE]'', claim_line sample_claim None] = ascii ''[STATUS: INSUFFICIENT_EVIDENCE]''
       else list_all (claim_grounded (pk_selected claims_package)) (sa_claims a) \<and> distinct (map gc_id (sa_claims a)))"
  using render_grounded [OF claims_rendered] by (auto split: if_splits simp del: join_with.simps)

definition sample_keyed_rows :: "candidate_row list" where
  "sample_keyed_rows = map (set_category_key (category_handle 1) \<circ> raw_row) sample_raws"

lemma sample_kept: "deduplicate (\<lambda>t. t) (map raw_row sample_raws) [] = (map raw_row sample_raws, 0)"
  by (simp add: sample_raws_def raw_row_def sample_evidence_def dedup_key_def normalize_content_def strip_by_def py_space_def)

lemma sample_selected:
  "\<exists>pkg. build_context (\<lambda>t. t) (pure_counter (\<lambda>t. 0)) [105] [113] sample_raws 400 () = (Inr pkg, ())
    \<and> map se_candidate (pk_selected pkg) = sample_keyed_rows"
  using sample_validate sample_kept sample_keyed
  by (simp add: build_context_def lift_context_def op_simps sample_raws_def sample_keyed_rows_def choose_text_def Let_def
      del: deduplicate.simps with_category_keys.simps)

lemma sample_unhandled: "\<forall>x \<in> set sample_raws. unhandled (raw_row x)"
  by (simp add: sample_raws_def raw_row_def sample_evidence_def sample_path_def unhandled_def authoritative_path_def
      meta_dict_def meta_str_def resolver_sources_def)

lemma sample_categories: "map evidence_category sample_keyed_rows
    = [Some (ascii (category_handle 1), ascii ''r''), Some (ascii (category_handle 1), ascii ''r'')]"
  by (simp add: sample_keyed_rows_def sample_raws_def raw_row_def sample_evidence_def sample_path_def evidence_category_def
      set_category_key_def authoritative_path_def meta_dict_def meta_str_def resolver_sources_def)

theorem handle_names_category_witness:
  "\<exists>pkg e f r r'. build_context (\<lambda>t. t) (pure_counter (\<lambda>t. 0)) [105] [113] sample_raws 400 () = (Inr pkg, ())
    \<and> pk_selected pkg = [e, f] \<and> evidence_category (se_candidate e) = Some (ascii (category_handle 1), r)
    \<and> evidence_category (se_candidate f) = Some (ascii (category_handle 1), r') \<and> r = r'"
proof -
  obtain pkg where pkg: "build_context (\<lambda>t. t) (pure_counter (\<lambda>t. 0)) [105] [113] sample_raws 400 () = (Inr pkg, ())"
    "map se_candidate (pk_selected pkg) = sample_keyed_rows"
    using sample_selected by blast
  have "map (evidence_category \<circ> se_candidate) (pk_selected pkg)
      = [Some (ascii (category_handle 1), ascii ''r''), Some (ascii (category_handle 1), ascii ''r'')]"
    using arg_cong [OF pkg(2), of "map evidence_category"] sample_categories by simp
  then obtain e f r r' where ef: "pk_selected pkg = [e, f]"
    "evidence_category (se_candidate e) = Some (ascii (category_handle 1), r)"
    "evidence_category (se_candidate f) = Some (ascii (category_handle 1), r')"
    by (auto simp: map_eq_Cons_conv)
  then have "r = r'"
    by (intro handle_names_category [OF pkg(1) sample_unhandled, of e _ r f]) simp_all
  with pkg(1) ef show ?thesis by blast
qed

end
