(* ===== verification/LegalPaths.thy ===== *)
theory LegalPaths
  imports Preparation Ranking
begin

text \<open>
  The authoritative legal path of a stored unit (\<open>app/local_compute/legal_paths.py\<close>): the chain of its ancestors in the
  table of legal units, or in the tree parsed again from the stored text when a stored unit does not look
  like a heading. Keys of parsed units carry document text, so all keys are \<^typ>\<open>pytext\<close>.
\<close>

section \<open>Units and labels\<close>

datatype path_source = LEGAL_UNIT_REPOSITORY | REPAIRED_LEGAL_UNIT_REPOSITORY | UNAVAILABLE

record path_unit =
  pu_key :: pytext
  pu_parent :: "pytext option"
  pu_type :: string
  pu_number :: pytext
  pu_title :: pytext
  pu_start :: int
  pu_end :: int

record legal_path =
  lp_unit :: pytext
  lp_type :: "string option"
  lp_label :: "pytext option"
  lp_ancestors :: "pytext list"
  lp_labels :: "pytext list"
  lp_category :: "pytext option"
  lp_source :: path_source

definition type_labels :: "(string \<times> pytext) list" where
  "type_labels = [(''PART'', part_word), (''APPENDIX'', appendix_word @ [32] @ appendix_word2), (''CHAPTER'', chapter_word),
     (''SECTION'', section_word), (''TABLE_CATEGORY'', ascii ''Danh m'' @ [7909] @ ascii ''c''), (''ARTICLE'', article_word),
     (''CLAUSE'', ascii ''Kho'' @ [7843] @ ascii ''n''), (''POINT'', [272] @ ascii ''i'' @ [7875] @ ascii ''m'')]"

definition unit_label :: "path_unit \<Rightarrow> pytext" where
  "unit_label u = (case map_of type_labels (pu_type u) of None \<Rightarrow> ascii (pu_type u) | Some l \<Rightarrow> l)
     @ (if pu_number u = [] then [] else [32] @ pu_number u) @ (if pu_title u = [] then [] else [32, 8212, 32] @ pu_title u)"

definition unit_is_sane :: "unicode_tables \<Rightarrow> string \<Rightarrow> pytext \<Rightarrow> pytext \<Rightarrow> bool" where
  "unit_is_sane u ty number title \<longleftrightarrow> ty = ''PREAMBLE'' \<or> ty \<in> fst ` set type_labels
     \<and> (let v = py_strip number in
          (ty \<in> {''PART'', ''CHAPTER''} \<longrightarrow> v \<noteq> [] \<and> list_all roman v)
        \<and> (ty \<in> {''SECTION'', ''ARTICLE'', ''CLAUSE''} \<longrightarrow> v \<noteq> [] \<and> list_all (uc_isdigit u) v)
        \<and> (ty = ''POINT'' \<longrightarrow> (case v of [c] \<Rightarrow> 97 \<le> c \<and> c \<le> 122 \<or> c = 273 | _ \<Rightarrow> False)))
     \<and> rx_search (timestamp_rx u) title = None"

section \<open>The resolver of one artifact\<close>

record resolver =
  rs_units :: "(pytext \<times> path_unit) list"
  rs_source :: path_source

definition stored_unit :: "unit_row \<Rightarrow> path_unit" where
  "stored_unit r = \<lparr>pu_key = ascii (un_id r), pu_parent = map_option ascii (un_parent r), pu_type = un_type r,
     pu_number = un_number r, pu_title = un_title r, pu_start = un_start r, pu_end = un_end r\<rparr>"

text \<open>A dict comprehension: a later entry of the same key wins.\<close>

definition dict_of :: "('k \<times> 'v) list \<Rightarrow> ('k \<times> 'v) list" where
  "dict_of xs = fold (\<lambda>(k, v). AList.update k v) xs []"

definition int_text :: "int \<Rightarrow> pytext" where
  "int_text i = (if i < 0 then [45] @ ascii (nat_str (nat (- i))) else ascii (nat_str (nat i)))"

definition repaired_prefix :: pytext where
  "repaired_prefix = ascii ''repaired:''"

definition repaired_key :: "string \<Rightarrow> pytext \<Rightarrow> int \<Rightarrow> pytext" where
  "repaired_key ty number start = repaired_prefix @ ascii ty @ [58] @ number @ [58] @ int_text start"

fun rebuild :: "pytext option \<Rightarrow> legal_unit list \<Rightarrow> path_unit list" where
  "rebuild parent [] = []"
| "rebuild parent (Legal_Unit ty number title s e lv cs # us) =
     \<lparr>pu_key = repaired_key ty number s, pu_parent = parent, pu_type = ty, pu_number = number, pu_title = title,
        pu_start = s, pu_end = e\<rparr> # rebuild (Some (repaired_key ty number s)) cs @ rebuild parent us"

definition signature :: "path_unit \<Rightarrow> string \<times> pytext \<times> int" where
  "signature u = (pu_type u, pu_number u, pu_start u)"

text \<open>The unit that replaces a stored one: it keeps its key; its parent is the stored unit of the parent's signature if there
  is one. The parent key of a reparsed unit is the key of a reparsed unit.\<close>

definition replacement ::
  "path_unit list \<Rightarrow> path_unit list \<Rightarrow> path_unit \<Rightarrow> (pytext \<times> path_unit) option" where
  "replacement stored reparsed old = map_option (\<lambda>new. (pu_key old, new\<lparr>pu_key := pu_key old, pu_parent :=
       (case pu_parent new of None \<Rightarrow> None
        | Some p \<Rightarrow> (case map_of (dict_of (map (\<lambda>x. (pu_key x, x)) reparsed)) p of None \<Rightarrow> None
          | Some upper \<Rightarrow> (case map_of (dict_of (map (\<lambda>x. (signature x, pu_key x)) stored)) (signature upper) of
              None \<Rightarrow> Some (pu_key upper) | Some k \<Rightarrow> Some k)))\<rparr>))
     (map_of (dict_of (map (\<lambda>x. (signature x, x)) reparsed)) (signature old))"

definition repaired_units :: "path_unit list \<Rightarrow> path_unit list \<Rightarrow> (pytext \<times> path_unit) list" where
  "repaired_units stored reparsed = dict_of (map (\<lambda>x. (pu_key x, x)) reparsed
     @ List.map_filter (replacement stored reparsed) stored)"

text \<open>\<open>__init__\<close>: the units of the table and the text of the reconstruction row, if there is one. \<open>None\<close> is the
  \<open>ValueError\<close> of the parser.\<close>

definition make_resolver :: "unicode_tables \<Rightarrow> path_unit list \<Rightarrow> pytext option \<Rightarrow> resolver option" where
  "make_resolver u stored recon = (
     if list_all (\<lambda>x. unit_is_sane u (pu_type x) (pu_number x) (pu_title x)) stored
     then Some \<lparr>rs_units = dict_of (map (\<lambda>x. (pu_key x, x)) stored), rs_source = LEGAL_UNIT_REPOSITORY\<rparr>
     else (case recon of
         None \<Rightarrow> Some \<lparr>rs_units = [], rs_source = UNAVAILABLE\<rparr>
       | Some t \<Rightarrow> map_option (\<lambda>units. \<lparr>rs_units = repaired_units stored (rebuild None units),
            rs_source = REPAIRED_LEGAL_UNIT_REPOSITORY\<rparr>) (parse u t)))"

definition artifact_resolver :: "unicode_tables \<Rightarrow> artifact_db \<Rightarrow> resolver option" where
  "artifact_resolver u db = make_resolver u (map stored_unit (ad_units db)) (Some (ad_text db))"

section \<open>Paths\<close>

definition parent_key :: "path_unit \<Rightarrow> pytext" where
  "parent_key u = (case pu_parent u of None \<Rightarrow> [] | Some p \<Rightarrow> p)"

lemma unvisited_less:
  assumes "map_of units k = Some u" and "key u \<notin> set visited"
  shows "length (filter (\<lambda>v. key v \<notin> set (key u # visited)) (map snd units)) < length (filter (\<lambda>v. key v \<notin> set visited) (map snd units))"
proof -
  have u: "u \<in> set (filter (\<lambda>v. key v \<notin> set visited) (map snd units))"
    using assms by (force dest: map_of_SomeD)
  have "filter (\<lambda>v. key v \<notin> set (key u # visited)) (map snd units)
      = filter (\<lambda>v. key v \<noteq> key u) (filter (\<lambda>v. key v \<notin> set visited) (map snd units))"
    by (auto intro: filter_cong)
  also have "length \<dots> < length (filter (\<lambda>v. key v \<notin> set visited) (map snd units))"
    by (rule length_filter_less [OF u]) simp
  finally show ?thesis .
qed

text \<open>The loop of \<open>_path_for_unit\<close>, on the key to look up next.\<close>

function climb :: "(pytext \<times> path_unit) list \<Rightarrow> pytext list \<Rightarrow> pytext \<Rightarrow> path_unit list" where
  "climb units visited k = (case map_of units k of None \<Rightarrow> []
     | Some u \<Rightarrow> if pu_key u \<in> set visited then [] else u # climb units (pu_key u # visited) (parent_key u))"
  by pat_completeness auto
termination
  by (relation "measure (\<lambda>(units, visited, k). length (filter (\<lambda>v. pu_key v \<notin> set visited) (map snd units)))")
    (use unvisited_less [where key = pu_key] in auto)

declare climb.simps [simp del]

definition chain_of :: "(pytext \<times> path_unit) list \<Rightarrow> path_unit \<Rightarrow> path_unit list" where
  "chain_of units u = u # climb units [pu_key u] (parent_key u)"

definition category_unit :: "path_unit \<Rightarrow> bool" where
  "category_unit u \<longleftrightarrow> pu_type u \<in> {''TABLE_CATEGORY'', ''ARTICLE'', ''SECTION''}"

text \<open>\<open>_path_for_unit\<close>; \<open>bottom_up\<close> is the chain before it is reversed.\<close>

definition path_for_unit :: "resolver \<Rightarrow> path_unit \<Rightarrow> pytext \<Rightarrow> legal_path" where
  "path_for_unit rs u k = (let bottom_up = filter (\<lambda>x. pu_type x \<noteq> ''PREAMBLE'') (chain_of (rs_units rs) u) in
     \<lparr>lp_unit = k, lp_type = Some (pu_type u), lp_label = (if pu_type u \<noteq> ''PREAMBLE'' then Some (unit_label u) else None),
      lp_ancestors = map pu_key (rev bottom_up), lp_labels = map unit_label (rev bottom_up),
      lp_category = map_option pu_key (find category_unit bottom_up), lp_source = rs_source rs\<rparr>)"

definition resolve :: "resolver \<Rightarrow> pytext option \<Rightarrow> legal_path option" where
  "resolve rs unit_id = (case unit_id of None \<Rightarrow> None
     | Some k \<Rightarrow> if k = [] then None else (case map_of (rs_units rs) k of
         None \<Rightarrow> Some \<lparr>lp_unit = k, lp_type = None, lp_label = None, lp_ancestors = [], lp_labels = [], lp_category = None,
           lp_source = UNAVAILABLE\<rparr>
       | Some u \<Rightarrow> Some (path_for_unit rs u k)))"

definition semantic_heading :: "int \<Rightarrow> int \<Rightarrow> path_unit \<Rightarrow> bool" where
  "semantic_heading s e u \<longleftrightarrow> starts_with repaired_prefix (pu_key u) \<and> pu_type u \<in> {''TABLE_CATEGORY'', ''ARTICLE''}
     \<and> s \<le> pu_start u \<and> pu_start u < e"

definition resolve_for_span :: "resolver \<Rightarrow> pytext option \<Rightarrow> int option \<Rightarrow> int option \<Rightarrow> legal_path option" where
  "resolve_for_span rs unit_id char_start char_end = (let resolved = resolve rs unit_id in
     if (\<exists>p. resolved = Some p \<and> lp_source p \<noteq> UNAVAILABLE) then resolved
     else (case (char_start, char_end) of
         (Some s, Some e) \<Rightarrow> if e \<le> s then resolved
           else (case sort_key pu_start (sort_key pu_key (filter (semantic_heading s e) (map snd (rs_units rs)))) of
               [] \<Rightarrow> resolved
             | u # _ \<Rightarrow> Some (path_for_unit rs u (pu_key u)))
       | _ \<Rightarrow> resolved))"

definition source_text :: "path_source \<Rightarrow> pytext" where
  "source_text s = (case s of LEGAL_UNIT_REPOSITORY \<Rightarrow> ascii ''LEGAL_UNIT_REPOSITORY''
     | REPAIRED_LEGAL_UNIT_REPOSITORY \<Rightarrow> ascii ''REPAIRED_LEGAL_UNIT_REPOSITORY'' | UNAVAILABLE \<Rightarrow> ascii ''UNAVAILABLE'')"

definition option_meta :: "pytext option \<Rightarrow> meta" where
  "option_meta x = (case x of None \<Rightarrow> MNull | Some t \<Rightarrow> MStr t)"

definition path_metadata :: "legal_path \<Rightarrow> metadata" where
  "path_metadata p = [(''legal_unit_id'', MStr (lp_unit p)), (''unit_type'', option_meta (map_option ascii (lp_type p))),
     (''display_label'', option_meta (lp_label p)), (''ancestor_unit_ids'', MList (map MStr (lp_ancestors p))),
     (''ancestor_display_labels'', MList (map MStr (lp_labels p))), (''category_root_id'', option_meta (lp_category p)),
     (''path_source'', MStr (source_text (lp_source p)))]"

section \<open>What a path is\<close>

text \<open>A chain follows the parent links from the unit upwards, meets no unit twice, and stops only at a key that is no unit or that it has met.\<close>

definition chain_ok :: "(pytext \<times> path_unit) list \<Rightarrow> path_unit \<Rightarrow> path_unit list \<Rightarrow> bool" where
  "chain_ok units u xs \<longleftrightarrow> xs \<noteq> [] \<and> hd xs = u \<and> distinct (map pu_key xs)
     \<and> (\<forall>i. Suc i < length xs \<longrightarrow> map_of units (parent_key (xs ! i)) = Some (xs ! Suc i))
     \<and> (case map_of units (parent_key (last xs)) of None \<Rightarrow> True | Some v \<Rightarrow> pu_key v \<in> pu_key ` set xs)"

lemma climb_chain:
  "set visited \<inter> pu_key ` set (climb units visited k) = {} \<and> distinct (map pu_key (climb units visited k))"
proof (induction units visited k rule: climb.induct)
  case (1 units visited k)
  show ?case
  proof (cases "map_of units k")
    case (Some u)
    then show ?thesis using "1.IH" [OF Some] by (auto simp: climb.simps [of units visited k])
  qed (simp add: climb.simps)
qed

lemma climb_links:
  assumes "climb units visited k = u # rest"
  shows "map_of units k = Some u \<and> rest = climb units (pu_key u # visited) (parent_key u)"
  using assms by (subst (asm) climb.simps) (auto split: option.splits if_splits)

lemma climb_end:
  "climb units visited k = [] \<Longrightarrow> map_of units k = Some v \<Longrightarrow> pu_key v \<in> set visited"
  by (subst (asm) climb.simps) (auto split: if_splits)

lemma climb_linked:
  "map_of units (parent_key u) = Some v \<or> climb units visited (parent_key u) = [] \<Longrightarrow>
   xs = u # climb units visited (parent_key u) \<Longrightarrow>
   (\<forall>i. Suc i < length xs \<longrightarrow> map_of units (parent_key (xs ! i)) = Some (xs ! Suc i))
   \<and> (\<forall>w. map_of units (parent_key (last xs)) = Some w \<longrightarrow> pu_key w \<in> set visited \<union> pu_key ` set (tl xs))"
proof (induction "length xs" arbitrary: u v visited xs)
  case (Suc n)
  show ?case
  proof (cases "climb units visited (parent_key u)")
    case Nil
    then show ?thesis using Suc.prems climb_end by auto
  next
    case (Cons w rest)
    note l = conjunct1 [OF climb_links [OF Cons]] conjunct2 [OF climb_links [OF Cons]]
    have n: "n = length (w # rest)" using Suc(2) Suc.prems(2) Cons by simp
    have "map_of units (parent_key w) = Some x \<or> climb units (pu_key w # visited) (parent_key w) = []"
      if "x = the (map_of units (parent_key w))" for x
      using that by (subst climb.simps) (auto split: option.splits)
    from Suc.hyps(1) [OF n this [OF refl]] l(2)
    have ih: "(\<forall>i. Suc i < length (w # rest) \<longrightarrow> map_of units (parent_key ((w # rest) ! i)) = Some ((w # rest) ! Suc i))
       \<and> (\<forall>x. map_of units (parent_key (last (w # rest))) = Some x \<longrightarrow> pu_key x \<in> set (pu_key w # visited) \<union> pu_key ` set rest)"
      by simp
    then show ?thesis using l(1) by (auto simp: Suc.prems(2) Cons nth_Cons split: nat.splits)
  qed
qed simp

lemma chain_of_ok: "chain_ok units u (chain_of units u)"
proof -
  let ?xs = "chain_of units u"
  have "map_of units (parent_key u) = Some (the (map_of units (parent_key u))) \<or> climb units [pu_key u] (parent_key u) = []"
    by (subst climb.simps) (auto split: option.splits)
  from climb_linked [OF this refl]
  have "(\<forall>i. Suc i < length ?xs \<longrightarrow> map_of units (parent_key (?xs ! i)) = Some (?xs ! Suc i))
    \<and> (\<forall>w. map_of units (parent_key (last ?xs)) = Some w \<longrightarrow> pu_key w \<in> pu_key ` set ?xs)"
    by (auto simp: chain_of_def)
  then show ?thesis
    using climb_chain [of "[pu_key u]" units "parent_key u"] by (auto simp: chain_ok_def chain_of_def split: option.split)
qed

text \<open>C13. A legal path is the chain of parents. For any table of units, cyclic ones included, the path of a known unit lists,
  from the outermost to the unit itself, the units that the parent links reach, each once and without the
  preamble, with their labels; it stops only at a parent that is no unit or that it has passed. Its category is the
  nearest table category, article or section of the chain.\<close>

theorem path_follows_parents:
  assumes "map_of (rs_units rs) k = Some u" and "k \<noteq> []"
  shows "\<exists>p xs. resolve rs (Some k) = Some p \<and> chain_ok (rs_units rs) u xs
    \<and> lp_ancestors p = map pu_key (rev (filter (\<lambda>x. pu_type x \<noteq> ''PREAMBLE'') xs))
    \<and> lp_labels p = map unit_label (rev (filter (\<lambda>x. pu_type x \<noteq> ''PREAMBLE'') xs))
    \<and> lp_category p = map_option pu_key (find category_unit (filter (\<lambda>x. pu_type x \<noteq> ''PREAMBLE'') xs))
    \<and> lp_source p = rs_source rs"
  using assms chain_of_ok [of "rs_units rs" u]
  by (intro exI [of _ "path_for_unit rs u k"] exI [of _ "chain_of (rs_units rs) u"])
    (simp add: resolve_def path_for_unit_def Let_def)

definition unit_a :: path_unit where
  "unit_a = \<lparr>pu_key = ascii ''a'', pu_parent = Some (ascii ''b''), pu_type = ''ARTICLE'', pu_number = ascii ''1'', pu_title = [], pu_start = 0, pu_end = 9\<rparr>"

definition unit_b :: path_unit where
  "unit_b = \<lparr>pu_key = ascii ''b'', pu_parent = Some (ascii ''a''), pu_type = ''CHAPTER'', pu_number = ascii ''I'', pu_title = [], pu_start = 0, pu_end = 9\<rparr>"

definition cyclic_units :: "(pytext \<times> path_unit) list" where
  "cyclic_units = [(ascii ''a'', unit_a), (ascii ''b'', unit_b)]"

lemma cyclic_chain: "chain_of cyclic_units unit_a = [unit_a, unit_b]"
  by (simp add: chain_of_def climb.simps cyclic_units_def unit_a_def unit_b_def parent_key_def)

theorem path_follows_parents_witness:
  "\<exists>p. resolve \<lparr>rs_units = cyclic_units, rs_source = LEGAL_UNIT_REPOSITORY\<rparr> (Some (ascii ''a'')) = Some p
     \<and> lp_source p = LEGAL_UNIT_REPOSITORY"
  using path_follows_parents [of "\<lparr>rs_units = cyclic_units, rs_source = LEGAL_UNIT_REPOSITORY\<rparr>" "ascii ''a''" unit_a]
  by (fastforce simp: cyclic_units_def)

section \<open>Repairing a sound table changes nothing\<close>

lemma map_of_dict_of: "map_of (dict_of xs) = map_of (rev xs)"
proof -
  have "map_of (fold (\<lambda>(k, v). AList.update k v) xs m) = map_of (rev xs @ m)" for m
    by (induction xs arbitrary: m) (auto simp: update_conv' map_add_def fun_eq_iff split: option.splits)
  from this [of "[]"] show ?thesis by (simp add: dict_of_def)
qed

lemma dict_of_mem: "distinct (map fst xs) \<Longrightarrow> (k, v) \<in> set xs \<Longrightarrow> map_of (dict_of xs) k = Some v"
  unfolding map_of_dict_of by (rule map_of_is_SomeI) (simp_all add: rev_map [symmetric])

text \<open>A stored table and a parsed tree with the same units in the same places.\<close>

definition same_place :: "path_unit list \<Rightarrow> path_unit list \<Rightarrow> path_unit \<Rightarrow> path_unit \<Rightarrow> bool" where
  "same_place stored parsed x y \<longleftrightarrow> pu_type x = pu_type y \<and> pu_number x = pu_number y \<and> pu_title x = pu_title y
     \<and> pu_start x = pu_start y \<and> pu_end x = pu_end y
     \<and> (pu_parent x = None \<and> pu_parent y = None \<or> (\<exists>(a, b) \<in> set (zip stored parsed).
         pu_parent x = Some (pu_key a) \<and> pu_parent y = Some (pu_key b)))"

definition same_tree :: "path_unit list \<Rightarrow> path_unit list \<Rightarrow> bool" where
  "same_tree stored parsed \<longleftrightarrow> list_all2 (same_place stored parsed) stored parsed \<and> distinct (map pu_key stored)
     \<and> distinct (map pu_key parsed) \<and> distinct (map signature parsed)"

lemma same_tree_replacement:
  assumes t: "same_tree stored parsed" and xy: "(x, y) \<in> set (zip stored parsed)"
  shows "replacement stored parsed x = Some (pu_key x, x)"
proof -
  have place: "same_place stored parsed a b" if "(a, b) \<in> set (zip stored parsed)" for a b
    using t that by (auto simp: same_tree_def list_all2_iff)
  have sig: "signature a = signature b" if "(a, b) \<in> set (zip stored parsed)" for a b
    using place [OF that] by (simp add: same_place_def signature_def)
  have "map signature stored = map signature parsed"
    using t sig by (auto simp: same_tree_def list_all2_iff intro!: nth_equalityI) (metis in_set_zip nth_zip fst_conv snd_conv)
  then have d: "distinct (map signature stored)" "distinct (map signature parsed)" "distinct (map pu_key parsed)"
    using t by (simp_all add: same_tree_def)
  have new: "map_of (dict_of (map (\<lambda>x. (signature x, x)) parsed)) (signature x) = Some y"
    by (rule dict_of_mem) (use d(2) sig [OF xy] xy in \<open>auto simp: o_def dest: set_zip_rightD\<close>)
  have up: "map_of (dict_of (map (\<lambda>x. (pu_key x, x)) parsed)) (pu_key b) = Some b
      \<and> map_of (dict_of (map (\<lambda>x. (signature x, pu_key x)) stored)) (signature b) = Some (pu_key a)"
    if ab: "(a, b) \<in> set (zip stored parsed)" for a b
    using d sig [OF ab] ab
    by (auto intro!: dict_of_mem image_eqI [of _ _ a] simp: o_def dest: set_zip_rightD set_zip_leftD)
  show ?thesis using place [OF xy] up by (auto simp: replacement_def new same_place_def)
qed

lemma same_tree_units:
  assumes t: "same_tree stored parsed" and x: "x \<in> set stored"
  shows "map_of (repaired_units stored parsed) (pu_key x) = Some x"
    and "map_of (dict_of (map (\<lambda>x. (pu_key x, x)) stored)) (pu_key x) = Some x"
proof -
  have "replacement stored parsed z = Some (pu_key z, z)" if "z \<in> set stored" for z
    using that t same_tree_replacement [OF t] by (fastforce simp: same_tree_def list_all2_iff in_set_conv_nth set_zip)
  then have f: "List.map_filter (replacement stored parsed) stored = map (\<lambda>x. (pu_key x, x)) stored"
    by (auto simp: List.map_filter_def intro!: map_cong)
  show d: "map_of (dict_of (map (\<lambda>x. (pu_key x, x)) stored)) (pu_key x) = Some x"
    by (rule dict_of_mem) (use t x in \<open>auto simp: same_tree_def o_def\<close>)
  then show "map_of (repaired_units stored parsed) (pu_key x) = Some x"
    by (simp add: repaired_units_def f map_of_dict_of map_add_def)
qed

lemma same_tree_climb:
  assumes t: "same_tree stored parsed" and "[] \<notin> pu_key ` set (stored @ parsed)" and "k = [] \<or> k \<in> pu_key ` set stored"
  shows "climb (repaired_units stored parsed) visited k = climb (dict_of (map (\<lambda>x. (pu_key x, x)) stored)) visited k"
  using assms(3)
proof (induction "dict_of (map (\<lambda>x. (pu_key x, x)) stored)" visited k rule: climb.induct)
  case (1 visited k)
  show ?case
  proof (cases "k = []")
    case True
    have "replacement stored parsed z = Some (k', z') \<Longrightarrow> k' = pu_key z" for z k' z'
      by (auto simp: replacement_def)
    then have "map_of (repaired_units stored parsed) [] = None \<and> map_of (dict_of (map (\<lambda>x. (pu_key x, x)) stored)) [] = None"
      using assms(2) by (fastforce simp: repaired_units_def map_of_dict_of map_of_eq_None_iff List.map_filter_def)
    then show ?thesis using True by (simp add: climb.simps)
  next
    case False
    then obtain x where x: "x \<in> set stored" "k = pu_key x" using "1.prems" by auto
    note l = same_tree_units [OF t x(1)]
    have "parent_key x = [] \<or> parent_key x \<in> pu_key ` set stored"
      using t x(1) by (fastforce simp: same_tree_def list_all2_iff same_place_def parent_key_def in_set_conv_nth set_zip)
    then show ?thesis
      using "1.hyps" [OF l(2) [folded x(2)]] l x(2)
      by (simp add: climb.simps [of "repaired_units stored parsed"] climb.simps [of "dict_of (map (\<lambda>x. (pu_key x, x)) stored)"])
  qed
qed

lemma repair_agrees:
  assumes t: "same_tree stored parsed" and ne: "[] \<notin> pu_key ` set (stored @ parsed)" and x: "x \<in> set stored"
  shows "resolve \<lparr>rs_units = repaired_units stored parsed, rs_source = s\<rparr> (Some (pu_key x))
    = map_option (\<lambda>p. p\<lparr>lp_source := s\<rparr>)
        (resolve \<lparr>rs_units = dict_of (map (\<lambda>x. (pu_key x, x)) stored), rs_source = s'\<rparr> (Some (pu_key x)))"
proof -
  have "parent_key x = [] \<or> parent_key x \<in> pu_key ` set stored"
    using t x by (fastforce simp: same_tree_def list_all2_iff same_place_def parent_key_def in_set_conv_nth set_zip)
  from same_tree_climb [OF t ne this]
  have "chain_of (repaired_units stored parsed) x = chain_of (dict_of (map (\<lambda>x. (pu_key x, x)) stored)) x"
    by (simp add: chain_of_def)
  then show ?thesis using same_tree_units [OF t x] by (simp add: resolve_def path_for_unit_def Let_def)
qed

section \<open>The table of a prepared artifact\<close>

abbreviation table_units :: "(legal_unit \<times> unit_row) list \<Rightarrow> path_unit list" where
  "table_units rows \<equiv> map (stored_unit \<circ> snd) rows"

definition place_in :: "(path_unit \<times> path_unit) set \<Rightarrow> pytext option \<Rightarrow> pytext option \<Rightarrow> bool" where
  "place_in Z p q \<longleftrightarrow> p = None \<and> q = None \<or> (\<exists>(a, b) \<in> Z. p = Some (pu_key a) \<and> q = Some (pu_key b))"

definition agrees :: "(path_unit \<times> path_unit) set \<Rightarrow> path_unit \<Rightarrow> path_unit \<Rightarrow> bool" where
  "agrees Z x y \<longleftrightarrow> pu_type x = pu_type y \<and> pu_number x = pu_number y \<and> pu_title x = pu_title y
      \<and> pu_start x = pu_start y \<and> pu_end x = pu_end y \<and> place_in Z (pu_parent x) (pu_parent y)"

lemma map_units_rebuild:
  assumes "place_in Z (map_option ascii parent) q"
    and "set (zip (table_units (fst (map_units ids offsets parent k us))) (rebuild q us)) \<subseteq> Z"
  shows "list_all2 (agrees Z) (table_units (fst (map_units ids offsets parent k us))) (rebuild q us)"
  using assms
proof (induction ids offsets parent k us arbitrary: q rule: map_units.induct)
  case (2 ids offsets parent k ty num ttl s e level children us)
  obtain below k1 where b: "map_units ids offsets (Some (ids k)) (Suc k) children = (below, k1)" by fastforce
  obtain rest k2 where r: "map_units ids offsets parent k1 us = (rest, k2)" by fastforce
  let ?row = "\<lparr>un_id = ids k, un_parent = parent, un_type = ty, un_number = num, un_title = ttl,
            un_start = s, un_end = e, un_page_start = page_of s offsets, un_page_end = page_of e offsets, un_level = level\<rparr>"
  let ?x = "stored_unit ?row"
  let ?y = "\<lparr>pu_key = repaired_key ty num s, pu_parent = q, pu_type = ty, pu_number = num, pu_title = ttl, pu_start = s, pu_end = e\<rparr>"
  have rows: "table_units (fst (map_units ids offsets parent k (Legal_Unit ty num ttl s e level children # us)))
      = ?x # table_units below @ table_units rest"
    by (simp add: b r)
  have same: "length (rebuild p cs) = length (table_units (fst (map_units ids offsets p' k' cs)))" for p p' k' cs
    by (induction ids offsets p' k' cs arbitrary: p rule: map_units.induct) (auto split: prod.splits)
  have lengths: "length (table_units below) = length (rebuild (Some (repaired_key ty num s)) children)"
    using same [of "Some (repaired_key ty num s)" children "Some (ids k)" "Suc k"] b by simp
  have zs: "zip (table_units below @ table_units rest) (rebuild (Some (repaired_key ty num s)) children @ rebuild q us)
      = zip (table_units below) (rebuild (Some (repaired_key ty num s)) children) @ zip (table_units rest) (rebuild q us)"
    by (rule zip_append [OF lengths])
  have Z: "(?x, ?y) \<in> Z" "set (zip (table_units below) (rebuild (Some (repaired_key ty num s)) children)) \<subseteq> Z"
    "set (zip (table_units rest) (rebuild q us)) \<subseteq> Z"
    using "2.prems"(2) unfolding rows rebuild.simps append_Cons zip_Cons_Cons append_assoc zs by simp_all
  have "place_in Z (map_option ascii (Some (ids k))) (Some (repaired_key ty num s))"
    using Z(1) by (auto simp: place_in_def stored_unit_def intro!: bexI [of _ "(?x, ?y)"])
  then have "list_all2 (agrees Z) (table_units below) (rebuild (Some (repaired_key ty num s)) children)"
    using "2.IH"(1) [OF refl, of "Some (repaired_key ty num s)"] Z(2) unfolding b fst_conv by blast
  moreover have "list_all2 (agrees Z) (table_units rest) (rebuild q us)"
    using "2.IH"(2) [OF refl b [symmetric] refl "2.prems"(1)] Z(3) unfolding r fst_conv by blast
  moreover have "agrees Z ?x ?y" using "2.prems"(1) by (simp add: agrees_def stored_unit_def)
  ultimately show ?case unfolding rows rebuild.simps append_Cons by (simp only: list_all2_Cons list_all2_appendI)
qed simp

lemma rebuild_flat: "map (\<lambda>y. (pu_type y, pu_start y)) (rebuild q us) = concat (map unit_flat us)"
  by (induction q us rule: rebuild.induct) (auto simp: unit_flat_def [abs_def] map_concat o_def)

lemma rebuild_key: "y \<in> set (rebuild q us) \<Longrightarrow> pu_key y = repaired_key (pu_type y) (pu_number y) (pu_start y)"
  by (induction q us rule: rebuild.induct) auto

lemma nat_str_digits: "c \<in> set (nat_str n) \<Longrightarrow> (48 :: nat) \<le> of_char c \<and> of_char c < (58 :: nat)"
proof (induction n rule: nat_str.induct)
  case (1 n)
  then show ?case
    by (subst (asm) (2) nat_str.simps) (auto simp: of_char_of split: if_splits)
qed

lemma separator_inject: "58 \<notin> set xs \<Longrightarrow> 58 \<notin> set ys \<Longrightarrow> xs @ 58 # a = ys @ 58 # b \<Longrightarrow> xs = ys \<and> a = b"
  for xs :: "'a :: numeral list"
proof (induction xs arbitrary: ys)
  case (Cons x xs)
  then show ?case by (cases ys) auto
qed (auto elim: list.set_cases simp: append_eq_Cons_conv Cons_eq_append_conv)

lemma repaired_key_inject:
  assumes "repaired_key ty n s = repaired_key ty' n' s'" and "0 \<le> s" "0 \<le> s'"
    and "58 \<notin> set (ascii ty)" "58 \<notin> set (ascii ty')"
  shows "ty = ty' \<and> s = s'"
proof -
  have e: "ascii ty @ 58 # (n @ 58 # int_text s) = ascii ty' @ 58 # (n' @ 58 # int_text s')"
    using assms(1) by (simp add: repaired_key_def)
  note a = separator_inject [OF assms(4,5) e]
  have digits: "58 \<notin> set (rev (int_text z))" if "0 \<le> z" for z
    using that nat_str_digits by (force simp: int_text_def)
  from a have "rev (int_text s) @ 58 # rev n = rev (int_text s') @ 58 # rev n'"
    by (metis append.assoc append_Cons append_Nil rev.simps(2) rev_append)
  from separator_inject [OF digits [OF assms(2)] digits [OF assms(3)] this]
  have "ascii (nat_str (nat s)) = ascii (nat_str (nat s'))" using assms(2,3) by (simp add: int_text_def)
  then have "nat s = nat s'" by (simp only: ascii_inject nat_str_inject)
  moreover have "ty = ty'" using a by (simp only: ascii_inject)
  ultimately show ?thesis using assms(2,3) by simp
qed

lemma type_no_colon: "ty \<in> fst ` set hierarchy_levels \<Longrightarrow> 58 \<notin> set (ascii ty)"
  by (auto simp: hierarchy_levels_def)

lemma unit_ok_types: "unit_ok anc u \<Longrightarrow> v \<in> set (all_units u) \<Longrightarrow> lu_type v \<in> fst ` set hierarchy_levels"
proof (induction anc u rule: unit_ok.induct)
  case (1 anc ty n t s e lv cs)
  then show ?case by (cases "v = Legal_Unit ty n t s e lv cs") (auto simp: well_placed_def)
qed

lemma parse_distinct:
  assumes "parse u t = Some units"
  shows "distinct (map pu_key (rebuild None units))" "distinct (map signature (rebuild None units))"
proof -
  let ?place = "\<lambda>y. (pu_type y, pu_start y)"
  obtain ys where ys: "map ?place (rebuild None units) = (''PREAMBLE'', 0) # ys" "in_order t (int (length t) + 1) ys"
    and ok: "\<forall>v \<in> set units. unit_ok [] v"
    using parsed_tree [OF assms] by (auto simp: rebuild_flat)
  have "sorted_wrt (<) (map snd ys)" using ys(2) by (simp add: in_order_def)
  then have "distinct (map snd ys)" by (simp add: strict_sorted_iff)
  then have d: "distinct (map ?place (rebuild None units))"
    using ys by (auto simp: in_order_def good_start_def distinct_map)
  then show "distinct (map signature (rebuild None units))"
    by (auto simp: distinct_conv_nth signature_def)
  have "0 \<le> pu_start y \<and> 58 \<notin> set (ascii (pu_type y))" if y: "y \<in> set (rebuild None units)" for y
  proof -
    have m: "?place y \<in> set (map ?place (rebuild None units))" using y by simp
    then have "0 \<le> pu_start y" using ys by (auto simp: in_order_def good_start_def)
    moreover from m obtain x v where v: "x \<in> set units" "v \<in> set (all_units x)" "pu_type y = lu_type v"
      unfolding rebuild_flat by (auto simp: unit_flat_def)
    then have "pu_type y \<in> fst ` set hierarchy_levels" using ok unit_ok_types [of "[]" x v] by simp
    ultimately show ?thesis using type_no_colon by blast
  qed
  then have "?place a = ?place b"
    if "a \<in> set (rebuild None units)" "b \<in> set (rebuild None units)" "pu_key a = pu_key b" for a b
    using repaired_key_inject [OF that(3) [unfolded rebuild_key [OF that(1)] rebuild_key [OF that(2)]]] that(1,2) by simp
  then have "inj_on pu_key (set (rebuild None units))"
    using d unfolding distinct_map by (metis (no_types, lifting) inj_on_def)
  then show "distinct (map pu_key (rebuild None units))" using d unfolding distinct_map by blast
qed

lemma prepared_same_tree:
  assumes "parse u t = Some units" and rows: "rows = fst (map_units ids offsets None k units)"
    and "distinct (map (un_id \<circ> snd) rows)"
  shows "same_tree (table_units rows) (rebuild None units)"
proof -
  let ?Z = "set (zip (table_units rows) (rebuild None units))"
  have "list_all2 (agrees ?Z) (table_units rows) (rebuild None units)"
    unfolding rows by (rule map_units_rebuild) (simp_all add: place_in_def)
  then have "list_all2 (same_place (table_units rows) (rebuild None units)) (table_units rows) (rebuild None units)"
    by (rule list_all2_mono) (auto simp: agrees_def same_place_def place_in_def)
  moreover have "map pu_key (table_units rows) = map ascii (map (un_id \<circ> snd) rows)"
    by (simp add: stored_unit_def o_def)
  then have "distinct (map pu_key (table_units rows))"
    using assms(3) by (simp add: distinct_map inj_on_def ascii_inject del: map_map)
  ultimately show ?thesis using parse_distinct [OF assms(1)] by (simp add: same_tree_def)
qed

text \<open>C14. Repair is harmless. For the table of units that the preparation stores for a text, with distinct identifiers that are not empty,
  parsing the stored text again and matching its units to the table gives every stored unit the path the
  table gives it; only the recorded source differs.\<close>

theorem repair_keeps_paths:
  assumes "parse u t = Some units" and "rows = fst (map_units ids offsets None k units)"
    and "distinct (map (un_id \<circ> snd) rows)" and "[] \<notin> (un_id \<circ> snd) ` set rows" and "r \<in> snd ` set rows"
  shows "resolve \<lparr>rs_units = repaired_units (map (stored_unit \<circ> snd) rows) (rebuild None units), rs_source = s\<rparr> (Some (ascii (un_id r)))
    = map_option (\<lambda>p. p\<lparr>lp_source := s\<rparr>) (resolve \<lparr>rs_units = dict_of (map (\<lambda>x. (pu_key x, x)) (map (stored_unit \<circ> snd) rows)),
        rs_source = s'\<rparr> (Some (ascii (un_id r))))"
proof -
  have "[] \<notin> pu_key ` set (rebuild None units)"
    by (auto dest!: rebuild_key simp: repaired_key_def repaired_prefix_def)
  moreover have "[] \<notin> pu_key ` set (table_units rows)"
    using assms(4) by (force simp: stored_unit_def)
  ultimately have "[] \<notin> pu_key ` set (table_units rows @ rebuild None units)" by auto
  moreover have "stored_unit r \<in> set (table_units rows)" using assms(5) by auto
  ultimately show ?thesis
    using repair_agrees [OF prepared_same_tree [OF assms(1-3)], of "stored_unit r" s s'] by (simp add: stored_unit_def)
qed

text \<open>A part that the parser numbers with an ordinal word is taken for a recogniser error.\<close>

lemma ordinal_part_not_sane:
  "rx_match (part_head sample_unicode) (part_word @ [32] @ ordinal_word @ ascii '' nh'') \<noteq> None
   \<and> \<not> unit_is_sane sample_unicode ''PART'' (ordinal_word @ ascii '' nh'') []"
  by (simp add: unit_is_sane_def type_labels_def parse_run sample_unicode_def)

theorem repair_keeps_paths_witness:
  "\<exists>units. parse sample_unicode two_articles = Some units
    \<and> (\<exists>s'. resolve \<lparr>rs_units = repaired_units (map (stored_unit \<circ> snd) (fst (map_units (\<lambda>n. replicate (Suc n) CHR ''i'') [] None 0 units)))
          (rebuild None units), rs_source = REPAIRED_LEGAL_UNIT_REPOSITORY\<rparr> (Some (ascii ''ii''))
      = map_option (\<lambda>p. p\<lparr>lp_source := REPAIRED_LEGAL_UNIT_REPOSITORY\<rparr>) (resolve \<lparr>rs_units = dict_of (map (\<lambda>x. (pu_key x, x))
          (map (stored_unit \<circ> snd) (fst (map_units (\<lambda>n. replicate (Suc n) CHR ''i'') [] None 0 units)))), rs_source = s'\<rparr>
          (Some (ascii ''ii''))))"
proof -
  let ?ids = "\<lambda>n. replicate (Suc n) CHR ''i''"
  have "\<exists>units. parse sample_unicode two_articles = Some units
      \<and> map (un_id \<circ> snd) (fst (map_units ?ids [] None 0 units)) = [''i'', ''ii'', ''iii'']"
    by (simp add: two_articles_parse)
  then obtain units where p: "parse sample_unicode two_articles = Some units"
    and rows: "map (un_id \<circ> snd) (fst (map_units ?ids [] None 0 units)) = [''i'', ''ii'', ''iii'']" by (elim exE conjE)
  have set: "(un_id \<circ> snd) ` set (fst (map_units ?ids [] None 0 units)) = {''i'', ''ii'', ''iii''}"
    unfolding set_map [symmetric] rows by simp
  then have "''ii'' \<in> (un_id \<circ> snd) ` set (fst (map_units ?ids [] None 0 units))" by simp
  then obtain q where "q \<in> set (fst (map_units ?ids [] None 0 units))" "un_id (snd q) = ''ii''"
    unfolding image_iff comp_def by metis
  then obtain r where r: "r \<in> snd ` set (fst (map_units ?ids [] None 0 units))" "un_id r = ''ii''" by blast
  have "distinct (map (un_id \<circ> snd) (fst (map_units ?ids [] None 0 units)))" unfolding rows by simp
  from repair_keeps_paths [OF p refl this _ r(1), of REPAIRED_LEGAL_UNIT_REPOSITORY LEGAL_UNIT_REPOSITORY]
  have "resolve \<lparr>rs_units = repaired_units (map (stored_unit \<circ> snd) (fst (map_units ?ids [] None 0 units)))
          (rebuild None units), rs_source = REPAIRED_LEGAL_UNIT_REPOSITORY\<rparr> (Some (ascii ''ii''))
      = map_option (\<lambda>p. p\<lparr>lp_source := REPAIRED_LEGAL_UNIT_REPOSITORY\<rparr>) (resolve \<lparr>rs_units = dict_of (map (\<lambda>x. (pu_key x, x))
          (map (stored_unit \<circ> snd) (fst (map_units ?ids [] None 0 units)))), rs_source = LEGAL_UNIT_REPOSITORY\<rparr>
          (Some (ascii ''ii'')))"
    unfolding r(2) set by simp
  with p show ?thesis by (intro exI conjI)
qed

end
