(* ===== verification/QueryPlan.thy ===== *)
theory QueryPlan
  imports Parser "HOL-Library.Sublist"
begin

text \<open>
  The plan of a question (\<open>app/local_compute/query_plan.py\<close>): the question itself and, when it looks numeric or
  asks for several things, up to three of its clauses as further retrieval queries.
\<close>

section \<open>Plans\<close>

datatype query_kind = DIRECT | MULTI_INTENT | MULTI_HOP | NUMERIC

record query_plan =
  qp_kind :: query_kind
  qp_queries :: "pytext list"
  qp_needs :: "pytext list"
  qp_planner :: bool

text \<open>\<open>__post_init__\<close>; \<open>None\<close> is its \<open>ValueError\<close>.\<close>

definition make_plan :: "query_kind \<Rightarrow> pytext list \<Rightarrow> pytext list \<Rightarrow> query_plan option" where
  "make_plan k queries needs = (case (queries, needs) of
       (q # _, n # _) \<Rightarrow> if 4 < length queries \<or> q \<noteq> n then None
         else Some \<lparr>qp_kind = k, qp_queries = queries, qp_needs = needs, qp_planner = False\<rparr>
     | _ \<Rightarrow> None)"

section \<open>The patterns\<close>

definition and_word :: pytext where "and_word = [118, 224]"

definition numeric_words :: "pytext list" where
  "numeric_words = [[116, 7893] @ ascii ''ng'', ascii ''bao nhi'' @ [234, 117], ascii ''%'',
     ascii ''ph'' @ [7847] @ ascii ''n tr'' @ [259] @ ascii ''m'', [116, 237] @ ascii ''nh'', [99, 7897] @ ascii ''ng'',
     ascii ''tr'' @ [7915], ascii ''nh'' @ [226] @ ascii ''n'', ascii ''chia'', [116, 7927] @ ascii '' l'' @ [7879],
     ascii ''gi'' @ [7901] @ ascii '' t'' @ [237] @ ascii ''n ch'' @ [7881]]"

definition multi_words :: "pytext list" where
  "multi_words = [and_word, [108, 7847] @ ascii ''n l'' @ [432, 7907, 116],
     ascii ''ph'' @ [226] @ ascii ''n nh'' @ [243] @ ascii ''m'', [116, 7893] @ ascii ''ng h'' @ [7907, 112],
     ascii ''so s'' @ [225] @ ascii ''nh'', [99, 7843] @ ascii '' hai'']"

definition rx_any :: "rx list \<Rightarrow> rx" where
  "rx_any rs = foldr Rx_Alt (butlast rs) (last rs)"

definition whole_word :: "unicode_tables \<Rightarrow> pytext \<Rightarrow> rx" where
  "whole_word u w = rx_seq [rx_word_boundary (uc_word u), rx_literal_by (uc_same u) w, rx_word_boundary (uc_word u)]"

definition numeric_rx :: "unicode_tables \<Rightarrow> rx" where
  "numeric_rx u = rx_any (map (rx_literal_by (uc_same u)) numeric_words)"

definition multi_rx :: "unicode_tables \<Rightarrow> rx" where
  "multi_rx u = rx_any (map (whole_word u) multi_words)"

definition clause_rx :: "unicode_tables \<Rightarrow> rx" where
  "clause_rx u = rx_any [Rx_Char ((=) 63), Rx_Char ((=) 59), whole_word u and_word,
     whole_word u ([273, 7891] @ ascii ''ng th'' @ [7901, 105])]"

text \<open>\<open>re.split\<close> of a pattern that matches no empty text: the pieces between the matches.\<close>

function rx_split_from :: "rx \<Rightarrow> pytext \<Rightarrow> nat \<Rightarrow> pytext list" where
  "rx_split_from r t p = (case rx_search_from r t [p..<Suc (length t)] of
       None \<Rightarrow> [drop p t]
     | Some (i, s) \<Rightarrow> if p < fst s \<and> fst s \<le> length t then slice p i t # rx_split_from r t (fst s) else [drop p t])"
  by pat_completeness auto
termination
  by (relation "measure (\<lambda>(r, t, p). length t - p)") auto

declare rx_split_from.simps [simp del]

section \<open>Planning\<close>

definition scaffold :: "codepoint \<Rightarrow> bool" where
  "scaffold = in_chars (ascii '' .,:-'' @ [8211, 8212])"

fun add_fragments :: "pytext list \<Rightarrow> pytext list \<Rightarrow> pytext list" where
  "add_fragments qs [] = qs"
| "add_fragments qs (f # fs) = (let n = strip_by scaffold f;
       qs' = (if 12 \<le> length n \<and> n \<notin> set qs then qs @ [n] else qs)
     in if length qs' = 4 then qs' else add_fragments qs' fs)"

definition plan_kind :: "unicode_tables \<Rightarrow> pytext \<Rightarrow> query_kind" where
  "plan_kind u t = (if rx_search (numeric_rx u) t \<noteq> None then NUMERIC
     else if rx_search (multi_rx u) t \<noteq> None then MULTI_INTENT else DIRECT)"

text \<open>\<open>plan_query\<close>; \<open>None\<close> is \<open>ValueError\<close>.\<close>

definition plan_query :: "unicode_tables \<Rightarrow> pytext \<Rightarrow> query_plan option" where
  "plan_query u q = (if py_strip q = [] then None else
     (let original = py_strip (uc_nfc u q); kind = plan_kind u original;
          queries = (if kind = DIRECT then [original] else add_fragments [original] (rx_split_from (clause_rx u) original 0))
      in make_plan kind queries queries))"

section \<open>What a plan is\<close>

lemma strip_by_prefix: "prefix (strip_by p xs) (dropWhile p xs)"
  using suffix_dropWhile [of p "rev (dropWhile p xs)"] by (simp add: strip_by_def suffix_to_prefix)

lemma strip_by_infix: "sublist (strip_by p xs) xs"
  by (rule sublist_order.order_trans [OF prefix_imp_sublist [OF strip_by_prefix] suffix_imp_sublist [OF suffix_dropWhile]])

lemma slice_infix: "sublist (slice a b t) t"
  by (simp add: slice_def) (meson sublist_drop sublist_take sublist_order.order_trans)

lemma split_infix: "f \<in> set (rx_split_from r t p) \<Longrightarrow> sublist f t"
proof (induction r t p rule: rx_split_from.induct)
  case (1 r t p)
  then show ?case
    by (subst (asm) rx_split_from.simps) (auto simp: slice_infix split: option.splits if_splits)
qed

definition clause_of :: "pytext \<Rightarrow> pytext \<Rightarrow> bool" where
  "clause_of t f \<longleftrightarrow> sublist f t \<and> 12 \<le> length f \<and> \<not> scaffold (hd f) \<and> \<not> scaffold (last f)"

lemma strip_by_ends:
  assumes ne: "strip_by p xs \<noteq> []"
  shows "\<not> p (hd (strip_by p xs)) \<and> \<not> p (last (strip_by p xs))"
proof -
  have "dropWhile p (rev (dropWhile p xs)) \<noteq> []" using ne by (simp add: strip_by_def)
  from hd_dropWhile [OF this] have "\<not> p (last (strip_by p xs))" by (simp add: strip_by_def last_rev)
  moreover have ys: "dropWhile p xs \<noteq> []" by (metis ne strip_by_prefix prefix_Nil)
  moreover have "hd (strip_by p xs) = hd (dropWhile p xs)"
    using ne strip_by_prefix [of p xs] by (auto simp: prefix_def)
  ultimately show ?thesis using hd_dropWhile [OF ys] by simp
qed

lemma add_fragments_keeps:
  assumes "distinct qs" "qs \<noteq> []" "length qs < 4" "\<forall>f \<in> set (tl qs). clause_of t f" "\<forall>f \<in> set fs. sublist f t"
  shows "distinct (add_fragments qs fs) \<and> length (add_fragments qs fs) \<le> 4 \<and> hd (add_fragments qs fs) = hd qs
    \<and> (\<forall>f \<in> set (tl (add_fragments qs fs)). clause_of t f) \<and> add_fragments qs fs \<noteq> []"
  using assms
proof (induction fs arbitrary: qs)
  case (Cons f fs)
  let ?n = "strip_by scaffold f"
  have new: "clause_of t ?n" if "12 \<le> length ?n"
  proof -
    from that have "strip_by scaffold f \<noteq> []" by auto
    moreover have "sublist (strip_by scaffold f) t"
      using Cons.prems(5) sublist_order.order_trans [OF strip_by_infix] by auto
    ultimately show ?thesis using that strip_by_ends by (simp add: clause_of_def)
  qed
  let ?qs = "if 12 \<le> length ?n \<and> ?n \<notin> set qs then qs @ [?n] else qs"
  have q: "distinct ?qs" "?qs \<noteq> []" "length ?qs \<le> 4" "hd ?qs = hd qs" "\<forall>f \<in> set (tl ?qs). clause_of t f"
    using Cons.prems new by auto
  show ?case
  proof (cases "length ?qs = 4")
    case True
    then show ?thesis using q by (simp add: Let_def)
  next
    case False
    then show ?thesis using Cons.IH [of ?qs] q Cons.prems(5) by (simp add: Let_def)
  qed
qed auto

text \<open>Planning never fails on a question that is not blank. The plan has one to four queries, all different; the first
  is the normalised question, and each further one is a clause of it: a piece of at least twelve characters that
  starts and ends outside the punctuation around it. A direct question has no further query.\<close>

lemma plan_query_sound:
  assumes "py_strip q \<noteq> []"
  shows "\<exists>p. plan_query u q = Some p \<and> length (qp_queries p) \<le> 4 \<and> distinct (qp_queries p)
    \<and> (\<exists>rest. qp_queries p = py_strip (uc_nfc u q) # rest \<and> (\<forall>f \<in> set rest. clause_of (py_strip (uc_nfc u q)) f)
         \<and> (qp_kind p = DIRECT \<longrightarrow> rest = []))
    \<and> qp_needs p = qp_queries p \<and> \<not> qp_planner p"
proof -
  let ?t = "py_strip (uc_nfc u q)"
  let ?qs = "if plan_kind u ?t = DIRECT then [?t] else add_fragments [?t] (rx_split_from (clause_rx u) ?t 0)"
  have "distinct ?qs \<and> length ?qs \<le> 4 \<and> hd ?qs = ?t \<and> (\<forall>f \<in> set (tl ?qs). clause_of ?t f) \<and> ?qs \<noteq> []"
    using add_fragments_keeps [of "[?t]" ?t "rx_split_from (clause_rx u) ?t 0"] split_infix by auto
  then obtain rest where "?qs = ?t # rest" "distinct ?qs" "length ?qs \<le> 4" "\<forall>f \<in> set rest. clause_of ?t f"
    by (cases ?qs) auto
  moreover from this(1) have "plan_kind u ?t = DIRECT \<longrightarrow> rest = []" by auto
  ultimately show ?thesis
    using assms by (auto simp: plan_query_def Let_def make_plan_def simp del: add_fragments.simps)
qed

lemma plan_of_letters:
  "\<exists>p. plan_query sample_unicode [65, 66] = Some p \<and> length (qp_queries p) \<le> 4 \<and> distinct (qp_queries p)"
  using plan_query_sound [of "[65, 66]" sample_unicode] by (auto simp: strip_by_def py_space_def)

end
