(* ===== verification/Retrieval.thy ===== *)
theory Retrieval
  imports LegalPaths Expansion
begin

text \<open>
  Answering a query from the indexed artifacts of the device (\<open>app/local_compute/retrieval.py\<close>, \<open>hierarchy.py\<close>,
  \<open>answer_modes.py\<close>, \<open>reranker.py\<close> and \<open>app/retrieval/query_embedder.py\<close>). A query reads the catalog and the artifact
  files and changes neither, so it is a function of the world, which stays as it is while the query runs. The
  embedding model, the FTS5 match, the reranker and the JSON columns are parameters; document ids are canonical UUIDs.
\<close>

section \<open>Answer modes\<close>

datatype answer_mode = EXACT | BALANCED | EXPLORE

text \<open>What a caller may pass as the mode.\<close>

datatype mode_arg = No_Mode | Mode answer_mode | Mode_Text string | Other_Value

fun mode_value :: "answer_mode \<Rightarrow> string" where
  "mode_value EXACT = ''EXACT''"
| "mode_value BALANCED = ''BALANCED''"
| "mode_value EXPLORE = ''EXPLORE''"

definition mode_from_value :: "mode_arg \<Rightarrow> py_exn + answer_mode" where
  "mode_from_value v = (case v of No_Mode \<Rightarrow> Inr BALANCED | Mode m \<Rightarrow> Inr m
     | Mode_Text s \<Rightarrow> (case find (\<lambda>m. mode_value m = map to_upper s) [EXACT, BALANCED, EXPLORE] of
         None \<Rightarrow> Inl (compute_exn INVALID_REQUEST) | Some m \<Rightarrow> Inr m)
     | Other_Value \<Rightarrow> Inl (compute_exn INVALID_REQUEST))"

record mode_profile =
  mp_mode :: answer_mode
  mp_dense :: nat
  mp_lexical :: nat
  mp_final :: nat
  mp_dense_weight :: rat
  mp_lexical_weight :: rat
  mp_anchors :: nat
  mp_children :: nat
  mp_budget :: int
  mp_instruction :: string

fun mode_instruction :: "answer_mode \<Rightarrow> string" where
  "mode_instruction EXACT = ''Answer only propositions directly supported by the supplied evidence. You may combine directly supported facts and deterministic calculations, but do not add inferences.''"
| "mode_instruction BALANCED = ''Synthesize the supplied evidence faithfully. Prefer the language used in the user's question.''"
| "mode_instruction EXPLORE = ''You may provide clearly labeled 'Inference from the document:' reasoning, but never add unsupported facts. Prefer the language used in the user's question.''"

definition profile_of :: "answer_mode \<Rightarrow> mode_profile" where
  "profile_of m = \<lparr>mp_mode = m, mp_dense = 50, mp_lexical = 50, mp_final = 10, mp_dense_weight = 6 / 5,
     mp_lexical_weight = 4 / 5, mp_anchors = 10, mp_children = 4, mp_budget = 4096, mp_instruction = mode_instruction m\<rparr>"

definition answer_mode_profile :: "mode_arg \<Rightarrow> py_exn + mode_profile" where
  "answer_mode_profile v = and_then (mode_from_value v) (\<lambda>m. Inr (profile_of m))"

section \<open>Parameters\<close>

text \<open>\<open>qe_match\<close> gives the rows of the index that match an FTS5 expression, with their \<open>bm25\<close>; \<open>qe_metadata\<close> and \<open>qe_split\<close> what
  the JSON columns of a chunk hold besides its place; the reranker scores (query, text) pairs and may fail.\<close>

record query_env =
  qe_tables :: unicode_tables
  qe_model :: bool
  qe_tokens :: "pytext \<Rightarrow> nat"
  qe_max_tokens :: nat
  qe_encode :: "pytext \<Rightarrow> vector option"
  qe_match :: "(ident \<times> pytext) list \<Rightarrow> pytext \<Rightarrow> (ident \<times> rat) list"
  qe_metadata :: "chunk_row \<Rightarrow> metadata"
  qe_split :: "chunk_row \<Rightarrow> metadata"
  qe_reranker :: "(nat \<times> ((pytext \<times> pytext) list \<Rightarrow> rat list option)) option"

section \<open>Queries\<close>

datatype embed_error = Query_Too_Long | Embedding_Dependency

definition encode_query :: "query_env \<Rightarrow> pytext \<Rightarrow> embed_error + vector" where
  "encode_query env q = (let p = ascii ''query: '' @ q in
     if qe_max_tokens env < qe_tokens env p then Inl Query_Too_Long
     else (case qe_encode env p of None \<Rightarrow> Inl Embedding_Dependency
       | Some v \<Rightarrow> if valid_vector v then Inr v else Inl Embedding_Dependency))"

text \<open>\<open>None\<close> in the list is an element that is no text.\<close>

datatype queries_arg = No_Queries | Bare_Text | Queries "pytext option list"

fun add_queries :: "pytext option list \<Rightarrow> pytext list \<Rightarrow> py_exn + pytext list" where
  "add_queries [] vs = Inr vs"
| "add_queries (None # qs) vs = Inl (compute_exn INVALID_REQUEST)"
| "add_queries (Some q # qs) vs = (if py_strip q = [] then Inl (compute_exn INVALID_REQUEST)
     else add_queries qs (if py_strip q \<in> set vs then vs else vs @ [py_strip q]))"

definition normalized_queries :: "pytext \<Rightarrow> queries_arg \<Rightarrow> py_exn + pytext list" where
  "normalized_queries q arg = (case arg of No_Queries \<Rightarrow> Inr [q] | Bare_Text \<Rightarrow> Inl (compute_exn INVALID_REQUEST)
     | Queries qs \<Rightarrow> and_then (add_queries qs [q]) (\<lambda>vs. Inr (take 4 vs)))"

fun encode_all :: "query_env \<Rightarrow> pytext list \<Rightarrow> embed_error + vector list" where
  "encode_all env [] = Inr []"
| "encode_all env (q # qs) = and_then (encode_query env q) (\<lambda>v. and_then (encode_all env qs) (\<lambda>vs. Inr (v # vs)))"

text \<open>The first \<open>try\<close> of \<open>query_document_set_with_diagnostics\<close>: whatever is raised in it is reported as a missing model.\<close>

definition embed_queries :: "query_env \<Rightarrow> pytext \<Rightarrow> queries_arg \<Rightarrow> py_exn + pytext list \<times> vector list" where
  "embed_queries env q arg = (if \<not> qe_model env then Inl (compute_exn MODEL_ARTIFACT_UNAVAILABLE)
     else (case normalized_queries q arg of Inl _ \<Rightarrow> Inl (compute_exn MODEL_ARTIFACT_UNAVAILABLE)
       | Inr qs \<Rightarrow> (case encode_all env qs of Inl _ \<Rightarrow> Inl (compute_exn MODEL_ARTIFACT_UNAVAILABLE)
         | Inr vs \<Rightarrow> Inr (qs, vs))))"

lemma run_shorter: "dropWhile q t = c # cs \<Longrightarrow> length (dropWhile p cs) < length t"
  using length_dropWhile_le [of p cs] length_dropWhile_le [of q t] by simp

text \<open>\<open>re.findall\<close> of a class of characters, one or more: the maximal runs.\<close>

function word_runs :: "(codepoint \<Rightarrow> bool) \<Rightarrow> pytext \<Rightarrow> pytext list" where
  "word_runs p t = (case dropWhile (\<lambda>c. \<not> p c) t of [] \<Rightarrow> []
     | c # cs \<Rightarrow> (c # takeWhile p cs) # word_runs p (dropWhile p cs))"
  by pat_completeness auto
termination
  by (relation "measure (\<lambda>(p, t). length t)") (auto intro: run_shorter)

declare word_runs.simps [simp del]

definition query_terms :: "unicode_tables \<Rightarrow> pytext \<Rightarrow> pytext list" where
  "query_terms u t = dedupe (word_runs (viet_word u) (uc_casefold u (uc_nfc u t)))"

definition match_expression :: "pytext list \<Rightarrow> pytext" where
  "match_expression terms = join_with (ascii '' OR '') (map (\<lambda>t. [34] @ filter (\<lambda>c. c \<noteq> 34) t @ [34]) terms)"

section \<open>Loading the artifacts\<close>

record artifact_row =
  rw_chunk :: chunk_row
  rw_embedding :: embedding_row
  rw_path :: "legal_path option"

record lexical_hit =
  lh_chunk :: ident
  lh_document :: ident
  lh_bm25 :: rat
  lh_rank :: nat
  lh_relative :: rat

abbreviation row_id :: "artifact_row \<Rightarrow> ident" where
  "row_id r \<equiv> cr_id (rw_chunk r)"

definition load_rows :: "artifact_db \<Rightarrow> resolver \<Rightarrow> artifact_row list" where
  "load_rows db rs = concat (map (\<lambda>c. map (\<lambda>e. \<lparr>rw_chunk = c, rw_embedding = e,
       rw_path = resolve_for_span rs (Some (ascii (cr_unit c))) (Some (int (cr_char_start c))) (Some (int (cr_char_end c)))\<rparr>)
     (filter (\<lambda>e. em_chunk e = cr_id c) (ad_embeddings db))) (ad_chunks db))"

text \<open>\<open>best\<close> is \<open>max(...) or 1.0\<close>; the ranks count the rows of the match, those of unknown chunks included.\<close>

definition best_score :: "(ident \<times> rat) list \<Rightarrow> rat" where
  "best_score raw = (let m = Max (abs ` set (map snd raw)) in if m = 0 then 1 else m)"

definition lexical_stream ::
  "query_env \<Rightarrow> artifact_db \<Rightarrow> (ident \<times> artifact_row) list \<Rightarrow> ident \<Rightarrow> pytext list \<Rightarrow> nat \<Rightarrow> lexical_hit list" where
  "lexical_stream env db rows d terms limit = (let raw = take limit (sort_key snd (sort_key fst
         (qe_match env (ad_fts db) (match_expression terms))))
     in map (\<lambda>(i, c, b). \<lparr>lh_chunk = c, lh_document = d, lh_bm25 = b, lh_rank = i, lh_relative = \<bar>b\<bar> / best_score raw\<rparr>)
          (filter (\<lambda>(i, c, b). map_of rows c \<noteq> None) (enumerate 1 raw)))"

record query_pool =
  pl_artifacts :: "(ident \<times> ident) list"
  pl_resolvers :: "(ident \<times> resolver) list"
  pl_by_chunk :: "(ident \<times> artifact_row) list"
  pl_rows :: "artifact_row list"
  pl_streams :: "lexical_hit list list list"

definition dict_update :: "('k \<times> 'v) list \<Rightarrow> ('k \<times> 'v) list \<Rightarrow> ('k \<times> 'v) list" where
  "dict_update xs d = fold (\<lambda>(k, v). AList.update k v) xs d"

definition add_streams ::
  "query_env \<Rightarrow> artifact_db \<Rightarrow> (ident \<times> artifact_row) list \<Rightarrow> ident \<Rightarrow> nat \<Rightarrow> pytext list
     \<Rightarrow> lexical_hit list list list \<Rightarrow> lexical_hit list list list" where
  "add_streams env db rows d limit queries streams = map2 (\<lambda>q ss. let terms = query_terms (qe_tables env) q in
     if terms = [] then ss else ss @ [lexical_stream env db rows d terms limit]) queries streams"

definition extend_pool ::
  "query_env \<Rightarrow> mode_profile \<Rightarrow> pytext list \<Rightarrow> ident \<Rightarrow> ident \<Rightarrow> artifact_db \<Rightarrow> resolver \<Rightarrow> query_pool \<Rightarrow> query_pool" where
  "extend_pool env prof queries d a db rs pl = (let rows = load_rows db rs; mine = dict_of (map (\<lambda>r. (row_id r, r)) rows) in
     \<lparr>pl_artifacts = AList.update d a (pl_artifacts pl), pl_resolvers = AList.update d rs (pl_resolvers pl),
      pl_by_chunk = dict_update mine (pl_by_chunk pl), pl_rows = pl_rows pl @ rows,
      pl_streams = add_streams env db mine d (mp_lexical prof) queries (pl_streams pl)\<rparr>)"

text \<open>One turn of the loop over the requested documents. A missing file or table is an error of SQLite.\<close>

definition load_document ::
  "query_env \<Rightarrow> world \<Rightarrow> mode_profile \<Rightarrow> pytext list \<Rightarrow> ident \<Rightarrow> query_pool \<Rightarrow> py_exn + query_pool" where
  "load_document env w prof queries d pl = (case get_document (w_catalog w) d of
       None \<Rightarrow> Inl (compute_exn DOCUMENT_NOT_FOUND)
     | Some x \<Rightarrow> if doc_state x \<noteq> DOC_INDEX_READY then Inl (compute_exn CAPABILITY_UNAVAILABLE)
       else (case doc_artifact x of None \<Rightarrow> Inl (compute_exn CAPABILITY_UNAVAILABLE)
       | Some a \<Rightarrow> (case get_artifact (w_catalog w) a of None \<Rightarrow> Inl (compute_exn CAPABILITY_UNAVAILABLE)
       | Some art \<Rightarrow> (case map_of (w_artifacts w) (art_path art) of None \<Rightarrow> Inl OtherException
       | Some db \<Rightarrow> (case artifact_resolver (qe_tables env) db of None \<Rightarrow> Inl ValueError
       | Some rs \<Rightarrow> if \<not> ad_index_tables db then Inl OtherException
         else Inr (extend_pool env prof queries d a db rs pl))))))"

fun load_documents ::
  "query_env \<Rightarrow> world \<Rightarrow> mode_profile \<Rightarrow> pytext list \<Rightarrow> ident list \<Rightarrow> query_pool \<Rightarrow> py_exn + query_pool" where
  "load_documents env w prof queries [] pl = Inr pl"
| "load_documents env w prof queries (d # ds) pl =
     and_then (load_document env w prof queries d pl) (load_documents env w prof queries ds)"

text \<open>\<open>document_ids or self._queryable_ids()\<close>: no list and the empty list mean all queryable documents.\<close>

definition queryable_ids :: "catalog \<Rightarrow> ident list" where
  "queryable_ids c = sort (map doc_id (filter (\<lambda>x. doc_state x = DOC_INDEX_READY) (cat_documents c)))"

definition requested_ids :: "catalog \<Rightarrow> ident list option \<Rightarrow> ident list" where
  "requested_ids c ids = (case ids of Some (d # ds) \<Rightarrow> d # ds | _ \<Rightarrow> queryable_ids c)"

section \<open>Ranking\<close>

type_synonym branch_ranks = "(ident \<times> rat \<times> nat) list"

definition vector_component :: "rat option \<Rightarrow> rat" where
  "vector_component x = (case x of None \<Rightarrow> 0 | Some q \<Rightarrow> q)"

definition dot :: "vector \<Rightarrow> vector \<Rightarrow> rat" where
  "dot v w = sum_list (map2 (\<lambda>a b. vector_component a * vector_component b) v w)"

definition valid_artifact_row :: "artifact_row \<Rightarrow> bool" where
  "valid_artifact_row r \<longleftrightarrow> em_dimension (rw_embedding r) = 768 \<and> em_normalized (rw_embedding r) = 1
     \<and> em_version (rw_embedding r) = index_version \<and> valid_vector (em_vector (rw_embedding r))"

definition global_dense_ranks :: "(rat \<times> artifact_row) list \<Rightarrow> nat \<Rightarrow> branch_ranks" where
  "global_dense_ranks pool limit = dict_of (map (\<lambda>(i, s, r). (row_id r, s, i))
     (enumerate 1 (take limit (sort_key (\<lambda>x. - fst x) (sort_key (\<lambda>x. row_id (snd x)) pool)))))"

definition better_rank :: "rat \<times> nat \<Rightarrow> rat \<times> nat \<Rightarrow> bool" where
  "better_rank new old \<longleftrightarrow> snd new < snd old \<or> snd new = snd old \<and> - fst new < - fst old"

definition merge_branch_ranks :: "branch_ranks \<Rightarrow> branch_ranks \<Rightarrow> branch_ranks" where
  "merge_branch_ranks existing incoming = fold (\<lambda>(c, x) m. (case map_of m c of None \<Rightarrow> AList.update c x m
     | Some y \<Rightarrow> if better_rank x y then AList.update c x m else m)) incoming existing"

text \<open>Ranks and scores of the lexical branch are two dicts with the same keys; here they are one.\<close>

definition global_lexical_ranks :: "lexical_hit list list \<Rightarrow> branch_ranks" where
  "global_lexical_ranks streams = fold (\<lambda>(i, h). od_setdefault (lh_chunk h) (lh_relative h, i))
     (enumerate 1 (sort_key lh_rank (sort_key (\<lambda>h. - lh_relative h) (sort_key lh_document (sort_key lh_chunk (concat streams)))))) []"

text \<open>A branch merges the ranks of all queries and notes the first hit of each.\<close>

definition note_branch :: "branch_ranks \<Rightarrow> branch_ranks \<times> ident list \<Rightarrow> branch_ranks \<times> ident list" where
  "note_branch ranked s = (merge_branch_ranks (fst s) ranked, snd s @ (case ranked of [] \<Rightarrow> [] | x # _ \<Rightarrow> [fst x]))"

definition dense_branch :: "mode_profile \<Rightarrow> artifact_row list \<Rightarrow> vector list \<Rightarrow> py_exn + branch_ranks \<times> ident list" where
  "dense_branch prof rows vectors = (if vectors \<noteq> [] \<and> \<not> list_all valid_artifact_row rows
     then Inl (compute_exn INTERNAL_COMPUTE_ERROR)
     else Inr (fold (\<lambda>v. note_branch (global_dense_ranks (map (\<lambda>r. (dot v (em_vector (rw_embedding r)), r)) rows) (mp_dense prof)))
       vectors ([], [])))"

definition lexical_branch :: "lexical_hit list list list \<Rightarrow> ident list \<Rightarrow> branch_ranks \<times> ident list" where
  "lexical_branch streams anchors = fold (\<lambda>ss. note_branch (global_lexical_ranks ss)) streams ([], anchors)"

section \<open>Fusion\<close>

record fused_item =
  fz_score :: rat
  fz_chunk :: ident
  fz_row :: artifact_row
  fz_dense :: "(rat \<times> nat) option"
  fz_lexical :: "(rat \<times> nat) option"

definition weighted_score :: "rat \<Rightarrow> (rat \<times> nat) option \<Rightarrow> rat" where
  "weighted_score weight s = (case s of None \<Rightarrow> 0 | Some (_, n) \<Rightarrow> weight / (60 + rat_of_nat n))"

definition fuse_item ::
  "mode_profile \<Rightarrow> (ident \<times> artifact_row) list \<Rightarrow> branch_ranks \<Rightarrow> branch_ranks \<Rightarrow> ident \<Rightarrow> py_exn + fused_item list" where
  "fuse_item prof rows dense lexical c = (case map_of rows c of None \<Rightarrow> Inl OtherException
     | Some r \<Rightarrow> Inr [\<lparr>fz_score = weighted_score (mp_dense_weight prof) (map_of dense c)
          + weighted_score (mp_lexical_weight prof) (map_of lexical c),
         fz_chunk = c, fz_row = r, fz_dense = map_of dense c, fz_lexical = map_of lexical c\<rparr>])"

definition fuse_ranks ::
  "mode_profile \<Rightarrow> (ident \<times> artifact_row) list \<Rightarrow> branch_ranks \<Rightarrow> branch_ranks \<Rightarrow> py_exn + fused_item list" where
  "fuse_ranks prof rows dense lexical = and_then
     (collect_results (fuse_item prof rows dense lexical) (dedupe (map fst dense @ map fst lexical)))
     (\<lambda>items. Inr (sort_key (\<lambda>x. - fz_score x) (sort_key fz_chunk items)))"

section \<open>Reranking\<close>

record rerank_result =
  rk_ids :: "ident list"
  rk_fallback :: bool

definition rank_candidates ::
  "nat \<Rightarrow> ((pytext \<times> pytext) list \<Rightarrow> rat list option) \<Rightarrow> pytext \<Rightarrow> (ident \<times> pytext) list \<Rightarrow> rerank_result" where
  "rank_candidates limit predict q cands = (let bounded = take limit cands in
     if bounded = [] then \<lparr>rk_ids = [], rk_fallback = False\<rparr>
     else (case predict (map (\<lambda>(_, t). (q, t)) bounded) of
         None \<Rightarrow> \<lparr>rk_ids = map fst bounded, rk_fallback = True\<rparr>
       | Some scores \<Rightarrow> \<lparr>rk_ids = map (fst \<circ> fst) (sort_key (\<lambda>x. - snd x) (sort_key (fst \<circ> fst) (zip bounded scores))),
           rk_fallback = False\<rparr>))"

definition by_item :: "fused_item list \<Rightarrow> (ident \<times> fused_item) list" where
  "by_item items = dict_of (map (\<lambda>x. (fz_chunk x, x)) items)"

definition rerank :: "query_env \<Rightarrow> pytext \<Rightarrow> fused_item list \<Rightarrow> fused_item list \<times> bool" where
  "rerank env q fused = (case qe_reranker env of None \<Rightarrow> (fused, False)
     | Some (limit, predict) \<Rightarrow> (let r = rank_candidates limit predict q (map (\<lambda>x. (fz_chunk x, cr_content (rw_chunk (fz_row x)))) fused)
         in (List.map_filter (map_of (by_item fused)) (rk_ids r), rk_fallback r)))"

section \<open>Selection\<close>

text \<open>First the coverage anchors, then the rest in fused order; each loop stops when the number is reached exactly.\<close>

fun pick_anchors :: "nat \<Rightarrow> (ident \<times> fused_item) list \<Rightarrow> ident list \<Rightarrow> fused_item list \<Rightarrow> fused_item list" where
  "pick_anchors n pool [] sel = sel"
| "pick_anchors n pool (c # cs) sel = (let sel' = (case map_of pool c of
         Some x \<Rightarrow> if c \<notin> set (map fz_chunk sel) then sel @ [x] else sel | None \<Rightarrow> sel)
     in if length sel' = n then sel' else pick_anchors n pool cs sel')"

fun pick_fused :: "nat \<Rightarrow> fused_item list \<Rightarrow> fused_item list \<Rightarrow> fused_item list" where
  "pick_fused n [] sel = sel"
| "pick_fused n (x # xs) sel = (let sel' = (if fz_chunk x \<notin> set (map fz_chunk sel) then sel @ [x] else sel)
     in if length sel' = n then sel' else pick_fused n xs sel')"

definition select_items :: "nat \<Rightarrow> fused_item list \<Rightarrow> ident list \<Rightarrow> fused_item list" where
  "select_items n fused anchors = pick_fused n fused (pick_anchors n (by_item fused) anchors [])"

section \<open>Results\<close>

definition chunk_provenance :: "query_env \<Rightarrow> chunk_row \<Rightarrow> metadata" where
  "chunk_provenance env r = [(''document_id'', MStr (ascii (cr_document r))), (''page_start'', MNum (rat_of_int (cr_page_start r))),
     (''page_end'', MNum (rat_of_int (cr_page_end r))), (''char_start'', MNum (rat_of_nat (cr_char_start r))),
     (''char_end'', MNum (rat_of_nat (cr_char_end r)))] @ qe_split env r"

definition with_path :: "legal_path \<Rightarrow> metadata \<Rightarrow> metadata" where
  "with_path p m = (let m1 = AList.update ''authoritative_legal_path'' (MDict (path_metadata p)) m in
     if lp_labels p = [] then m1
     else AList.update ''legal_hierarchy_unit'' (MStr (last (lp_labels p)))
       (AList.update ''legal_hierarchy_path'' (MList (map MStr (lp_labels p))) m1))"

definition base_result :: "query_env \<Rightarrow> nat \<Rightarrow> fused_item \<Rightarrow> candidate_row" where
  "base_result env n x = (let r = rw_chunk (fz_row x) in
     \<lparr>ca_chunk = fz_chunk x, ca_document = cr_document r, ca_content = cr_content r,
      ca_metadata = (case rw_path (fz_row x) of None \<Rightarrow> qe_metadata env r | Some p \<Rightarrow> with_path p (qe_metadata env r)),
      ca_provenance = chunk_provenance env r,
      ca_dense_score = map_option fst (fz_dense x), ca_dense_rank = map_option (int \<circ> snd) (fz_dense x),
      ca_lexical_score = map_option fst (fz_lexical x), ca_lexical_rank = map_option (int \<circ> snd) (fz_lexical x),
      ca_fusion = Some (fz_score x), ca_rank = Some (int n), ca_order = int n, ca_origin = RETRIEVAL,
      ca_unit = Some (cr_unit r), ca_relation = None, ca_depth = 0, ca_anchor_chunk = None, ca_anchor_unit = None,
      ca_anchor_rank = None, ca_references = [], ca_final_rank = Some (int n)\<rparr>)"

text \<open>The artifact of every base result is looked up before the candidates are validated.\<close>

definition base_results :: "query_env \<Rightarrow> (ident \<times> ident) list \<Rightarrow> fused_item list \<Rightarrow> py_exn + candidate_row list" where
  "base_results env artifacts items = (
     if \<exists>x \<in> set items. map_of artifacts (cr_document (rw_chunk (fz_row x))) = None then Inl OtherException
     else (let base = map (\<lambda>(n, x). base_result env n x) (enumerate 1 items)
       in if list_all candidate_valid base then Inr base else Inl ValueError))"

section \<open>The repository of direct children\<close>

text \<open>\<open>_connect_artifact\<close> and \<open>_artifact_path\<close>: the row must be the active artifact of the document.\<close>

definition connect_artifact :: "world \<Rightarrow> ident \<Rightarrow> ident \<Rightarrow> artifact_db option" where
  "connect_artifact w d a = (case get_artifact (w_catalog w) a of None \<Rightarrow> None
     | Some art \<Rightarrow> (case get_document (w_catalog w) (art_document art) of None \<Rightarrow> None
       | Some x \<Rightarrow> if art_document art \<noteq> d \<or> doc_artifact x \<noteq> Some a
             \<or> art_state art \<notin> {ART_PREPARED_NOT_INDEXED, ART_INDEX_READY} then None
           else map_of (w_artifacts w) (art_path art)))"

text \<open>An error is \<open>Inl ()\<close>: the expansion treats all of them alike.\<close>

fun find_anchor ::
  "world \<Rightarrow> (ident \<times> ident) list \<Rightarrow> ident list \<Rightarrow> ident \<Rightarrow> unit + (ident \<times> artifact_db \<times> ident) option" where
  "find_anchor w [] allowed c = Inr None"
| "find_anchor w ((d, a) # rest) allowed c = (if allowed \<noteq> [] \<and> d \<notin> set allowed then find_anchor w rest allowed c
     else (case connect_artifact w d a of None \<Rightarrow> Inl ()
       | Some db \<Rightarrow> (case find (\<lambda>r. cr_id r = c) (ad_chunks db) of None \<Rightarrow> find_anchor w rest allowed c
         | Some r \<Rightarrow> if cr_document r \<noteq> d then Inl () else Inr (Some (d, db, cr_unit r)))))"

definition child_hit_of :: "query_env \<Rightarrow> ident \<Rightarrow> ident \<Rightarrow> ident \<Rightarrow> unit_row \<times> chunk_row \<Rightarrow> child_hit" where
  "child_hit_of env c u d x = (case x of (child, r) \<Rightarrow>
     \<lparr>ch_anchor = c, ch_anchor_unit = u, ch_unit = un_id child, ch_document = d, ch_char_start = un_start child,
      ch_type = un_type child, ch_number = Some (un_number child), ch_title = Some (un_title child), ch_chunk = cr_id r,
      ch_index = cr_index r, ch_content = cr_content r, ch_metadata = qe_metadata env r,
      ch_provenance = chunk_provenance env r\<rparr>)"

definition child_rows :: "artifact_db \<Rightarrow> ident \<Rightarrow> (unit_row \<times> chunk_row) list" where
  "child_rows db u = sort_key (un_start \<circ> fst) (sort_key (un_id \<circ> fst) (sort_key (cr_index \<circ> snd) (sort_key (cr_id \<circ> snd)
     (concat (map (\<lambda>child. map (Pair child) (filter (\<lambda>r. cr_unit r = un_id child) (ad_chunks db)))
       (filter (\<lambda>child. un_parent child = Some u \<and> un_id child \<noteq> u) (ad_units db)))))))"

definition children_for_anchor ::
  "query_env \<Rightarrow> ident \<Rightarrow> ident \<times> artifact_db \<times> ident \<Rightarrow> unit + child_hit list" where
  "children_for_anchor env c found = (case found of (d, db, u) \<Rightarrow>
     if u = [] then Inl ()
     else if \<exists>x \<in> set (child_rows db u). cr_document (snd x) \<noteq> d then Inl ()
     else Inr (map (child_hit_of env c u d) (child_rows db u)))"

definition lookup_direct_children :: "query_env \<Rightarrow> world \<Rightarrow> (ident \<times> ident) list \<Rightarrow> child_lookup" where
  "lookup_direct_children env w artifacts anchors documents = collect_results (\<lambda>c.
     and_then (find_anchor w artifacts documents c) (\<lambda>found. case found of None \<Rightarrow> Inr [] | Some f \<Rightarrow> children_for_anchor env c f))
     anchors"

section \<open>The query\<close>

definition meta_int :: "metadata \<Rightarrow> string \<Rightarrow> int option" where
  "meta_int m k = (case map_of m k of Some (MNum q) \<Rightarrow> Some \<lfloor>q\<rfloor> | _ \<Rightarrow> None)"

definition enrich_path :: "resolver option \<Rightarrow> candidate_row \<Rightarrow> candidate_row" where
  "enrich_path resolver c = (case resolver of None \<Rightarrow> c
     | Some rs \<Rightarrow> (case resolve_for_span rs (map_option ascii (ca_unit c)) (meta_int (ca_provenance c) ''char_start'')
           (meta_int (ca_provenance c) ''char_end'') of
         None \<Rightarrow> c
       | Some p \<Rightarrow> c\<lparr>ca_metadata := (let m = with_path p (ca_metadata c) in if lp_labels p \<noteq> [] then m
           else AList.delete ''legal_hierarchy_unit'' (AList.delete ''legal_hierarchy_path'' m))\<rparr>))"

record query_result =
  qr_results :: "(candidate_row \<times> ident) list"
  qr_diag :: expansion_diag
  qr_profile :: mode_profile
  qr_dense_count :: nat
  qr_lexical_count :: nat
  qr_query_count :: nat
  qr_coverage :: "ident list"
  qr_fallback :: bool

definition finish_query ::
  "query_env \<Rightarrow> world \<Rightarrow> ident list \<Rightarrow> query_pool \<Rightarrow> candidate_row list \<Rightarrow> py_exn + (candidate_row \<times> ident) list \<times> expansion_diag" where
  "finish_query env w requested pl base =
     (case expand (lookup_direct_children env w (pl_artifacts pl)) True base requested True of
        Inl _ \<Rightarrow> Inl TypeError
      | Inr (out, d) \<Rightarrow> if \<exists>c \<in> set out. map_of (pl_artifacts pl) (ca_document c) = None then Inl OtherException
          else Inr (map (\<lambda>c. (enrich_path (map_of (pl_resolvers pl) (ca_document c)) c,
            the (map_of (pl_artifacts pl) (ca_document c)))) out, d))"

definition rank_pool ::
  "query_env \<Rightarrow> mode_profile \<Rightarrow> vector list \<Rightarrow> query_pool \<Rightarrow> py_exn + fused_item list \<times> ident list \<times> nat" where
  "rank_pool env prof vectors pl = and_then (dense_branch prof (pl_rows pl) vectors) (\<lambda>(dense, anchors1).
     case lexical_branch (pl_streams pl) anchors1 of (lexical, anchors) \<Rightarrow>
       and_then (fuse_ranks prof (pl_by_chunk pl) dense lexical) (\<lambda>fused. Inr (fused, anchors, length lexical)))"

definition query_document_set ::
  "query_env \<Rightarrow> world \<Rightarrow> pytext \<Rightarrow> ident list option \<Rightarrow> mode_arg \<Rightarrow> queries_arg \<Rightarrow> py_exn + query_result" where
  "query_document_set env w q ids mode arg = (
     if py_strip q = [] then Inl (compute_exn INVALID_REQUEST)
     else and_then (answer_mode_profile mode) (\<lambda>prof.
       and_then (embed_queries env q arg) (\<lambda>(queries, vectors). (let requested = requested_ids (w_catalog w) ids in
       and_then (load_documents env w prof queries requested
           \<lparr>pl_artifacts = [], pl_resolvers = [], pl_by_chunk = [], pl_rows = [], pl_streams = map (\<lambda>_. []) queries\<rparr>) (\<lambda>pl.
       and_then (rank_pool env prof vectors pl) (\<lambda>(fused, anchors, hits).
         case rerank env q fused of (ranked, fallback) \<Rightarrow>
           and_then (base_results env (pl_artifacts pl) (select_items (mp_final prof) ranked anchors)) (\<lambda>base.
             and_then (finish_query env w requested pl base) (\<lambda>(results, diag).
               Inr \<lparr>qr_results = results, qr_diag = diag, qr_profile = prof, qr_dense_count = length (pl_rows pl),
                 qr_lexical_count = hits, qr_query_count = length queries,
                 qr_coverage = filter (\<lambda>c. map_of (by_item ranked) c \<noteq> None) anchors, qr_fallback = fallback\<rparr>))))))))"

section \<open>Dicts built from dicts\<close>

lemma dict_update_simps [simp]:
  "dict_update [] m = m" "dict_update (x # xs) m = dict_update xs (AList.update (fst x) (snd x) m)"
  by (simp_all add: dict_update_def split: prod.split)

lemma set_dict_update: "set (dict_update xs m) \<subseteq> set xs \<union> set m"
proof (induction xs arbitrary: m)
  case (Cons x xs)
  then show ?case using set_alist_update [of "fst x" "snd x" m] by fastforce
qed simp

lemma keys_dict_update: "fst ` set (dict_update xs m) = fst ` set xs \<union> fst ` set m"
proof (induction xs arbitrary: m)
  case (Cons x xs)
  then show ?case by (simp add: dom_update)
qed simp

lemma dict_of_update: "dict_of xs = dict_update xs []"
  by (simp add: dict_of_def dict_update_def)

lemma set_dict_of: "set (dict_of xs) \<subseteq> set xs"
  using set_dict_update [of xs "[]"] by (simp add: dict_of_update)

lemma keys_dict_of: "fst ` set (dict_of xs) = fst ` set xs"
  by (simp add: dict_of_update keys_dict_update)

lemma distinct_dict_of: "distinct (map fst (dict_of xs))"
proof -
  have "distinct (map fst m) \<Longrightarrow> distinct (map fst (dict_update xs m))" for m :: "('a \<times> 'b) list"
    by (induction xs arbitrary: m) (simp_all add: distinct_update)
  then show ?thesis by (simp add: dict_of_update)
qed

lemma hd_dict_of:
  assumes "xs \<noteq> []"
  shows "\<exists>v rest. dict_of xs = (fst (hd xs), v) # rest"
proof -
  have "\<exists>v rest. dict_update ys ((k0, v0) # m) = (k0, v) # rest" for ys k0 v0 and m :: "('a \<times> 'b) list"
  proof (induction ys arbitrary: v0 m)
    case (Cons y ys)
    then show ?case using Cons.IH [of "snd y" m] by (cases y) auto
  qed simp
  then have "\<exists>v rest. dict_update (tl xs) [(fst (hd xs), snd (hd xs))] = (fst (hd xs), v) # rest" .
  with assms show ?thesis by (cases xs) (simp_all add: dict_of_update)
qed

lemma merge_keys: "fst ` set (merge_branch_ranks m xs) = fst ` set m \<union> fst ` set xs"
proof (induction xs arbitrary: m)
  case (Cons x xs)
  obtain c y where x: "x = (c, y)" by (cases x)
  define m' where "m' = (case map_of m c of None \<Rightarrow> AList.update c y m
     | Some z \<Rightarrow> if better_rank y z then AList.update c y m else m)"
  have "merge_branch_ranks m (x # xs) = merge_branch_ranks m' xs"
    by (simp add: merge_branch_ranks_def x m'_def)
  moreover have "fst ` set m' = insert c (fst ` set m)"
    by (auto simp: m'_def dom_update map_of_eq_None_iff split: option.splits dest: map_of_SomeD intro: rev_image_eqI)
  ultimately show ?case using Cons by (auto simp: x)
qed (simp add: merge_branch_ranks_def)

section \<open>What the pool holds\<close>

text \<open>The database that is active for a document: its row is ready and names the artifact, whose file is there.\<close>

definition active :: "world \<Rightarrow> ident \<Rightarrow> ident \<Rightarrow> artifact_db \<Rightarrow> bool" where
  "active w d a db \<longleftrightarrow> (\<exists>x art. get_document (w_catalog w) d = Some x \<and> doc_state x = DOC_INDEX_READY \<and> doc_artifact x = Some a
     \<and> get_artifact (w_catalog w) a = Some art \<and> map_of (w_artifacts w) (art_path art) = Some db)"

definition stored_chunk :: "world \<Rightarrow> ident set \<Rightarrow> chunk_row \<Rightarrow> bool" where
  "stored_chunk w D r \<longleftrightarrow> (\<exists>d \<in> D. \<exists>a db. active w d a db \<and> r \<in> set (ad_chunks db))"

definition stored_row :: "world \<Rightarrow> ident set \<Rightarrow> artifact_row \<Rightarrow> bool" where
  "stored_row w D r \<longleftrightarrow> (\<exists>d \<in> D. \<exists>a db. active w d a db \<and> rw_chunk r \<in> set (ad_chunks db)
     \<and> rw_embedding r \<in> set (ad_embeddings db) \<and> em_chunk (rw_embedding r) = row_id r)"

lemma stored_row_chunk: "stored_row w D r \<Longrightarrow> stored_chunk w D (rw_chunk r)"
  unfolding stored_row_def stored_chunk_def by blast

definition pool_sound :: "world \<Rightarrow> ident set \<Rightarrow> query_pool \<Rightarrow> bool" where
  "pool_sound w D pl \<longleftrightarrow> (\<forall>x \<in> set (pl_artifacts pl). fst x \<in> D \<and> (\<exists>db. active w (fst x) (snd x) db))
     \<and> (\<forall>r \<in> set (pl_rows pl). stored_row w D r)
     \<and> (\<forall>x \<in> set (pl_by_chunk pl). snd x \<in> set (pl_rows pl) \<and> row_id (snd x) = fst x)"

lemma load_rows_mem:
  "r \<in> set (load_rows db rs) \<Longrightarrow> rw_chunk r \<in> set (ad_chunks db) \<and> rw_embedding r \<in> set (ad_embeddings db)
     \<and> em_chunk (rw_embedding r) = row_id r"
  by (auto simp: load_rows_def)

lemma load_document_cases:
  assumes "load_document env w prof queries d pl = Inr pl'"
  shows "\<exists>a db rs. active w d a db \<and> artifact_resolver (qe_tables env) db = Some rs \<and> pl' = extend_pool env prof queries d a db rs pl"
  using assms unfolding load_document_def active_def by (auto split: option.splits if_splits)

lemma load_document_sound:
  assumes load: "load_document env w prof queries d pl = Inr pl'" and "d \<in> D" and "pool_sound w D pl"
  shows "pool_sound w D pl'"
proof -
  obtain a db rs where act: "active w d a db" and pl': "pl' = extend_pool env prof queries d a db rs pl"
    using load_document_cases [OF load] by blast
  let ?mine = "dict_of (map (\<lambda>r. (row_id r, r)) (load_rows db rs))"
  have p: "pl_artifacts pl' = AList.update d a (pl_artifacts pl)" "pl_rows pl' = pl_rows pl @ load_rows db rs"
    "pl_by_chunk pl' = dict_update ?mine (pl_by_chunk pl)"
    by (simp_all add: pl' extend_pool_def Let_def)
  have "stored_row w D r" if "r \<in> set (load_rows db rs)" for r
    unfolding stored_row_def using that act \<open>d \<in> D\<close> load_rows_mem by blast
  then have rows: "\<forall>r \<in> set (pl_rows pl'). stored_row w D r"
    using assms(3) by (auto simp: p pool_sound_def)
  have "fst x \<in> D \<and> (\<exists>db. active w (fst x) (snd x) db)" if "x \<in> set (pl_artifacts pl')" for x
  proof -
    from that have "x = (d, a) \<or> x \<in> set (pl_artifacts pl)"
      using set_alist_update [of d a "pl_artifacts pl"] by (auto simp: p)
    then show ?thesis using act \<open>d \<in> D\<close> assms(3) unfolding pool_sound_def by auto
  qed
  moreover have "snd x \<in> set (pl_rows pl') \<and> row_id (snd x) = fst x" if "x \<in> set (pl_by_chunk pl')" for x
  proof -
    from that have "x \<in> set ?mine \<or> x \<in> set (pl_by_chunk pl)"
      using set_dict_update [of ?mine "pl_by_chunk pl"] by (auto simp: p)
    then have "x \<in> (\<lambda>r. (row_id r, r)) ` set (load_rows db rs) \<or> x \<in> set (pl_by_chunk pl)"
      using set_dict_of [of "map (\<lambda>r. (row_id r, r)) (load_rows db rs)"] by auto
    then show ?thesis using assms(3) unfolding pool_sound_def p by auto
  qed
  ultimately show ?thesis using rows unfolding pool_sound_def by blast
qed

lemma load_documents_sound:
  "load_documents env w prof queries ds pl = Inr pl' \<Longrightarrow> set ds \<subseteq> D \<Longrightarrow> pool_sound w D pl \<Longrightarrow> pool_sound w D pl'"
proof (induction ds arbitrary: pl)
  case (Cons d ds)
  then obtain pl1 where "load_document env w prof queries d pl = Inr pl1" "load_documents env w prof queries ds pl1 = Inr pl'"
    by (auto simp: and_then_Inr)
  with Cons show ?case using load_document_sound [of env w prof queries d pl pl1 D] by auto
qed simp

section \<open>What is selected\<close>

lemma fuse_item_Inr:
  "fuse_item prof rows dense lexical c = Inr xs \<Longrightarrow> \<exists>x. xs = [x] \<and> fz_chunk x = c \<and> map_of rows c = Some (fz_row x)
     \<and> fz_dense x = map_of dense c \<and> fz_lexical x = map_of lexical c"
  by (auto simp: fuse_item_def split: option.splits)

lemma fuse_items_Inr:
  "collect_results (fuse_item prof rows dense lexical) cs = Inr items \<Longrightarrow> map fz_chunk items = cs
     \<and> (\<forall>x \<in> set items. map_of rows (fz_chunk x) = Some (fz_row x) \<and> fz_dense x = map_of dense (fz_chunk x)
          \<and> fz_lexical x = map_of lexical (fz_chunk x))"
proof (induction cs arbitrary: items)
  case (Cons c cs)
  then obtain xs ys where "fuse_item prof rows dense lexical c = Inr xs"
      "collect_results (fuse_item prof rows dense lexical) cs = Inr ys" "items = xs @ ys"
    by (auto simp: and_then_Inr)
  with Cons.IH [of ys] fuse_item_Inr [of prof rows dense lexical c xs] show ?case by auto
qed simp

lemma fuse_ranks_Inr:
  assumes "fuse_ranks prof rows dense lexical = Inr fused"
  shows "distinct (map fz_chunk fused)" and "fz_chunk ` set fused = fst ` set dense \<union> fst ` set lexical"
    and "\<forall>x \<in> set fused. map_of rows (fz_chunk x) = Some (fz_row x) \<and> fz_dense x = map_of dense (fz_chunk x)
          \<and> fz_lexical x = map_of lexical (fz_chunk x)"
proof -
  obtain items where items: "collect_results (fuse_item prof rows dense lexical) (dedupe (map fst dense @ map fst lexical)) = Inr items"
    and fused: "fused = sort_key (\<lambda>x. - fz_score x) (sort_key fz_chunk items)"
    using assms by (auto simp: fuse_ranks_def and_then_Inr)
  note f = fuse_items_Inr [OF items]
  have "distinct (map fz_chunk items)" using f by simp
  then show "distinct (map fz_chunk fused)" by (simp add: fused distinct_map)
  have "fz_chunk ` set items = set (dedupe (map fst dense @ map fst lexical))" using f by (metis set_map)
  then show "fz_chunk ` set fused = fst ` set dense \<union> fst ` set lexical" by (simp add: fused)
  show "\<forall>x \<in> set fused. map_of rows (fz_chunk x) = Some (fz_row x) \<and> fz_dense x = map_of dense (fz_chunk x)
          \<and> fz_lexical x = map_of lexical (fz_chunk x)"
    using f by (simp add: fused)
qed

lemma by_item_mem: "map_of (by_item items) c = Some x \<Longrightarrow> x \<in> set items \<and> fz_chunk x = c"
  using set_dict_of [of "map (\<lambda>x. (fz_chunk x, x)) items"] by (force simp: by_item_def dest: map_of_SomeD)

lemma by_item_known: "x \<in> set items \<Longrightarrow> map_of (by_item items) (fz_chunk x) \<noteq> None"
  by (simp add: by_item_def map_of_eq_None_iff keys_dict_of image_image)

lemma rerank_subset: "set (fst (rerank env q fused)) \<subseteq> set fused"
  by (auto simp: rerank_def Let_def List.map_filter_def split: option.split dest: by_item_mem)

definition picked :: "nat \<Rightarrow> fused_item list \<Rightarrow> fused_item list \<Rightarrow> bool" where
  "picked n fused sel \<longleftrightarrow> distinct (map fz_chunk sel) \<and> set sel \<subseteq> set fused \<and> length sel \<le> n"

lemma pick_anchors_ok:
  "picked n fused sel \<Longrightarrow> length sel < n \<Longrightarrow> picked n fused (pick_anchors n (by_item fused) cs sel)
     \<and> length (pick_anchors n (by_item fused) cs sel) \<le> length sel + length cs"
proof (induction cs arbitrary: sel)
  case (Cons c cs)
  let ?sel = "case map_of (by_item fused) c of Some x \<Rightarrow> if c \<notin> set (map fz_chunk sel) then sel @ [x] else sel | None \<Rightarrow> sel"
  have "picked n fused ?sel" "length ?sel \<le> Suc (length sel)"
    using Cons.prems by (auto simp: picked_def split: option.split dest: by_item_mem)
  with Cons.IH [of ?sel] show ?case by (fastforce simp: Let_def picked_def)
qed simp

lemma pick_anchors_found:
  assumes "length sel + length cs < n" and "c \<in> set cs \<union> fz_chunk ` set sel" and "map_of (by_item fused) c \<noteq> None"
  shows "c \<in> fz_chunk ` set (pick_anchors n (by_item fused) cs sel)"
  using assms(1,2)
proof (induction cs arbitrary: sel)
  case (Cons b cs)
  let ?sel = "case map_of (by_item fused) b of Some x \<Rightarrow> if b \<notin> set (map fz_chunk sel) then sel @ [x] else sel | None \<Rightarrow> sel"
  have "length ?sel \<le> Suc (length sel)" "fz_chunk ` set sel \<subseteq> fz_chunk ` set ?sel" "c = b \<Longrightarrow> c \<in> fz_chunk ` set ?sel"
    using assms(3) by (auto split: option.splits dest: by_item_mem)
  with Cons.prems Cons.IH [of ?sel] show ?case by (auto simp: Let_def)
qed simp

lemma pick_fused_ok:
  "picked n fused sel \<Longrightarrow> length sel < n \<Longrightarrow> set xs \<subseteq> set fused \<Longrightarrow> picked n fused (pick_fused n xs sel)
     \<and> fz_chunk ` set sel \<subseteq> fz_chunk ` set (pick_fused n xs sel)"
proof (induction xs arbitrary: sel)
  case (Cons x xs)
  let ?sel = "if fz_chunk x \<notin> set (map fz_chunk sel) then sel @ [x] else sel"
  have "picked n fused ?sel" "fz_chunk ` set sel \<subseteq> fz_chunk ` set ?sel" "length ?sel \<le> n"
    using Cons.prems by (auto simp: picked_def)
  with Cons.IH [of ?sel] Cons.prems show ?case by (fastforce simp: Let_def)
qed simp

lemma select_items_ok:
  assumes "length anchors < n"
  shows "picked n fused (select_items n fused anchors)"
    and "c \<in> set anchors \<Longrightarrow> map_of (by_item fused) c \<noteq> None \<Longrightarrow> c \<in> fz_chunk ` set (select_items n fused anchors)"
proof -
  let ?sel = "pick_anchors n (by_item fused) anchors []"
  have "picked n fused []" using assms by (simp add: picked_def)
  from pick_anchors_ok [OF this, of anchors] have sel: "picked n fused ?sel" "length ?sel < n"
    using assms by auto
  from pick_fused_ok [OF sel] show "picked n fused (select_items n fused anchors)"
    by (simp add: select_items_def)
  show "c \<in> fz_chunk ` set (select_items n fused anchors)" if "c \<in> set anchors" "map_of (by_item fused) c \<noteq> None"
    using pick_anchors_found [of "[]" anchors n c fused] pick_fused_ok [OF sel] that assms
    by (auto simp: select_items_def)
qed

section \<open>Where the children come from\<close>

lemma connect_artifact_Some:
  "connect_artifact w d a = Some db \<Longrightarrow> \<exists>art. get_artifact (w_catalog w) a = Some art \<and> map_of (w_artifacts w) (art_path art) = Some db"
  by (auto simp: connect_artifact_def split: option.splits if_splits)

lemma active_connect: "active w d a db' \<Longrightarrow> connect_artifact w d a = Some db \<Longrightarrow> active w d a db"
  by (auto simp: active_def dest!: connect_artifact_Some)

lemma find_anchor_found:
  "find_anchor w arts allowed c = Inr (Some (d, db, u)) \<Longrightarrow> \<exists>a. (d, a) \<in> set arts \<and> connect_artifact w d a = Some db"
  by (induction w arts allowed c rule: find_anchor.induct) (auto split: if_splits option.splits)

text \<open>A row of the lookup shows a chunk of the active artifact of its document.\<close>

definition hit_stored :: "world \<Rightarrow> ident set \<Rightarrow> child_hit \<Rightarrow> bool" where
  "hit_stored w D h \<longleftrightarrow> ch_document h \<in> D \<and> (\<exists>a db r. active w (ch_document h) a db \<and> r \<in> set (ad_chunks db)
     \<and> cr_id r = ch_chunk h \<and> cr_document r = ch_document h \<and> cr_content r = ch_content h \<and> cr_unit r = ch_unit h)"

lemma child_rows_mem:
  "x \<in> set (child_rows db u) \<Longrightarrow> fst x \<in> set (ad_units db) \<and> snd x \<in> set (ad_chunks db) \<and> cr_unit (snd x) = un_id (fst x)"
  by (auto simp: child_rows_def)

lemma children_stored:
  assumes "active w d a db" and "d \<in> D" and "children_for_anchor env c (d, db, u) = Inr rows" and "h \<in> set rows"
  shows "hit_stored w D h"
proof -
  obtain x where x: "x \<in> set (child_rows db u)" "h = child_hit_of env c u d x" "cr_document (snd x) = d"
    using assms(3,4) by (auto simp: children_for_anchor_def split: if_splits)
  then have "ch_document h = d" "ch_chunk h = cr_id (snd x)" "ch_content h = cr_content (snd x)" "ch_unit h = un_id (fst x)"
    by (simp_all add: child_hit_of_def split: prod.split)
  then show ?thesis
    using assms(1,2) x(3) child_rows_mem [OF x(1)] unfolding hit_stored_def by metis
qed

lemma lookup_stored:
  assumes sound: "\<forall>x \<in> set arts. fst x \<in> D \<and> (\<exists>db. active w (fst x) (snd x) db)"
    and "returned (lookup_direct_children env w arts) docs h"
  shows "hit_stored w D h"
proof -
  let ?f = "\<lambda>docs c. and_then (find_anchor w arts docs c) (\<lambda>found. case found of None \<Rightarrow> Inr [] | Some f \<Rightarrow> children_for_anchor env c f)"
  have one: "hit_stored w D h" if rows: "?f docs c = Inr rows" and mem: "h \<in> set rows" for c rows
  proof -
    have "\<exists>f. find_anchor w arts docs c = Inr f \<and> (case f of None \<Rightarrow> Inr [] | Some f \<Rightarrow> children_for_anchor env c f) = Inr rows"
      using rows by (cases "find_anchor w arts docs c") simp_all
    then obtain f where f: "find_anchor w arts docs c = Inr f" "(case f of None \<Rightarrow> Inr [] | Some f \<Rightarrow> children_for_anchor env c f) = Inr rows"
      by blast
    then obtain d db u where found: "find_anchor w arts docs c = Inr (Some (d, db, u))" "children_for_anchor env c (d, db, u) = Inr rows"
      using mem by (cases f) auto
    from find_anchor_found [OF found(1)] obtain a where a: "(d, a) \<in> set arts" "connect_artifact w d a = Some db" by blast
    then have "d \<in> D" "active w d a db" using sound active_connect by fastforce+
    then show ?thesis using children_stored found(2) mem by blast
  qed
  have "collect_results (?f docs) cs = Inr rows \<Longrightarrow> h \<in> set rows \<Longrightarrow> hit_stored w D h" for cs rows
  proof (induction cs arbitrary: rows)
    case (Cons c cs)
    then obtain ys zs where "?f docs c = Inr ys" "collect_results (?f docs) cs = Inr zs" "rows = ys @ zs"
      by (auto simp: and_then_Inr)
    then show ?case using Cons one by auto
  qed simp
  then show ?thesis using assms(2) unfolding returned_def lookup_direct_children_def by blast
qed

section \<open>Every result is stored text\<close>

definition stored_result :: "world \<Rightarrow> ident set \<Rightarrow> candidate_row \<Rightarrow> bool" where
  "stored_result w D c \<longleftrightarrow> (\<exists>r. stored_chunk w D r \<and> cr_id r = ca_chunk c \<and> cr_document r = ca_document c
     \<and> cr_content r = ca_content c \<and> ca_unit c = Some (cr_unit r))"

lemma enrich_simps [simp]:
  "ca_chunk (enrich_path rs c) = ca_chunk c" "ca_document (enrich_path rs c) = ca_document c"
  "ca_content (enrich_path rs c) = ca_content c" "ca_unit (enrich_path rs c) = ca_unit c"
  "ca_origin (enrich_path rs c) = ca_origin c" "ca_rank (enrich_path rs c) = ca_rank c"
  "ca_order (enrich_path rs c) = ca_order c"
  by (simp_all add: enrich_path_def split: option.split)

lemma base_result_simps [simp]:
  "ca_chunk (base_result env n x) = fz_chunk x" "ca_origin (base_result env n x) = RETRIEVAL"
  "ca_document (base_result env n x) = cr_document (rw_chunk (fz_row x))" "ca_rank (base_result env n x) = Some (int n)"
  "ca_content (base_result env n x) = cr_content (rw_chunk (fz_row x))"
  "ca_unit (base_result env n x) = Some (cr_unit (rw_chunk (fz_row x)))"
  by (simp_all add: base_result_def Let_def)

lemma set_interleave: "length css = length as \<Longrightarrow> set (interleave as css) = set as \<union> set (concat css)"
proof (induction as arbitrary: css)
  case (Cons a as)
  then show ?case by (cases css) (auto simp: interleave_def)
qed (simp add: interleave_def)

lemma renumber_base_mem: "x \<in> set (renumber_base cs) \<Longrightarrow> \<exists>c n. c \<in> set cs \<and> x = c\<lparr>ca_order := n\<rparr>"
  by (auto simp: renumber_base_def enumerate_eq_zip dest: set_zip_rightD)

lemma base_results_Inr:
  assumes "base_results env arts items = Inr base"
  shows "base = map (\<lambda>(n, x). base_result env n x) (enumerate 1 items)"
    and "\<forall>c \<in> set base. candidate_valid c \<and> ca_origin c = RETRIEVAL"
  using assms by (auto simp: base_results_def Let_def list_all_iff split: if_splits)

lemma base_stored:
  assumes "base_results env arts items = Inr base" and "c \<in> set base"
    and "\<forall>x \<in> set items. stored_chunk w D (rw_chunk (fz_row x)) \<and> row_id (fz_row x) = fz_chunk x"
  shows "stored_result w D c"
proof -
  obtain n x where x: "x \<in> set items" "c = base_result env n x"
    using assms(2) unfolding base_results_Inr(1) [OF assms(1)] by (auto simp: enumerate_eq_zip dest: set_zip_rightD)
  with assms(3) show ?thesis
    by (auto simp: stored_result_def intro!: exI [of _ "rw_chunk (fz_row x)"])
qed

text \<open>The stages of an answered query.\<close>

definition query_stages ::
  "query_env \<Rightarrow> world \<Rightarrow> pytext \<Rightarrow> ident list option \<Rightarrow> mode_arg \<Rightarrow> queries_arg \<Rightarrow> query_result
     \<Rightarrow> pytext list \<times> vector list \<times> query_pool \<times> fused_item list \<times> ident list \<times> candidate_row list \<Rightarrow> bool" where
  "query_stages env w q ids mode arg res s \<longleftrightarrow> (case s of (queries, vectors, pl, fused, anchors, base) \<Rightarrow>
     \<exists>m hits results diag. answer_mode_profile mode = Inr (profile_of m) \<and> embed_queries env q arg = Inr (queries, vectors)
     \<and> load_documents env w (profile_of m) queries (requested_ids (w_catalog w) ids)
         \<lparr>pl_artifacts = [], pl_resolvers = [], pl_by_chunk = [], pl_rows = [], pl_streams = map (\<lambda>_. []) queries\<rparr> = Inr pl
     \<and> rank_pool env (profile_of m) vectors pl = Inr (fused, anchors, hits)
     \<and> base_results env (pl_artifacts pl) (select_items 10 (fst (rerank env q fused)) anchors) = Inr base
     \<and> finish_query env w (requested_ids (w_catalog w) ids) pl base = Inr (results, diag)
     \<and> qr_results res = results \<and> qr_coverage res = filter (\<lambda>c. map_of (by_item (fst (rerank env q fused))) c \<noteq> None) anchors)"

lemma profile_simps [simp]:
  "mp_final (profile_of m) = 10" "mp_dense (profile_of m) = 50" "mp_lexical (profile_of m) = 50"
  by (simp_all add: profile_of_def)

lemma query_stages:
  assumes "query_document_set env w q ids mode arg = Inr res"
  shows "\<exists>s. query_stages env w q ids mode arg res s"
proof -
  from assms obtain prof where prof: "answer_mode_profile mode = Inr prof"
    by (auto simp: query_document_set_def and_then_Inr split: if_splits)
  then obtain m where m: "prof = profile_of m" by (auto simp: answer_mode_profile_def and_then_Inr)
  from assms show ?thesis
    unfolding query_stages_def query_document_set_def prof m
    by (fastforce simp: Let_def and_then_Inr case_prod_beta split: if_splits)
qed

lemma empty_pool_sound [simp]:
  "pool_sound w D \<lparr>pl_artifacts = [], pl_resolvers = [], pl_by_chunk = [], pl_rows = [], pl_streams = ss\<rparr>"
  by (simp add: pool_sound_def)

lemma rank_pool_Inr:
  assumes "rank_pool env prof vectors pl = Inr (fused, anchors, hits)"
  shows "\<exists>dense anchors1 lexical. dense_branch prof (pl_rows pl) vectors = Inr (dense, anchors1)
    \<and> lexical_branch (pl_streams pl) anchors1 = (lexical, anchors) \<and> fuse_ranks prof (pl_by_chunk pl) dense lexical = Inr fused"
  using assms by (auto simp: rank_pool_def and_then_Inr case_prod_beta prod_eq_iff)

lemma note_branches_length:
  "length (snd (fold (\<lambda>x. note_branch (f x)) xs s)) \<le> length (snd s) + length xs"
proof (induction xs arbitrary: s)
  case (Cons x xs)
  have "length (snd (note_branch (f x) s)) \<le> Suc (length (snd s))"
    by (simp add: note_branch_def split: list.split)
  with Cons.IH [of "note_branch (f x) s"] show ?case by simp
qed simp

lemma encode_all_length: "encode_all env qs = Inr vs \<Longrightarrow> length vs = length qs"
  by (induction qs arbitrary: vs) (auto simp: and_then_Inr)

lemma embed_queries_bounds:
  "embed_queries env q arg = Inr (queries, vectors) \<Longrightarrow> length queries \<le> 4 \<and> length vectors = length queries"
  by (auto simp: embed_queries_def normalized_queries_def and_then_Inr encode_all_length
      split: if_splits sum.splits queries_arg.splits)

lemma load_documents_streams:
  "load_documents env w prof queries ds pl = Inr pl' \<Longrightarrow> length (pl_streams pl) \<le> length queries \<Longrightarrow>
     length (pl_streams pl') \<le> length queries"
proof (induction ds arbitrary: pl)
  case (Cons d ds)
  then obtain pl1 where load: "load_document env w prof queries d pl = Inr pl1" "load_documents env w prof queries ds pl1 = Inr pl'"
    by (auto simp: and_then_Inr)
  from load_document_cases [OF load(1)] have "length (pl_streams pl1) \<le> length queries"
    by (auto simp: extend_pool_def Let_def add_streams_def)
  with Cons.IH [OF load(2)] show ?case .
qed simp

lemma anchors_bound:
  assumes e: "embed_queries env q arg = Inr (queries, vectors)"
    and l: "load_documents env w prof queries ds
         \<lparr>pl_artifacts = [], pl_resolvers = [], pl_by_chunk = [], pl_rows = [], pl_streams = map (\<lambda>_. []) queries\<rparr> = Inr pl"
    and b: "dense_branch prof' (pl_rows pl) vectors = Inr (dense, anchors1)" "lexical_branch (pl_streams pl) anchors1 = (lexical, anchors)"
  shows "length anchors < 10"
proof -
  let ?g = "\<lambda>v. global_dense_ranks (map (\<lambda>r. (dot v (em_vector (rw_embedding r)), r)) (pl_rows pl)) (mp_dense prof')"
  have "fold (\<lambda>v. note_branch (?g v)) vectors ([], []) = (dense, anchors1)"
    using b(1) by (simp add: dense_branch_def split: if_splits)
  with note_branches_length [of ?g vectors "([], [])"] have "length anchors1 \<le> length vectors" by simp
  moreover have "length anchors \<le> length anchors1 + length (pl_streams pl)"
    using b(2) note_branches_length [of global_lexical_ranks "pl_streams pl" "([], anchors1)"] by (simp add: lexical_branch_def)
  ultimately show ?thesis
    using embed_queries_bounds [OF e] load_documents_streams [OF l] by simp
qed

lemma stages_anchors:
  assumes "query_stages env w q ids mode arg res (queries, vectors, pl, fused, anchors, base)"
  shows "length anchors < 10"
proof -
  obtain m hits where e: "embed_queries env q arg = Inr (queries, vectors)"
    and l: "load_documents env w (profile_of m) queries (requested_ids (w_catalog w) ids)
         \<lparr>pl_artifacts = [], pl_resolvers = [], pl_by_chunk = [], pl_rows = [], pl_streams = map (\<lambda>_. []) queries\<rparr> = Inr pl"
    and r: "rank_pool env (profile_of m) vectors pl = Inr (fused, anchors, hits)"
    using assms by (auto simp: query_stages_def)
  from rank_pool_Inr [OF r] anchors_bound [OF e l] show ?thesis by blast
qed

lemma stages_selected:
  assumes stages: "query_stages env w q ids mode arg res (queries, vectors, pl, fused, anchors, base)"
  shows "pool_sound w (set (requested_ids (w_catalog w) ids)) pl"
    and "picked 10 fused (select_items 10 (fst (rerank env q fused)) anchors)"
    and "\<forall>x \<in> set fused. stored_chunk w (set (requested_ids (w_catalog w) ids)) (rw_chunk (fz_row x)) \<and> row_id (fz_row x) = fz_chunk x"
proof -
  obtain m hits where l: "load_documents env w (profile_of m) queries (requested_ids (w_catalog w) ids)
         \<lparr>pl_artifacts = [], pl_resolvers = [], pl_by_chunk = [], pl_rows = [], pl_streams = map (\<lambda>_. []) queries\<rparr> = Inr pl"
    and r: "rank_pool env (profile_of m) vectors pl = Inr (fused, anchors, hits)"
    using stages by (auto simp: query_stages_def)
  show sound: "pool_sound w (set (requested_ids (w_catalog w) ids)) pl"
    using load_documents_sound [OF l subset_refl] by simp
  show "picked 10 fused (select_items 10 (fst (rerank env q fused)) anchors)"
    using select_items_ok(1) [OF stages_anchors [OF stages]] rerank_subset [of env q fused] by (fastforce simp: picked_def)
  obtain dense lexical where "fuse_ranks (profile_of m) (pl_by_chunk pl) dense lexical = Inr fused"
    using rank_pool_Inr [OF r] by blast
  from fuse_ranks_Inr(3) [OF this]
  have "(fz_chunk x, fz_row x) \<in> set (pl_by_chunk pl)" if "x \<in> set fused" for x
    using that by (blast dest: map_of_SomeD)
  with sound show "\<forall>x \<in> set fused. stored_chunk w (set (requested_ids (w_catalog w) ids)) (rw_chunk (fz_row x)) \<and> row_id (fz_row x) = fz_chunk x"
    unfolding pool_sound_def by (metis fst_conv snd_conv stored_row_chunk)
qed

lemma finish_query_Inr:
  assumes f: "finish_query env w docs pl base = Inr (results, diag)" and "\<forall>c \<in> set base. candidate_valid c \<and> ca_origin c = RETRIEVAL"
  shows "\<exists>css. blocks (returned (lookup_direct_children env w (pl_artifacts pl)) docs) (order_candidates base) docs css
    \<and> results = map (\<lambda>c. (enrich_path (map_of (pl_resolvers pl) (ca_document c)) c, the (map_of (pl_artifacts pl) (ca_document c))))
        (renumber_base (interleave (order_candidates base) css))
    \<and> (\<forall>c \<in> set (interleave (order_candidates base) css). map_of (pl_artifacts pl) (ca_document c) \<noteq> None)"
proof -
  let ?l = "lookup_direct_children env w (pl_artifacts pl)"
  obtain css d where x: "expand ?l True base docs True = Inr (renumber_base (interleave (order_candidates base) css), d)"
    "blocks (returned ?l docs) (order_candidates base) docs css"
    using expanded_sound [OF assms(2), of ?l True docs True] by blast
  let ?out = "renumber_base (interleave (order_candidates base) css)"
  have known: "\<not> (\<exists>c \<in> set ?out. map_of (pl_artifacts pl) (ca_document c) = None)"
    and r: "results = map (\<lambda>c. (enrich_path (map_of (pl_resolvers pl) (ca_document c)) c, the (map_of (pl_artifacts pl) (ca_document c)))) ?out"
    using f by (simp_all add: finish_query_def x(1) split: if_splits)
  have "ca_document ` set ?out = ca_document ` set (interleave (order_candidates base) css)"
  proof -
    have "map ca_document ?out = map ca_document (interleave (order_candidates base) css)"
      by (rule nth_equalityI) (simp_all add: renumber_base_def nth_enumerate_eq)
    then show ?thesis by (metis set_map)
  qed
  with known have "\<forall>c \<in> set (interleave (order_candidates base) css). map_of (pl_artifacts pl) (ca_document c) \<noteq> None"
    by (metis (no_types, lifting) image_iff)
  with x(2) r show ?thesis by blast
qed

lemma results_stored:
  assumes "query_document_set env w q ids mode arg = Inr res" and "(c, a) \<in> set (qr_results res)"
  shows "stored_result w (set (requested_ids (w_catalog w) ids)) c \<and> ca_document c \<in> set (requested_ids (w_catalog w) ids)
    \<and> (\<exists>db. active w (ca_document c) a db)"
proof -
  let ?D = "set (requested_ids (w_catalog w) ids)"
  obtain queries vectors pl fused anchors base
    where stages: "query_stages env w q ids mode arg res (queries, vectors, pl, fused, anchors, base)"
    using query_stages [OF assms(1)] by (metis prod_cases6)
  obtain diag where b: "base_results env (pl_artifacts pl) (select_items 10 (fst (rerank env q fused)) anchors) = Inr base"
    and f: "finish_query env w (requested_ids (w_catalog w) ids) pl base = Inr (qr_results res, diag)"
    using stages by (auto simp: query_stages_def)
  note sel = stages_selected [OF stages]
  obtain css where css: "blocks (returned (lookup_direct_children env w (pl_artifacts pl)) (requested_ids (w_catalog w) ids))
      (order_candidates base) (requested_ids (w_catalog w) ids) css"
    and results: "qr_results res = map (\<lambda>c. (enrich_path (map_of (pl_resolvers pl) (ca_document c)) c,
        the (map_of (pl_artifacts pl) (ca_document c)))) (renumber_base (interleave (order_candidates base) css))"
    and known: "\<forall>c \<in> set (interleave (order_candidates base) css). map_of (pl_artifacts pl) (ca_document c) \<noteq> None"
    using finish_query_Inr [OF f base_results_Inr(2) [OF b]] by blast
  from assms(2) obtain x n where x: "x \<in> set (interleave (order_candidates base) css)"
    and c: "ca_chunk c = ca_chunk x" "ca_document c = ca_document x" "ca_content c = ca_content x" "ca_unit c = ca_unit x"
    and a: "a = the (map_of (pl_artifacts pl) (ca_document x))"
    unfolding results by (auto dest!: renumber_base_mem)
  have "(ca_document x, a) \<in> set (pl_artifacts pl)"
    using known x a by (force dest: map_of_SomeD)
  then have doc: "ca_document x \<in> ?D \<and> (\<exists>db. active w (ca_document x) a db)"
    using sel(1) unfolding pool_sound_def by fastforce
  have "length css = length (order_candidates base)" using css by (simp add: blocks_def)
  with x consider "x \<in> set base" | "x \<in> set (concat css)"
    by (auto simp: set_interleave order_candidates_def)
  then have "stored_result w ?D x"
  proof cases
    case 1
    have "\<forall>x \<in> set (select_items 10 (fst (rerank env q fused)) anchors). stored_chunk w ?D (rw_chunk (fz_row x)) \<and> row_id (fz_row x) = fz_chunk x"
      using sel(2,3) unfolding picked_def by blast
    with base_stored [OF b 1] show ?thesis .
  next
    case 2
    then obtain h where "returned (lookup_direct_children env w (pl_artifacts pl)) (requested_ids (w_catalog w) ids) h" "shows_row h x"
      using css unfolding blocks_def by blast
    with lookup_stored [of "pl_artifacts pl" ?D w env] sel(1) have "hit_stored w ?D h"
      unfolding pool_sound_def by blast
    with \<open>shows_row h x\<close> show ?thesis
      unfolding hit_stored_def stored_result_def stored_chunk_def shows_row_def by fastforce
  qed
  then show ?thesis using doc c by (simp add: stored_result_def)
qed

text \<open>C4. A query shows stored text of the requested documents only. Every result, retrieved or added as a child, has the id,
  the unit, the document and the unchanged text of a chunk that is stored in the active artifact of a requested
  document that is ready; its own document is a requested one, and the artifact it is reported with is the active
  artifact of that document.\<close>

theorem query_shows_stored:
  assumes "query_document_set env w q ids mode arg = Inr res" and "(c, a) \<in> set (qr_results res)"
  shows "stored_result w (set (requested_ids (w_catalog w) ids)) c \<and> ca_document c \<in> set (requested_ids (w_catalog w) ids)
    \<and> (\<exists>db. active w (ca_document c) a db)"
  using results_stored [OF assms] .

section \<open>The window of results\<close>

text \<open>At most ten retrieved candidates, ranked 1, 2, ... in the order shown, at most twenty children between them, no chunk
  twice, context orders from 1.\<close>

definition window_ok :: "candidate_row list \<Rightarrow> bool" where
  "window_ok rs \<longleftrightarrow> (let base = filter (\<lambda>c. ca_origin c = RETRIEVAL) rs in
     length base \<le> 10 \<and> map ca_rank base = map (\<lambda>n. Some (int n)) [1..<Suc (length base)] \<and> length rs \<le> length base + 20
     \<and> distinct (map ca_chunk rs) \<and> map ca_order rs = map int [1..<Suc (length rs)])"

lemma interleave_simps [simp]: "interleave [] css = []" "interleave (a # as) (xs # css) = a # xs @ interleave as css"
  by (simp_all add: interleave_def)

lemma filter_interleave:
  "length css = length as \<Longrightarrow> (\<forall>a \<in> set as. P a) \<Longrightarrow> (\<forall>x \<in> set (concat css). \<not> P x) \<Longrightarrow> filter P (interleave as css) = as"
proof (induction as arbitrary: css)
  case (Cons a as)
  then show ?case by (cases css) (auto simp: filter_empty_conv)
qed simp

lemma length_interleave: "length css = length as \<Longrightarrow> length (interleave as css) = length as + length (concat css)"
proof (induction as arbitrary: css)
  case (Cons a as)
  then show ?case by (cases css) simp_all
qed simp

lemma distinct_interleave:
  "length css = length as \<Longrightarrow> distinct (map f as) \<Longrightarrow> distinct (map f (concat css)) \<Longrightarrow>
     f ` set (concat css) \<inter> f ` set as = {} \<Longrightarrow> distinct (map f (interleave as css))"
proof (induction as arbitrary: css)
  case (Cons a as)
  then obtain xs ds where css: "css = xs # ds" by (cases css) auto
  have "set (interleave as ds) = set as \<union> set (concat ds)"
    using Cons.prems(1) by (simp add: set_interleave css del: set_concat)
  moreover have "distinct (map f (interleave as ds))"
    by (rule Cons.IH) (use Cons.prems in \<open>auto simp: css simp del: set_concat\<close>)
  ultimately show ?case using Cons.prems by (auto simp: css simp del: set_concat)
qed simp

lemma order_base:
  assumes "base = map (\<lambda>(n, x). base_result env n x) (enumerate 1 items)"
  shows "map ca_rank (order_candidates base) = map (\<lambda>n. Some (int n)) [1..<Suc (length items)]"
proof -
  have ranks: "map ca_rank base = map (\<lambda>n. Some (int n)) [1..<Suc (length items)]"
    by (rule nth_equalityI) (simp_all add: assms nth_enumerate_eq del: upt_Suc)
  have key: "rank_key c = int n" if "ca_rank c = Some (int n)" "1 \<le> n" for c n
    using that by (simp add: rank_key_def)
  have keys: "map rank_key base = map int [1..<Suc (length items)]"
    by (rule nth_equalityI) (simp_all add: assms nth_enumerate_eq rank_key_def del: upt_Suc)
  have d: "distinct (map rank_key base)" by (simp add: keys distinct_map del: upt_Suc)
  let ?o = "order_candidates base"
  have "map rank_key ?o = map int [1..<Suc (length items)]"
  proof (rule sorted_distinct_set_unique)
    show "sorted (map rank_key ?o)" by (simp add: order_candidates_def)
    show "distinct (map rank_key ?o)" using d by (simp add: order_candidates_def distinct_map)
    have "set (map rank_key ?o) = set (map rank_key base)" by (simp add: order_candidates_def)
    then show "set (map rank_key ?o) = set (map int [1..<Suc (length items)])" by (simp only: keys)
  qed (simp_all add: distinct_map sorted_map sorted_wrt_upt del: upt_Suc)
  moreover have "ca_rank c = Some (rank_key c)" if "c \<in> set ?o" for c
  proof -
    have "ca_rank c \<in> set (map ca_rank base)" using that by (simp add: order_candidates_def)
    then obtain n where "ca_rank c = Some (int n)" "1 \<le> n" unfolding ranks by (auto simp del: upt_Suc)
    with key show ?thesis by simp
  qed
  ultimately have "map ca_rank ?o = map Some (map int [1..<Suc (length items)])"
    by (metis (mono_tags, lifting) map_map map_eq_conv comp_apply)
  then show ?thesis by (simp add: comp_def del: upt_Suc)
qed

lemma stages_window:
  assumes stages: "query_stages env w q ids mode arg res (queries, vectors, pl, fused, anchors, base)"
  shows "window_ok (map fst (qr_results res))"
    and "filter (\<lambda>c. ca_origin c = RETRIEVAL) (map fst (qr_results res)) \<noteq> [] \<or> base = []"
    and "ca_chunk ` set base = ca_chunk ` {c \<in> fst ` set (qr_results res). ca_origin c = RETRIEVAL}"
proof -
  let ?items = "select_items 10 (fst (rerank env q fused)) anchors"
  obtain diag where b: "base_results env (pl_artifacts pl) ?items = Inr base"
    and f: "finish_query env w (requested_ids (w_catalog w) ids) pl base = Inr (qr_results res, diag)"
    using stages by (auto simp: query_stages_def)
  note base = base_results_Inr [OF b]
  let ?o = "order_candidates base"
  obtain css where css: "blocks (returned (lookup_direct_children env w (pl_artifacts pl)) (requested_ids (w_catalog w) ids))
      ?o (requested_ids (w_catalog w) ids) css"
    and results: "qr_results res = map (\<lambda>c. (enrich_path (map_of (pl_resolvers pl) (ca_document c)) c,
        the (map_of (pl_artifacts pl) (ca_document c)))) (renumber_base (interleave ?o css))"
    using finish_query_Inr [OF f base(2)] by blast
  let ?I = "interleave ?o css" let ?rs = "map fst (qr_results res)"
  have len: "length css = length ?o" "length (concat css) \<le> 20" "distinct (map ca_chunk (concat css))"
    and child: "\<forall>x \<in> set (concat css). ca_origin x = HIERARCHY_CHILD \<and> ca_chunk x \<notin> ca_chunk ` set ?o"
    using css by (simp_all add: blocks_def)
  have same: "map g ?rs = map g ?I" if "\<And>rs c. g (enrich_path rs c) = g c" "\<And>c n. g (c\<lparr>ca_order := n\<rparr>) = g c" for g :: "candidate_row \<Rightarrow> 'z"
    by (rule nth_equalityI) (simp_all add: results renumber_base_def nth_enumerate_eq that)
  have orders: "map ca_order ?rs = map int [1..<Suc (length ?rs)]"
    by (rule nth_equalityI) (simp_all add: results renumber_base_def nth_enumerate_eq del: upt_Suc)
  have filt: "filter (\<lambda>c. ca_origin c = RETRIEVAL) ?I = ?o"
    by (rule filter_interleave) (use len child base(2) in \<open>auto simp: order_candidates_def\<close>)
  have kept: "map g (filter (\<lambda>c. ca_origin c = RETRIEVAL) ?rs) = map g ?o"
    if "\<And>rs c. g (enrich_path rs c) = g c" "\<And>c n. g (c\<lparr>ca_order := n\<rparr>) = g c" for g :: "candidate_row \<Rightarrow> 'z"
  proof -
    have "map (\<lambda>c. (ca_origin c, g c)) ?rs = map (\<lambda>c. (ca_origin c, g c)) ?I" by (rule same) (simp_all add: that)
    then have "map snd (filter (\<lambda>x. fst x = RETRIEVAL) (map (\<lambda>c. (ca_origin c, g c)) ?rs))
      = map snd (filter (\<lambda>x. fst x = RETRIEVAL) (map (\<lambda>c. (ca_origin c, g c)) ?I))" by simp
    then show ?thesis by (simp add: filter_map comp_def filt)
  qed
  have picked: "picked 10 fused ?items" by (rule stages_selected(2) [OF stages])
  have n: "length base = length ?items" by (simp add: base(1))
  have ranks: "map ca_rank (filter (\<lambda>c. ca_origin c = RETRIEVAL) ?rs) = map (\<lambda>n. Some (int n)) [1..<Suc (length ?items)]"
    using kept [of ca_rank] order_base [OF base(1)] by simp
  have "map ca_chunk base = map fz_chunk ?items"
    by (rule nth_equalityI) (simp_all add: base(1) nth_enumerate_eq)
  then have "distinct (map ca_chunk ?o)"
    using picked by (simp add: order_candidates_def distinct_map picked_def) (metis distinct_map)
  then have "distinct (map ca_chunk ?rs)"
    using distinct_interleave [of css ?o ca_chunk] len child same [of ca_chunk] by auto
  moreover have "length (filter (\<lambda>c. ca_origin c = RETRIEVAL) ?rs) = length ?items"
    using arg_cong [OF ranks, of length] by (simp del: upt_Suc)
  moreover have "length ?rs = length ?items + length (concat css)"
    using length_interleave [OF len(1)] arg_cong [OF same [of ca_chunk], of length] n by (simp add: order_candidates_def)
  ultimately show "window_ok ?rs"
    using ranks orders len(2) picked by (simp add: window_ok_def Let_def picked_def del: upt_Suc)
  show "filter (\<lambda>c. ca_origin c = RETRIEVAL) ?rs \<noteq> [] \<or> base = []"
    using kept [of ca_chunk] by (auto simp: order_candidates_def dest!: arg_cong [where f = length])
  have "set (map ca_chunk (filter (\<lambda>c. ca_origin c = RETRIEVAL) ?rs)) = ca_chunk ` set base"
    using kept [of ca_chunk] by (simp add: order_candidates_def)
  then show "ca_chunk ` set base = ca_chunk ` {c \<in> fst ` set (qr_results res). ca_origin c = RETRIEVAL}" by simp
qed

section \<open>Nothing better is left out\<close>

lemma note_branch_mono:
  "set (snd s) \<subseteq> set (snd (fold (\<lambda>x. note_branch (f x)) xs s)) \<and> fst ` set (fst s) \<subseteq> fst ` set (fst (fold (\<lambda>x. note_branch (f x)) xs s))"
proof (induction xs arbitrary: s)
  case (Cons x xs)
  have "set (snd s) \<subseteq> set (snd (note_branch (f x) s))" "fst ` set (fst s) \<subseteq> fst ` set (fst (note_branch (f x) s))"
    by (simp_all add: note_branch_def merge_keys split: list.split)
  with Cons.IH [of "note_branch (f x) s"] show ?case
    by (simp only: fold_simps) (meson subset_trans)
qed simp

lemma note_branches_mem:
  assumes "x \<in> set xs" and "f x = y # ys"
  shows "fst y \<in> set (snd (fold (\<lambda>x. note_branch (f x)) xs s))" and "fst y \<in> fst ` set (fst (fold (\<lambda>x. note_branch (f x)) xs s))"
proof -
  obtain as bs where xs: "xs = as @ x # bs" using assms(1) by (auto simp: in_set_conv_decomp)
  let ?s = "note_branch (f x) (fold (\<lambda>x. note_branch (f x)) as s)"
  have "fst y \<in> set (snd ?s)" "fst y \<in> fst ` set (fst ?s)"
    using assms(2) by (simp_all add: note_branch_def merge_keys)
  with note_branch_mono [of ?s f bs]
  show "fst y \<in> set (snd (fold (\<lambda>x. note_branch (f x)) xs s))" "fst y \<in> fst ` set (fst (fold (\<lambda>x. note_branch (f x)) xs s))"
    by (auto simp: xs)
qed

lemma best_dense:
  assumes "rows \<noteq> []"
  shows "\<exists>s \<in> set rows. (\<forall>r \<in> set rows. f r \<le> f s)
    \<and> (\<exists>y ys. global_dense_ranks (map (\<lambda>r. (f r, r)) rows) 50 = (row_id s, y) # ys)"
proof -
  let ?pool = "map (\<lambda>r. (f r, r)) rows"
  let ?sorted = "sort_key (\<lambda>x. - fst x) (sort_key (\<lambda>x. row_id (snd x)) ?pool)"
  have "set ?sorted = (\<lambda>r. (f r, r)) ` set rows" by simp
  with assms obtain s rest where sorted: "?sorted = (f s, s) # rest" and s: "s \<in> set rows"
    by (cases ?sorted) auto
  have "sorted (map (\<lambda>x. - fst x) ?sorted)" by simp
  then have "\<forall>x \<in> set ?sorted. fst x \<le> f s" unfolding sorted by auto
  then have "\<forall>r \<in> set rows. f r \<le> f s" using \<open>set ?sorted = _\<close> by auto
  moreover have "\<exists>y ys. global_dense_ranks ?pool 50 = (row_id s, y) # ys"
  proof -
    let ?entries = "map (\<lambda>(i, s, r). (row_id r, s, i)) (enumerate 1 (take 50 ?sorted))"
    have "?entries \<noteq> []" and hd: "fst (hd ?entries) = row_id s" unfolding sorted by simp_all
    from hd_dict_of [OF this(1)] show ?thesis unfolding global_dense_ranks_def hd by blast
  qed
  ultimately show ?thesis using s by blast
qed

lemma extend_pool_rows [simp]:
  "pl_rows (extend_pool env prof queries d a db rs pl) = pl_rows pl @ load_rows db rs"
  by (simp add: extend_pool_def Let_def)

lemma load_documents_rows:
  "load_documents env w prof queries ds pl = Inr pl' \<Longrightarrow> set (pl_rows pl) \<subseteq> set (pl_rows pl')
     \<and> (\<forall>d a db. d \<in> set ds \<longrightarrow> active w d a db \<longrightarrow> (\<exists>rs. set (load_rows db rs) \<subseteq> set (pl_rows pl')))"
proof (induction ds arbitrary: pl)
  case (Cons d ds)
  then obtain pl1 where load: "load_document env w prof queries d pl = Inr pl1" "load_documents env w prof queries ds pl1 = Inr pl'"
    by (auto simp: and_then_Inr)
  obtain a db rs where act: "active w d a db" "pl1 = extend_pool env prof queries d a db rs pl"
    using load_document_cases [OF load(1)] by blast
  have "db' = db" if "active w d a' db'" for a' db'
    using that act(1) by (auto simp: active_def)
  with Cons.IH [OF load(2)] act(2) show ?case by auto
qed simp

text \<open>A chunk with a stored embedding in an active artifact of a requested document.\<close>

definition embedded_chunk :: "world \<Rightarrow> ident set \<Rightarrow> ident \<Rightarrow> vector \<Rightarrow> bool" where
  "embedded_chunk w D c v \<longleftrightarrow> (\<exists>d \<in> D. \<exists>a db r e. active w d a db \<and> r \<in> set (ad_chunks db) \<and> e \<in> set (ad_embeddings db)
     \<and> cr_id r = c \<and> em_chunk e = c \<and> em_vector e = v)"

lemma best_shown:
  assumes run: "query_document_set env w q ids mode arg = Inr res" and "qe_reranker env = None"
    and emb: "embed_queries env q arg = Inr (queries, vectors)" and v: "v \<in> set vectors"
    and "embedded_chunk w (set (requested_ids (w_catalog w) ids)) b x"
  shows "\<exists>(c, a) \<in> set (qr_results res). ca_origin c = RETRIEVAL
    \<and> (\<exists>y. embedded_chunk w (set (requested_ids (w_catalog w) ids)) (ca_chunk c) y \<and> dot v x \<le> dot v y)"
proof -
  let ?D = "set (requested_ids (w_catalog w) ids)"
  obtain qs vs pl fused anchors base where stages0: "query_stages env w q ids mode arg res (qs, vs, pl, fused, anchors, base)"
    using query_stages [OF run] by (metis prod_cases6)
  then have "qs = queries" "vs = vectors" using emb by (auto simp: query_stages_def)
  with stages0 have stages: "query_stages env w q ids mode arg res (queries, vectors, pl, fused, anchors, base)" by simp
  obtain m hits where l: "load_documents env w (profile_of m) queries (requested_ids (w_catalog w) ids)
         \<lparr>pl_artifacts = [], pl_resolvers = [], pl_by_chunk = [], pl_rows = [], pl_streams = map (\<lambda>_. []) queries\<rparr> = Inr pl"
    and r: "rank_pool env (profile_of m) vectors pl = Inr (fused, anchors, hits)"
    and b: "base_results env (pl_artifacts pl) (select_items 10 (fst (rerank env q fused)) anchors) = Inr base"
    using stages by (auto simp: query_stages_def)
  obtain d a db r0 e where x: "d \<in> ?D" "active w d a db" "r0 \<in> set (ad_chunks db)" "e \<in> set (ad_embeddings db)"
    "em_chunk e = cr_id r0" "em_vector e = x"
    using assms(5) by (auto simp: embedded_chunk_def)
  obtain rs where "set (load_rows db rs) \<subseteq> set (pl_rows pl)" using load_documents_rows [OF l] x(1,2) by blast
  moreover have "\<exists>t \<in> set (load_rows db rs). rw_embedding t = e" using x(3-5) by (auto simp: load_rows_def intro!: bexI [of _ r0])
  ultimately obtain t where t: "t \<in> set (pl_rows pl)" "em_vector (rw_embedding t) = x" using x(6) by blast
  let ?f = "\<lambda>r. dot v (em_vector (rw_embedding r))"
  have "pl_rows pl \<noteq> []" using t by auto
  from best_dense [OF this, of ?f] obtain s y ys where s: "s \<in> set (pl_rows pl)" "\<forall>r \<in> set (pl_rows pl). ?f r \<le> ?f s"
    and hd: "global_dense_ranks (map (\<lambda>r. (?f r, r)) (pl_rows pl)) 50 = (row_id s, y) # ys" by blast
  obtain dense anchors1 lexical where br: "dense_branch (profile_of m) (pl_rows pl) vectors = Inr (dense, anchors1)"
    "lexical_branch (pl_streams pl) anchors1 = (lexical, anchors)" "fuse_ranks (profile_of m) (pl_by_chunk pl) dense lexical = Inr fused"
    using rank_pool_Inr [OF r] by blast
  have fold: "fold (\<lambda>v. note_branch (global_dense_ranks (map (\<lambda>r. (dot v (em_vector (rw_embedding r)), r)) (pl_rows pl)) 50)) vectors ([], [])
      = (dense, anchors1)"
    using br(1) by (simp add: dense_branch_def split: if_splits)
  have "row_id s \<in> set anchors1 \<and> row_id s \<in> fst ` set dense"
    using note_branches_mem [OF v, where f = "\<lambda>v. global_dense_ranks (map (\<lambda>r. (dot v (em_vector (rw_embedding r)), r)) (pl_rows pl)) 50"
        and s = "([], [])", OF hd] by (simp add: fold)
  moreover have "set anchors1 \<subseteq> set anchors"
    using note_branch_mono [of "([], anchors1)" global_lexical_ranks "pl_streams pl"] br(2) by (simp add: lexical_branch_def)
  ultimately have anchor: "row_id s \<in> set anchors" "row_id s \<in> fz_chunk ` set fused"
    using fuse_ranks_Inr(2) [OF br(3)] by auto
  have plain: "fst (rerank env q fused) = fused" using assms(2) by (simp add: rerank_def)
  have "map_of (by_item fused) (row_id s) \<noteq> None" using anchor(2) by_item_known by auto
  from select_items_ok(2) [OF stages_anchors [OF stages] anchor(1) this]
  have "row_id s \<in> fz_chunk ` set (select_items 10 fused anchors)" .
  moreover have "ca_chunk ` set base = fz_chunk ` set (select_items 10 fused anchors)"
  proof -
    have "map ca_chunk base = map fz_chunk (select_items 10 fused anchors)"
      by (rule nth_equalityI) (simp_all add: base_results_Inr(1) [OF b] plain nth_enumerate_eq)
    then show ?thesis by (metis set_map)
  qed
  ultimately obtain c a' where c: "(c, a') \<in> set (qr_results res)" "ca_origin c = RETRIEVAL" "ca_chunk c = row_id s"
    using stages_window(3) [OF stages] by force
  have "stored_row w ?D s" using stages_selected(1) [OF stages] s(1) by (simp add: pool_sound_def)
  then have "embedded_chunk w ?D (ca_chunk c) (em_vector (rw_embedding s))"
    unfolding stored_row_def embedded_chunk_def c(3) by blast
  moreover have "dot v x \<le> ?f s" using s(2) t by auto
  ultimately show ?thesis using c by blast
qed

text \<open>C5. Without a reranker, nothing better is left out. For every retrieval query, no embedded chunk of the requested documents
  is closer to the query than the closest of the retrieved candidates shown.\<close>

theorem query_finds_best:
  assumes run: "query_document_set env w q ids mode arg = Inr res" and "qe_reranker env = None"
    and emb: "embed_queries env q arg = Inr (queries, vectors)" and v: "v \<in> set vectors"
    and "embedded_chunk w (set (requested_ids (w_catalog w) ids)) b x"
  shows "\<exists>(c, a) \<in> set (qr_results res). ca_origin c = RETRIEVAL
    \<and> (\<exists>y. embedded_chunk w (set (requested_ids (w_catalog w) ids)) (ca_chunk c) y \<and> dot v x \<le> dot v y)"
  using best_shown [OF assms] .

section \<open>A query over indexed documents is answered\<close>

text \<open>What preparation and indexing leave for a ready document: index tables whose vectors are valid and chunks of this
  document, over a legal text that parses.\<close>

definition servable :: "query_env \<Rightarrow> world \<Rightarrow> ident \<Rightarrow> bool" where
  "servable env w d \<longleftrightarrow> (\<exists>a db model. active w d a db \<and> artifact_resolver (qe_tables env) db \<noteq> None \<and> ad_index_tables db
     \<and> (\<forall>e \<in> set (ad_embeddings db). valid_row model e) \<and> (\<forall>r \<in> set (ad_chunks db). cr_document r = d))"

definition pool_full :: "query_pool \<Rightarrow> bool" where
  "pool_full pl \<longleftrightarrow> (\<forall>r \<in> set (pl_rows pl). valid_artifact_row r \<and> row_id r \<in> fst ` set (pl_by_chunk pl)
       \<and> cr_document (rw_chunk r) \<in> fst ` set (pl_artifacts pl))
     \<and> (\<forall>h \<in> \<Union> (set ` \<Union> (set ` set (pl_streams pl))). lh_chunk h \<in> fst ` set (pl_by_chunk pl))"

lemma pool_full_row: "pool_full pl \<Longrightarrow> r \<in> set (pl_rows pl) \<Longrightarrow> row_id r \<in> fst ` set (pl_by_chunk pl)"
  by (simp add: pool_full_def)

lemma pool_full_hit:
  "pool_full pl \<Longrightarrow> ss \<in> set (pl_streams pl) \<Longrightarrow> s \<in> set ss \<Longrightarrow> h \<in> set s \<Longrightarrow> lh_chunk h \<in> fst ` set (pl_by_chunk pl)"
  unfolding pool_full_def by auto

lemma empty_pool_full [simp]:
  "pool_full \<lparr>pl_artifacts = [], pl_resolvers = [], pl_by_chunk = [], pl_rows = [], pl_streams = map (\<lambda>_. []) qs\<rparr>"
  by (simp add: pool_full_def)

lemma stream_known: "h \<in> set (lexical_stream env db mine d terms n) \<Longrightarrow> lh_chunk h \<in> fst ` set mine"
  by (force simp: lexical_stream_def Let_def map_of_eq_None_iff)

lemma streams_known:
  assumes "s \<in> \<Union> (set ` set (add_streams env db mine d n queries ss))" and "h \<in> set s"
  shows "lh_chunk h \<in> fst ` set mine \<or> s \<in> \<Union> (set ` set ss)"
proof -
  from assms(1) obtain q t where "(q, t) \<in> set (zip queries ss)" "s \<in> set t \<or> (\<exists>terms. s = lexical_stream env db mine d terms n)"
    by (auto simp: add_streams_def Let_def split: if_splits)
  with assms(2) stream_known show ?thesis by (auto dest: set_zip_rightD)
qed

lemma extend_pool_full:
  assumes full: "pool_full pl" and valid: "\<forall>e \<in> set (ad_embeddings db). valid_row model e"
    and own: "\<forall>r \<in> set (ad_chunks db). cr_document r = d"
  shows "pool_full (extend_pool env prof queries d a db rs pl)"
proof -
  let ?mine = "dict_of (map (\<lambda>r. (row_id r, r)) (load_rows db rs))"
  let ?pl = "extend_pool env prof queries d a db rs pl"
  have mine: "fst ` set ?mine = row_id ` set (load_rows db rs)" by (simp add: keys_dict_of image_image)
  have keys: "fst ` set (pl_by_chunk ?pl) = row_id ` set (load_rows db rs) \<union> fst ` set (pl_by_chunk pl)"
    by (simp add: extend_pool_def Let_def keys_dict_update mine)
  have docs: "fst ` set (pl_artifacts ?pl) = insert d (fst ` set (pl_artifacts pl))"
    by (simp add: extend_pool_def Let_def dom_update)
  have new: "valid_artifact_row r \<and> cr_document (rw_chunk r) = d" if "r \<in> set (load_rows db rs)" for r
    using load_rows_mem [OF that] valid own by (auto simp: valid_row_def valid_artifact_row_def embedding_dimension_def)
  have "lh_chunk h \<in> fst ` set (pl_by_chunk ?pl)" if "h \<in> set s" "s \<in> \<Union> (set ` set (pl_streams ?pl))" for h s
  proof -
    have "s \<in> \<Union> (set ` set (add_streams env db ?mine d (mp_lexical prof) queries (pl_streams pl)))"
      using that(2) by (simp add: extend_pool_def Let_def)
    from streams_known [OF this that(1)] have "lh_chunk h \<in> fst ` set ?mine \<or> s \<in> \<Union> (set ` set (pl_streams pl))" .
    then show ?thesis
    proof
      assume "s \<in> \<Union> (set ` set (pl_streams pl))"
      with that(1) full show ?thesis unfolding pool_full_def keys by blast
    qed (simp add: keys mine)
  qed
  moreover have "valid_artifact_row r \<and> row_id r \<in> fst ` set (pl_by_chunk ?pl) \<and> cr_document (rw_chunk r) \<in> fst ` set (pl_artifacts ?pl)"
    if "r \<in> set (pl_rows ?pl)" for r
    using that new full by (auto simp: keys docs pool_full_def simp del: set_map)
  ultimately show ?thesis unfolding pool_full_def by blast
qed

lemma load_documents_total:
  "\<forall>d \<in> set ds. servable env w d \<Longrightarrow> pool_full pl \<Longrightarrow> \<exists>pl'. load_documents env w prof queries ds pl = Inr pl' \<and> pool_full pl'"
proof (induction ds arbitrary: pl)
  case (Cons d ds)
  then obtain a db model rs where s: "active w d a db" "artifact_resolver (qe_tables env) db = Some rs" "ad_index_tables db"
    "\<forall>e \<in> set (ad_embeddings db). valid_row model e" "\<forall>r \<in> set (ad_chunks db). cr_document r = d"
    by (auto simp: servable_def)
  then have "load_document env w prof queries d pl = Inr (extend_pool env prof queries d a db rs pl)"
    by (auto simp: load_document_def active_def)
  moreover have "pool_full (extend_pool env prof queries d a db rs pl)"
    by (rule extend_pool_full [OF Cons.prems(2) s(4,5)])
  ultimately show ?case using Cons.IH Cons.prems(1) by simp
qed simp

lemma note_branches_keys:
  "c \<in> fst ` set (fst (fold (\<lambda>x. note_branch (f x)) xs s)) \<Longrightarrow> c \<in> fst ` set (fst s) \<or> (\<exists>x \<in> set xs. c \<in> fst ` set (f x))"
proof (induction xs arbitrary: s)
  case (Cons x xs)
  have "fst ` set (fst (note_branch (f x) s)) = fst ` set (fst s) \<union> fst ` set (f x)"
    by (simp add: note_branch_def merge_keys)
  with Cons.IH [of "note_branch (f x) s"] Cons.prems show ?case by auto
qed simp

lemma dense_keys: "fst ` set (global_dense_ranks pool n) \<subseteq> (\<lambda>x. row_id (snd x)) ` set pool"
proof -
  have "x \<in> set pool" if "(i, x) \<in> set (enumerate 1 (take n (sort_key f (sort_key g pool))))" for i x f and g :: "_ \<Rightarrow> ident"
  proof -
    have "x \<in> set (take n (sort_key f (sort_key g pool)))" using that by (auto simp: enumerate_eq_zip dest: set_zip_rightD)
    from in_set_takeD [OF this] show ?thesis by simp
  qed
  then show ?thesis unfolding global_dense_ranks_def keys_dict_of by force
qed

lemma setdefault_keys:
  "c \<in> fst ` set (fold (\<lambda>(i, h). od_setdefault (lh_chunk h) (lh_relative h, i)) xs m) \<Longrightarrow>
     c \<in> fst ` set m \<or> (\<exists>x \<in> set xs. c = lh_chunk (snd x))"
proof (induction xs arbitrary: m)
  case (Cons x xs)
  have "fst ` set (od_setdefault (lh_chunk (snd x)) (lh_relative (snd x), fst x) m) = insert (lh_chunk (snd x)) (fst ` set m)"
    using od_setdefault_keys by (metis set_map)
  with Cons.IH [of "od_setdefault (lh_chunk (snd x)) (lh_relative (snd x), fst x) m"] Cons.prems show ?case
    by (auto simp: case_prod_beta)
qed simp

lemma lexical_keys: "c \<in> fst ` set (global_lexical_ranks streams) \<Longrightarrow> \<exists>s \<in> set streams. \<exists>h \<in> set s. c = lh_chunk h"
  unfolding global_lexical_ranks_def
  by (drule setdefault_keys) (auto simp: enumerate_eq_zip dest!: set_zip_rightD, blast)

lemma fuse_ranks_total:
  assumes "fst ` set dense \<union> fst ` set lexical \<subseteq> fst ` set rows"
  shows "\<exists>fused. fuse_ranks prof rows dense lexical = Inr fused"
proof -
  have "\<exists>items. collect_results (fuse_item prof rows dense lexical) cs = Inr items" if "set cs \<subseteq> fst ` set rows" for cs
    using that
  proof (induction cs)
    case (Cons c cs)
    then have "map_of rows c \<noteq> None" by (simp add: map_of_eq_None_iff)
    with Cons show ?case by (auto simp: fuse_item_def)
  qed simp
  from this [of "dedupe (map fst dense @ map fst lexical)"] show ?thesis
    using assms by (auto simp: fuse_ranks_def)
qed

lemma rank_pool_total:
  assumes "pool_full pl"
  shows "\<exists>fused anchors hits. rank_pool env prof vectors pl = Inr (fused, anchors, hits)
    \<and> (\<forall>x \<in> set fused. fz_dense x \<noteq> None \<or> fz_lexical x \<noteq> None)"
proof -
  let ?g = "\<lambda>v. global_dense_ranks (map (\<lambda>r. (dot v (em_vector (rw_embedding r)), r)) (pl_rows pl)) (mp_dense prof)"
  obtain dense anchors1 where dense: "fold (\<lambda>v. note_branch (?g v)) vectors ([], []) = (dense, anchors1)" by fastforce
  obtain lexical anchors where lexical: "lexical_branch (pl_streams pl) anchors1 = (lexical, anchors)" by fastforce
  have "list_all valid_artifact_row (pl_rows pl)" using assms by (simp add: pool_full_def list_all_iff)
  then have d: "dense_branch prof (pl_rows pl) vectors = Inr (dense, anchors1)" by (simp add: dense_branch_def dense)
  have "fst ` set (?g v) \<subseteq> row_id ` set (pl_rows pl)" for v
    using dense_keys [of "map (\<lambda>r. (dot v (em_vector (rw_embedding r)), r)) (pl_rows pl)" "mp_dense prof"] by (simp add: image_image)
  then have dk: "c \<in> row_id ` set (pl_rows pl)" if "c \<in> fst ` set dense" for c
    using note_branches_keys [of c ?g vectors "([], [])"] that unfolding dense by auto
  have "c \<in> fst ` set (pl_by_chunk pl)" if "c \<in> fst ` set dense" for c
    by (rule imageE [OF dk [OF that]]) (simp only: pool_full_row [OF assms])
  moreover have "c \<in> fst ` set (pl_by_chunk pl)" if "c \<in> fst ` set lexical" for c
  proof -
    have "\<exists>ss \<in> set (pl_streams pl). c \<in> fst ` set (global_lexical_ranks ss)"
      using note_branches_keys [of c global_lexical_ranks "pl_streams pl" "([], anchors1)"] that lexical
      by (simp add: lexical_branch_def)
    then obtain ss where ss: "ss \<in> set (pl_streams pl)" "c \<in> fst ` set (global_lexical_ranks ss)" by blast
    then show ?thesis using lexical_keys [OF ss(2)] pool_full_hit [OF assms ss(1)] by auto
  qed
  ultimately have keys: "fst ` set dense \<union> fst ` set lexical \<subseteq> fst ` set (pl_by_chunk pl)" by (intro Un_least subsetI)
  obtain fused where fused: "fuse_ranks prof (pl_by_chunk pl) dense lexical = Inr fused" using fuse_ranks_total [OF keys] by blast
  have "\<forall>x \<in> set fused. fz_dense x \<noteq> None \<or> fz_lexical x \<noteq> None"
  proof
    fix x assume x: "x \<in> set fused"
    then have "fz_chunk x \<in> fst ` set dense \<union> fst ` set lexical" using fuse_ranks_Inr(2) [OF fused] by blast
    then have "map_of dense (fz_chunk x) \<noteq> None \<or> map_of lexical (fz_chunk x) \<noteq> None" by (simp add: map_of_eq_None_iff)
    then show "fz_dense x \<noteq> None \<or> fz_lexical x \<noteq> None" using fuse_ranks_Inr(3) [OF fused] x by simp
  qed
  then show ?thesis by (simp add: rank_pool_def d lexical fused)
qed

lemma base_result_valid:
  "1 \<le> n \<Longrightarrow> n \<le> 10 \<Longrightarrow> fz_dense x \<noteq> None \<or> fz_lexical x \<noteq> None \<Longrightarrow> candidate_valid (base_result env n x)"
  by (auto simp: base_result_def Let_def candidate_valid_def retrieval_contract_def rank_ok_def)

lemma base_results_total:
  assumes "length items \<le> 10" and "\<forall>x \<in> set items. (fz_dense x \<noteq> None \<or> fz_lexical x \<noteq> None)
      \<and> cr_document (rw_chunk (fz_row x)) \<in> fst ` set artifacts"
  shows "\<exists>base. base_results env artifacts items = Inr base \<and> (\<forall>c \<in> set base. ca_document c \<in> fst ` set artifacts)"
proof -
  let ?base = "map (\<lambda>(n, x). base_result env n x) (enumerate 1 items)"
  have "1 \<le> n \<and> n \<le> 10 \<and> x \<in> set items" if "(n, x) \<in> set (enumerate 1 items)" for n x
    using that assms(1) by (auto simp: enumerate_eq_zip simp del: upt_Suc dest: set_zip_leftD set_zip_rightD)
  then have "candidate_valid (base_result env n x) \<and> ca_document (base_result env n x) \<in> fst ` set artifacts"
    if "(n, x) \<in> set (enumerate 1 items)" for n x
    using that assms(2) base_result_valid by simp
  then have "\<forall>c \<in> set ?base. candidate_valid c \<and> ca_document c \<in> fst ` set artifacts"
    by auto
  then have "list_all candidate_valid ?base" "\<forall>c \<in> set ?base. ca_document c \<in> fst ` set artifacts"
    unfolding list_all_iff by blast+
  moreover have "\<not> (\<exists>x \<in> set items. map_of artifacts (cr_document (rw_chunk (fz_row x))) = None)"
    using assms(2) by (simp add: map_of_eq_None_iff)
  ultimately show ?thesis by (simp add: base_results_def)
qed

lemma finish_query_total:
  assumes "\<forall>c \<in> set base. candidate_valid c \<and> ca_origin c = RETRIEVAL" and "\<forall>c \<in> set base. ca_document c \<in> fst ` set (pl_artifacts pl)"
  shows "\<exists>results diag. finish_query env w docs pl base = Inr (results, diag)"
proof -
  let ?l = "lookup_direct_children env w (pl_artifacts pl)"
  obtain css d where x: "expand ?l True base docs True = Inr (renumber_base (interleave (order_candidates base) css), d)"
    "blocks (returned ?l docs) (order_candidates base) docs css"
    using expanded_sound [OF assms(1), of ?l True docs True] by blast
  have "ca_document c \<in> ca_document ` set base" if "c \<in> set (interleave (order_candidates base) css)" for c
    using that x(2) by (auto simp: set_interleave blocks_def order_candidates_def)
  then have "ca_document c \<in> fst ` set (pl_artifacts pl)" if "c \<in> set (renumber_base (interleave (order_candidates base) css))" for c
    using renumber_base_mem [OF that] assms(2) by fastforce
  then have "\<not> (\<exists>c \<in> set (renumber_base (interleave (order_candidates base) css)). map_of (pl_artifacts pl) (ca_document c) = None)"
    by (simp add: map_of_eq_None_iff)
  then show ?thesis by (simp add: finish_query_def x(1))
qed

lemma query_answered:
  assumes "py_strip q \<noteq> []" and "mode_from_value mode = Inr m" and "embed_queries env q arg = Inr qv"
    and "\<forall>d \<in> set (requested_ids (w_catalog w) ids). servable env w d"
  shows "\<exists>res. query_document_set env w q ids mode arg = Inr res \<and> window_ok (map fst (qr_results res))
    \<and> set (qr_coverage res) \<subseteq> ca_chunk ` {c \<in> fst ` set (qr_results res). ca_origin c = RETRIEVAL}"
proof -
  obtain queries vectors where qv: "qv = (queries, vectors)" by fastforce
  obtain pl where pl: "load_documents env w (profile_of m) queries (requested_ids (w_catalog w) ids)
      \<lparr>pl_artifacts = [], pl_resolvers = [], pl_by_chunk = [], pl_rows = [], pl_streams = map (\<lambda>_. []) queries\<rparr> = Inr pl" "pool_full pl"
    using load_documents_total [OF assms(4), of "\<lparr>pl_artifacts = [], pl_resolvers = [], pl_by_chunk = [], pl_rows = [], pl_streams = map (\<lambda>_. []) queries\<rparr>"] by auto
  obtain fused anchors hits where r: "rank_pool env (profile_of m) vectors pl = Inr (fused, anchors, hits)"
    and signal: "\<forall>x \<in> set fused. fz_dense x \<noteq> None \<or> fz_lexical x \<noteq> None"
    using rank_pool_total [OF pl(2)] by blast
  let ?items = "select_items 10 (fst (rerank env q fused)) anchors"
  have anchors: "length anchors < 10"
  proof -
    obtain dense anchors1 lexical where b: "dense_branch (profile_of m) (pl_rows pl) vectors = Inr (dense, anchors1)"
      "lexical_branch (pl_streams pl) anchors1 = (lexical, anchors)" using rank_pool_Inr [OF r] by blast
    show ?thesis using anchors_bound [OF assms(3) [unfolded qv] pl(1) b] .
  qed
  have sel: "picked 10 (fst (rerank env q fused)) ?items" by (rule select_items_ok(1) [OF anchors])
  have sound: "pool_sound w (set (requested_ids (w_catalog w) ids)) pl"
    using load_documents_sound [OF pl(1) subset_refl] by simp
  have known: "cr_document (rw_chunk (fz_row x)) \<in> fst ` set (pl_artifacts pl)" if "x \<in> set fused" for x
  proof -
    obtain dense lexical where "fuse_ranks (profile_of m) (pl_by_chunk pl) dense lexical = Inr fused"
      using rank_pool_Inr [OF r] by blast
    from fuse_ranks_Inr(3) [OF this] that have "(fz_chunk x, fz_row x) \<in> set (pl_by_chunk pl)" by (blast dest: map_of_SomeD)
    with sound have "fz_row x \<in> set (pl_rows pl)" unfolding pool_sound_def by (metis snd_conv)
    with pl(2) show ?thesis by (simp add: pool_full_def)
  qed
  have "set ?items \<subseteq> set fused" using sel rerank_subset [of env q fused] unfolding picked_def by (meson subset_trans)
  then obtain base where b: "base_results env (pl_artifacts pl) ?items = Inr base" "\<forall>c \<in> set base. ca_document c \<in> fst ` set (pl_artifacts pl)"
    using base_results_total [of ?items "pl_artifacts pl" env] sel signal known unfolding picked_def by (meson subsetD)
  obtain results diag where f: "finish_query env w (requested_ids (w_catalog w) ids) pl base = Inr (results, diag)"
    using finish_query_total [OF base_results_Inr(2) [OF b(1)] b(2)] by blast
  let ?res = "\<lparr>qr_results = results, qr_diag = diag, qr_profile = profile_of m, qr_dense_count = length (pl_rows pl),
                 qr_lexical_count = hits, qr_query_count = length queries,
                 qr_coverage = filter (\<lambda>c. map_of (by_item (fst (rerank env q fused))) c \<noteq> None) anchors, qr_fallback = snd (rerank env q fused)\<rparr>"
  have run: "query_document_set env w q ids mode arg = Inr ?res"
    using assms(1-3) pl(1) r b(1) f by (simp add: query_document_set_def answer_mode_profile_def qv Let_def case_prod_beta)
  have stages: "query_stages env w q ids mode arg ?res (queries, vectors, pl, fused, anchors, base)"
    using assms(2,3) pl(1) r b(1) f by (auto simp: query_stages_def answer_mode_profile_def qv)
  have "ca_chunk ` set base = fz_chunk ` set ?items"
  proof -
    have "map ca_chunk base = map fz_chunk ?items"
      by (rule nth_equalityI) (simp_all add: base_results_Inr(1) [OF b(1)] nth_enumerate_eq)
    then show ?thesis by (metis set_map)
  qed
  then have "set (qr_coverage ?res) \<subseteq> ca_chunk ` set base"
    using select_items_ok(2) [OF anchors] by auto
  then show ?thesis using run stages_window(1,3) [OF stages] by (intro exI [of _ ?res]) simp
qed

text \<open>C6. A query over indexed documents is answered. If the question is not blank, the mode is known, the queries can be embedded
  and every requested document is ready with a complete index, then the query raises nothing. It shows at most ten retrieved
  candidates ranked from 1 in the order shown, at most twenty children between them, and no chunk twice; and every coverage
  anchor that survived the reranking is among the retrieved ones.\<close>

theorem query_answers:
  assumes "py_strip q \<noteq> []" and "mode_from_value mode = Inr m" and "embed_queries env q arg = Inr qv"
    and "\<forall>d \<in> set (requested_ids (w_catalog w) ids). servable env w d"
  shows "\<exists>res. query_document_set env w q ids mode arg = Inr res \<and> window_ok (map fst (qr_results res))
    \<and> set (qr_coverage res) \<subseteq> ca_chunk ` {c \<in> fst ` set (qr_results res). ca_origin c = RETRIEVAL}"
  using query_answered [OF assms] .

section \<open>One indexed document\<close>

definition queryable_world :: world where
  "queryable_world = sample_world\<lparr>w_catalog := empty_catalog\<lparr>cat_documents := [sample_document\<lparr>doc_state := DOC_INDEX_READY\<rparr>],
       cat_artifacts := [sample_artifact]\<rparr>,
     w_artifacts := [((''d1'', ''a1''), sample_db\<lparr>ad_embeddings := [\<lparr>em_chunk = ''c1'', em_model = ''m'', em_dimension = 768,
       em_normalized = 1, em_version = index_version, em_vector = unit_vector\<rparr>], ad_fts := [(''c1'', [65])],
       ad_index_tables := True\<rparr>)]\<rparr>"

definition plain_env :: query_env where
  "plain_env = \<lparr>qe_tables = sample_unicode, qe_model = True, qe_tokens = length, qe_max_tokens = 512, qe_encode = (\<lambda>_. Some unit_vector),
     qe_match = (\<lambda>rows e. map (\<lambda>r. (fst r, - 1)) rows), qe_metadata = (\<lambda>_. []), qe_split = (\<lambda>_. []), qe_reranker = None\<rparr>"

lemmas query_world_defs = queryable_world_def sample_world_def sample_document_def sample_artifact_def empty_catalog_def sample_db_def
  sample_chunk_row_def get_document_def get_artifact_def

lemma plain_active: "\<exists>db. active queryable_world ''d1'' ''a1'' db \<and> ad_units db = [] \<and> ad_index_tables db
    \<and> ad_chunks db = [sample_chunk_row] \<and> ad_embeddings db = [\<lparr>em_chunk = ''c1'', em_model = ''m'', em_dimension = 768,
       em_normalized = 1, em_version = index_version, em_vector = unit_vector\<rparr>]"
  by (simp add: active_def query_world_defs)

lemma plain_servable: "servable plain_env queryable_world ''d1''"
proof -
  obtain db where "active queryable_world ''d1'' ''a1'' db" "ad_units db = []" "ad_index_tables db" "ad_chunks db = [sample_chunk_row]"
    "ad_embeddings db = [\<lparr>em_chunk = ''c1'', em_model = ''m'', em_dimension = 768,
       em_normalized = 1, em_version = index_version, em_vector = unit_vector\<rparr>]"
    using plain_active by blast
  then show ?thesis unfolding servable_def
    by (intro exI [of _ "''a1''"] exI [of _ db] exI [of _ "''m''"])
      (simp add: artifact_resolver_def make_resolver_def valid_row_def embedding_dimension_def unit_vector_valid sample_chunk_row_def)
qed

lemma plain_embedded: "embedded_chunk queryable_world {''d1''} ''c1'' unit_vector"
  using plain_active by (fastforce simp: embedded_chunk_def sample_chunk_row_def)

lemma plain_queries: "embed_queries plain_env [65] No_Queries = Inr ([[65]], [unit_vector])"
  by (simp add: embed_queries_def normalized_queries_def plain_env_def encode_query_def Let_def unit_vector_valid)

lemma plain_requested: "requested_ids c (Some [''d1'']) = [''d1'']"
  by (simp add: requested_ids_def)

lemma plain_strip: "py_strip [65] \<noteq> []"
  by (simp add: strip_by_def py_space_def)

theorem query_answers_witness:
  "\<exists>res. query_document_set plain_env queryable_world [65] (Some [''d1'']) No_Mode No_Queries = Inr res
    \<and> window_ok (map fst (qr_results res))
    \<and> set (qr_coverage res) \<subseteq> ca_chunk ` {c \<in> fst ` set (qr_results res). ca_origin c = RETRIEVAL}"
  by (rule query_answers [OF plain_strip _ plain_queries]) (simp_all add: mode_from_value_def plain_requested plain_servable)

theorem query_finds_best_witness:
  "\<exists>res c a y. query_document_set plain_env queryable_world [65] (Some [''d1'']) No_Mode No_Queries = Inr res
    \<and> (c, a) \<in> set (qr_results res) \<and> embedded_chunk queryable_world {''d1''} (ca_chunk c) y \<and> dot unit_vector unit_vector \<le> dot unit_vector y"
proof -
  obtain res where res: "query_document_set plain_env queryable_world [65] (Some [''d1'']) No_Mode No_Queries = Inr res"
    using query_answered [OF plain_strip _ plain_queries, of No_Mode BALANCED queryable_world "Some [''d1'']"]
    by (auto simp: mode_from_value_def plain_requested plain_servable)
  have "qe_reranker plain_env = None" by (simp add: plain_env_def)
  from query_finds_best [OF res this plain_queries, of unit_vector "''c1''" unit_vector] plain_embedded res
  show ?thesis by (fastforce simp: plain_requested)
qed

theorem query_shows_stored_witness:
  "\<exists>res c a. query_document_set plain_env queryable_world [65] (Some [''d1'']) No_Mode No_Queries = Inr res
    \<and> (c, a) \<in> set (qr_results res) \<and> stored_result queryable_world {''d1''} c \<and> ca_document c = ''d1''"
proof -
  obtain res where res: "query_document_set plain_env queryable_world [65] (Some [''d1'']) No_Mode No_Queries = Inr res"
    using query_answered [OF plain_strip _ plain_queries, of No_Mode BALANCED queryable_world "Some [''d1'']"]
    by (auto simp: mode_from_value_def plain_requested plain_servable)
  have "qe_reranker plain_env = None" by (simp add: plain_env_def)
  from best_shown [OF res this plain_queries, of unit_vector "''c1''" unit_vector] plain_embedded
  obtain c a where "(c, a) \<in> set (qr_results res)" by (fastforce simp: plain_requested)
  with query_shows_stored [OF res this] res show ?thesis by (auto simp: plain_requested)
qed

text \<open>Searching the empty list of documents searches all of them.\<close>

lemma empty_list_is_all: "query_document_set env w q (Some []) mode arg = query_document_set env w q None mode arg"
  by (simp add: query_document_set_def requested_ids_def)

text \<open>A further query that is no question is reported as a missing model.\<close>

lemma blank_query_blames_model:
  "qe_model env \<Longrightarrow> py_strip q \<noteq> [] \<Longrightarrow>
     query_document_set env w q ids No_Mode (Queries [Some []]) = Inl (compute_exn MODEL_ARTIFACT_UNAVAILABLE)"
  by (simp add: query_document_set_def answer_mode_profile_def mode_from_value_def embed_queries_def normalized_queries_def strip_by_def)

end
