(* ===== verification/AnswerRuns.thy ===== *)
theory AnswerRuns
  imports Answering
begin

text \<open>
  Runs of the answer path on one indexed document with one chunk: a question that is answered with a citation, and a
  question of two parts, for which the plan takes the place of the answer mode.
\<close>

section \<open>One cited chunk\<close>

definition cite_chunk :: ident where "cite_chunk = replicate 32 CHR ''1''"

definition cite_row :: chunk_row where
  "cite_row = sample_chunk_row\<lparr>cr_id := cite_chunk, cr_document := sample_uuid\<rparr>"

definition cite_embedding :: embedding_row where
  "cite_embedding = \<lparr>em_chunk = cite_chunk, em_model = ''m'', em_dimension = 768,
       em_normalized = 1, em_version = index_version, em_vector = unit_vector\<rparr>"

definition cite_world :: world where
  "cite_world = sample_world\<lparr>w_catalog := empty_catalog\<lparr>cat_documents := [sample_document\<lparr>doc_id := sample_uuid, doc_state := DOC_INDEX_READY\<rparr>],
       cat_artifacts := [sample_artifact\<lparr>art_document := sample_uuid\<rparr>]\<rparr>,
     w_artifacts := [((''d1'', ''a1''), sample_db\<lparr>ad_chunks := [cite_row], ad_embeddings := [cite_embedding], ad_fts := [(cite_chunk, [65])],
       ad_index_tables := True\<rparr>)]\<rparr>"

lemmas cite_world_defs = cite_world_def sample_world_def sample_document_def sample_artifact_def empty_catalog_def sample_db_def
  cite_row_def sample_chunk_row_def get_document_def get_artifact_def cite_embedding_def

lemma cite_requested: "requested_ids (w_catalog cite_world) None = [sample_uuid]"
  by (simp add: requested_ids_def queryable_ids_def cite_world_defs)

definition cite_artifact_row :: artifact_row where
  "cite_artifact_row = \<lparr>rw_chunk = cite_row, rw_embedding = cite_embedding,
     rw_path = Some \<lparr>lp_unit = [117, 49], lp_type = None, lp_label = None, lp_ancestors = [], lp_labels = [], lp_category = None,
       lp_source = UNAVAILABLE\<rparr>\<rparr>"

definition cite_hit :: lexical_hit where
  "cite_hit = \<lparr>lh_chunk = cite_chunk, lh_document = sample_uuid, lh_bm25 = - 1, lh_rank = 1, lh_relative = 1\<rparr>"

definition cite_pool :: query_pool where
  "cite_pool = \<lparr>pl_artifacts = [(sample_uuid, ''a1'')], pl_resolvers = [(sample_uuid, \<lparr>rs_units = [], rs_source = LEGAL_UNIT_REPOSITORY\<rparr>)],
     pl_by_chunk = [(cite_chunk, cite_artifact_row)], pl_rows = [cite_artifact_row], pl_streams = [[[cite_hit]]]\<rparr>"

lemma cite_loaded: "load_documents plain_env cite_world (profile_of m) [[65]] [sample_uuid]
     \<lparr>pl_artifacts = [], pl_resolvers = [], pl_by_chunk = [], pl_rows = [], pl_streams = [[]]\<rparr> = Inr cite_pool"
  apply (simp add: load_document_def cite_world_defs artifact_resolver_def make_resolver_def extend_pool_def Let_def load_rows_def plain_env_def add_streams_def query_terms_def word_runs.simps sample_unicode_def viet_word_def dict_of_def dict_update_def lexical_stream_def best_score_def resolve_for_span_def resolve_def cite_artifact_row_def profile_of_def)
  apply (simp add: cite_pool_def cite_hit_def cite_artifact_row_def cite_world_defs)
 done

lemma unit_dot: "dot unit_vector unit_vector = 1"
  by (simp add: dot_def unit_vector_def vector_component_def zip_replicate sum_list_replicate)

definition cite_item :: fused_item where
  "cite_item = \<lparr>fz_score = 6 / 5 / 61 + 4 / 5 / 61, fz_chunk = cite_chunk, fz_row = cite_artifact_row, fz_dense = Some (1, 1), fz_lexical = Some (1, 1)\<rparr>"

lemma cite_ranked: "rank_pool plain_env (profile_of m) [unit_vector] cite_pool = Inr ([cite_item], [cite_chunk, cite_chunk], 1)"
  by (simp add: rank_pool_def dense_branch_def cite_pool_def cite_artifact_row_def cite_embedding_def cite_row_def valid_artifact_row_def unit_vector_valid
    note_branch_def global_dense_ranks_def unit_dot merge_branch_ranks_def dict_of_def lexical_branch_def global_lexical_ranks_def
    cite_hit_def od_setdefault_def fuse_ranks_def fuse_item_def weighted_score_def profile_of_def cite_item_def)

definition cite_candidate :: candidate_row where
  "cite_candidate = base_result plain_env 1 cite_item"

lemma cite_base: "base_results plain_env (pl_artifacts cite_pool) (select_items 10 [cite_item] [cite_chunk, cite_chunk]) = Inr [cite_candidate]"
  by (simp add: cite_pool_def select_items_def by_item_def dict_of_def cite_item_def base_results_def cite_candidate_def cite_artifact_row_def cite_row_def sample_chunk_row_def)
   (simp add: base_result_valid)

lemma cite_chunk_uuid: "is_uuid cite_chunk"
proof -
  have r: "remove_substring (c # p) cite_chunk = cite_chunk" if "c \<noteq> CHR ''1''" for c p
    using that by (intro remove_absent) (simp add: cite_chunk_def)
  have s: "strip_by P cite_chunk = cite_chunk" if "\<not> P CHR ''1''" for P
    using that by (intro strip_absent) (simp add: cite_chunk_def)
  have h: "hex_digits b (replicate n CHR ''1'') = (b \<or> 0 < n)" for b n
    by (induction n arbitrary: b) (auto simp: hex_digit_def)
  have sp: "\<not> py_space (of_char CHR ''1'')" by (simp add: py_space_def)
  have u: "cite_chunk = CHR ''1'' # CHR ''1'' # replicate 30 CHR ''1''" by (simp add: cite_chunk_def numeral_eq_Suc)
  have "hex_digits False cite_chunk" by (simp add: cite_chunk_def h)
  then have "parses_hex cite_chunk" unfolding parses_hex_def s [of "\<lambda>c. py_space (of_char c)", OF sp] Let_def by (simp add: u)
  then show ?thesis using r s by (simp add: is_uuid_def) (simp add: cite_chunk_def)
qed

lemma cite_candidate_simps: "ca_chunk cite_candidate = cite_chunk" "ca_document cite_candidate = sample_uuid" "ca_unit cite_candidate = Some ''u1''"
  "ca_rank cite_candidate = Some 1" "ca_content cite_candidate = [65]" "ca_order cite_candidate = 1" "candidate_valid cite_candidate" "ca_origin cite_candidate = RETRIEVAL"
  by (simp_all add: cite_candidate_def cite_item_def cite_artifact_row_def cite_row_def sample_chunk_row_def base_result_valid) (simp_all add: base_result_def Let_def)

lemma cite_find: "find_anchor cite_world [(sample_uuid, ''a1'')] docs c = Inr (Some (d, db, u)) \<Longrightarrow> ad_units db = []"
  by (auto simp: connect_artifact_def cite_world_defs split: if_splits option.splits)

lemma no_units_no_children: "ad_units db = [] \<Longrightarrow> children_for_anchor env c (d, db, u) = Inr xs \<Longrightarrow> xs = []"
  by (auto simp: children_for_anchor_def child_rows_def split: if_splits)

lemma cite_children: "lookup_direct_children plain_env cite_world [(sample_uuid, ''a1'')] anchors docs = Inr rows \<Longrightarrow> rows = []"
  unfolding lookup_direct_children_def
proof (induction anchors arbitrary: rows)
  case (Cons c cs)
  have "xs = []" if "and_then (find_anchor cite_world [(sample_uuid, ''a1'')] docs c) (\<lambda>found. case found of None \<Rightarrow> Inr []
      | Some f \<Rightarrow> children_for_anchor plain_env c f) = Inr xs" for xs
  proof -
    from that obtain f where f: "find_anchor cite_world [(sample_uuid, ''a1'')] docs c = Inr f"
      "(case f of None \<Rightarrow> Inr [] | Some f \<Rightarrow> children_for_anchor plain_env c f) = Inr xs"
      unfolding and_then_Inr by blast
    show ?thesis
    proof (cases f)
      case None
      then show ?thesis using f(2) by simp
    next
      case (Some x)
      then show ?thesis using f cite_find no_units_no_children by (cases x) fastforce
    qed
  qed
  with Cons show ?case by (auto simp: and_then_Inr)
qed simp

lemma cite_finished: "\<exists>d c. finish_query plain_env cite_world [sample_uuid] cite_pool [cite_candidate] = Inr ([(c, ''a1'')], d)
   \<and> ca_chunk c = cite_chunk \<and> ca_document c = sample_uuid \<and> ca_content c = [65] \<and> ca_order c = 1 \<and> candidate_valid c
   \<and> ca_dense_rank c = Some 1 \<and> ca_lexical_rank c = Some 1 \<and> \<not> unhashable_source (ca_metadata c) \<and> category_root (ca_metadata c) = None"
proof -
  have base: "\<forall>c \<in> set [cite_candidate]. candidate_valid c \<and> ca_origin c = RETRIEVAL" by (simp add: cite_candidate_simps)
  have doc: "\<forall>c \<in> set [cite_candidate]. ca_document c \<in> fst ` set (pl_artifacts cite_pool)" by (simp add: cite_candidate_simps cite_pool_def)
  obtain results d where run: "finish_query plain_env cite_world [sample_uuid] cite_pool [cite_candidate] = Inr (results, d)"
    using finish_query_total [OF base doc] by blast
  obtain css where css: "blocks (returned (lookup_direct_children plain_env cite_world (pl_artifacts cite_pool)) [sample_uuid])
      (order_candidates [cite_candidate]) [sample_uuid] css"
    and results: "results = map (\<lambda>c. (enrich_path (map_of (pl_resolvers cite_pool) (ca_document c)) c,
        the (map_of (pl_artifacts cite_pool) (ca_document c)))) (renumber_base (interleave (order_candidates [cite_candidate]) css))"
    using finish_query_Inr [OF run base] by blast
  have "\<not> returned (lookup_direct_children plain_env cite_world (pl_artifacts cite_pool)) [sample_uuid] r" for r
    using cite_children by (fastforce simp: returned_def cite_pool_def)
  then have "concat css = []"
    using css unfolding blocks_def by (metis list.set_intros(1) neq_Nil_conv)
  moreover have "length css = 1" using css by (simp add: blocks_def order_candidates_def)
  ultimately have "css = [[]]" by (cases css) auto
  then have "results = [(enrich_path (map_of (pl_resolvers cite_pool) sample_uuid) (cite_candidate\<lparr>ca_order := 1\<rparr>), ''a1'')]"
    by (simp add: results order_candidates_def renumber_base_def cite_candidate_simps cite_pool_def)
  moreover have "candidate_valid (enrich_path rs (cite_candidate\<lparr>ca_order := 1\<rparr>))" for rs
    using cite_candidate_simps(7) by (simp add: cite_candidate_simps(8) rank_ok_def candidate_valid_def enrich_path_def retrieval_contract_def split: option.splits candidate_origin.splits)
  moreover have "ca_dense_rank (enrich_path rs (cite_candidate\<lparr>ca_order := 1\<rparr>)) = Some 1
      \<and> ca_lexical_rank (enrich_path rs (cite_candidate\<lparr>ca_order := 1\<rparr>)) = Some 1" for rs
    by (simp add: enrich_path_def cite_candidate_def base_result_def cite_item_def Let_def split: option.splits)
  moreover have "\<not> unhashable_source (ca_metadata (enrich_path (map_of (pl_resolvers cite_pool) sample_uuid) (cite_candidate\<lparr>ca_order := 1\<rparr>)))"
    "category_root (ca_metadata (enrich_path (map_of (pl_resolvers cite_pool) sample_uuid) (cite_candidate\<lparr>ca_order := 1\<rparr>))) = None"
    apply (simp_all add: enrich_path_def cite_pool_def cite_candidate_def base_result_def cite_item_def Let_def resolve_for_span_def resolve_def
      cite_artifact_row_def cite_row_def sample_chunk_row_def unhashable_source_def category_root_def authoritative_path_def meta_dict_def with_path_def
      path_metadata_def meta_str_def meta_int_def chunk_provenance_def plain_env_def resolver_sources_def option_meta_def)
    done
  ultimately show ?thesis using run by (simp add: cite_candidate_simps)
qed

lemma cite_query: "\<exists>res c. query_document_set plain_env cite_world [65] None No_Mode No_Queries = Inr res
    \<and> qr_results res = [(c, ''a1'')] \<and> candidate_valid c
    \<and> ca_chunk c = cite_chunk \<and> ca_document c = sample_uuid \<and> ca_content c = [65] \<and> ca_order c = 1
    \<and> ca_dense_rank c = Some 1 \<and> ca_lexical_rank c = Some 1 \<and> \<not> unhashable_source (ca_metadata c) \<and> category_root (ca_metadata c) = None"
proof -
  obtain d c where f: "finish_query plain_env cite_world [sample_uuid] cite_pool [cite_candidate] = Inr ([(c, ''a1'')], d)"
    and c: "ca_chunk c = cite_chunk \<and> ca_document c = sample_uuid \<and> ca_content c = [65] \<and> ca_order c = 1 \<and> candidate_valid c
   \<and> ca_dense_rank c = Some 1 \<and> ca_lexical_rank c = Some 1 \<and> \<not> unhashable_source (ca_metadata c) \<and> category_root (ca_metadata c) = None"
    using cite_finished by blast
  have "mp_final (profile_of BALANCED) = 10" by (simp add: profile_of_def)
  moreover have "rerank plain_env [65] [cite_item] = ([cite_item], False)" by (simp add: rerank_def plain_env_def)
  ultimately show ?thesis using plain_strip c
    by (intro exI [of _ "\<lparr>qr_results = [(c, ''a1'')], qr_diag = d, qr_profile = profile_of BALANCED, qr_dense_count = length (pl_rows cite_pool),
       qr_lexical_count = 1, qr_query_count = 1, qr_coverage = filter (\<lambda>c. map_of (by_item [cite_item]) c \<noteq> None) [cite_chunk, cite_chunk], qr_fallback = False\<rparr>"]
      exI [of _ c]) (simp add: query_document_set_def answer_mode_profile_def mode_from_value_def plain_queries cite_requested cite_loaded cite_ranked cite_base f
        del: load_documents.simps)
qed

definition cite_profile :: generation_profile where
  "cite_profile = \<lparr>gp_provider = ''ollama'', gp_model = ''m'', gp_tokenizer = ''t'', gp_context_limit = 9000, gp_context_budget = 4096,
     gp_max_output = 512, gp_margin = 64, gp_temperature = 0, gp_top_p = 1, gp_top_k = 1, gp_prompt_version = ''legal-rag-v1'', gp_timeout = 60\<rparr>"

definition cite_env :: "unit gen_env" where
  "cite_env = \<lparr>ge_query = plain_env, ge_structured = False, ge_count = (\<lambda>_. 1), ge_prompt_count = (\<lambda>_. 1), ge_prompt_file = (\<lambda>_. Some []),
     ge_decode = (\<lambda>_. None), ge_local_health = (\<lambda>_. None),
     ge_local_reply = (\<lambda>_. Inr \<lparr>lr_text = Some (ascii ''[STATUS: ANSWERABLE] x [S1]''), lr_finish = None, lr_usage = None\<rparr>),
     ge_cloud_health = (\<lambda>_. None), ge_cloud_reply = (\<lambda>_. Inl GENERATION_UNAVAILABLE),
     ge_registry = \<lparr>rg_secure = True, rg_memory = False, rg_development = False, rg_secrets = (\<lambda>_. None), rg_providers = []\<rparr>\<rparr>"

lemma cite_context:
  assumes "candidate_valid c" "ca_chunk c = cite_chunk" "ca_document c = sample_uuid" "ca_content c = [65]" "ca_order c = 1"
    "ca_dense_rank c = Some 1" "ca_lexical_rank c = Some 1" "\<not> unhashable_source (ca_metadata c)" "category_root (ca_metadata c) = None"
  shows "\<exists>pkg. build_local_context cite_env [105] [65] [(c, a)] 4096 = Inr pkg
    \<and> pk_selected pkg = [\<lparr>se_source = ''S1'', se_candidate = c, se_tokens = 1\<rparr>] \<and> pk_selected_count pkg = 1"
  using assms cite_chunk_uuid sample_is_uuid
  apply (simp add: build_local_context_def build_context_def op_simps lift_context_def validate_input_def model_validate_def positive_rank_def
    strip_by_def py_space_def counted_def nat_str.simps char_of_49 pure_counter_def cite_env_def choose_text_def source_id_def)
  done

lemma short_plan:
  assumes "py_strip q \<noteq> []" and "length (py_strip (uc_nfc u q)) < 12"
  shows "\<exists>p. plan_query u q = Some p \<and> length (qp_queries p) = 1"
proof -
  obtain p rest where p: "plan_query u q = Some p" "qp_queries p = py_strip (uc_nfc u q) # rest" "\<forall>f \<in> set rest. clause_of (py_strip (uc_nfc u q)) f"
    using plan_query_sound [OF assms(1), of u] by blast
  have "\<not> clause_of (py_strip (uc_nfc u q)) f" for f
    using assms(2) unfolding clause_of_def by (meson leD less_le_trans sublist_length_le)
  with p show ?thesis by (cases rest) auto
qed

lemma cite_answer: "\<exists>resp tr' c. answer cite_env cite_world cite_profile [105] (Some [65]) No_Ids None No_Mode [] = (Inr resp, tr')
    \<and> c \<in> set (gr_citations (an_result resp))"
proof -
  obtain plan where plan: "plan_query sample_unicode [65] = Some plan" "length (qp_queries plan) = 1"
    using short_plan [of "[65]" sample_unicode] by (auto simp: strip_by_def py_space_def sample_unicode_def)
  have args: "retrieval_args No_Mode BALANCED plan = (No_Mode, No_Queries)" using plan(2) by (simp add: retrieval_args_def)
  obtain res c where res: "query_document_set plain_env cite_world [65] None No_Mode No_Queries = Inr res" "qr_results res = [(c, ''a1'')]"
    and c: "candidate_valid c" "ca_chunk c = cite_chunk" "ca_document c = sample_uuid" "ca_content c = [65]" "ca_order c = 1"
    "ca_dense_rank c = Some 1" "ca_lexical_rank c = Some 1" "\<not> unhashable_source (ca_metadata c)" "category_root (ca_metadata c) = None"
    using cite_query by blast
  obtain pkg where pkg: "build_local_context cite_env [105] [65] [(c, ''a1'')] 4096 = Inr pkg"
    "pk_selected pkg = [\<lparr>se_source = ''S1'', se_candidate = c, se_tokens = 1\<rparr>]" "pk_selected_count pkg = 1"
    using cite_context [OF c] by blast
  have "validate_request (Some [65]) No_Ids = Inr ([65], None)" by (simp add: validate_request_def strip_by_def py_space_def)
  moreover have "ge_query cite_env = plain_env" "qe_tables plain_env = sample_unicode" "gp_context_budget cite_profile = 4096" "mp_budget (profile_of BALANCED) = 4096"
    "mp_mode (profile_of BALANCED) = BALANCED"
    by (simp_all add: cite_env_def plain_env_def cite_profile_def profile_of_def)
  ultimately have p: "prepare_answer cite_env cite_world cite_profile [105] (Some [65]) No_Ids No_Mode = Inr (profile_of BALANCED, plan, res, pkg)"
    by (simp add: prepare_answer_def answer_mode_profile_def mode_from_value_def plan args res pkg)
  have "\<exists>d x tr'. generate_answer cite_env cite_profile [105] pkg (profile_of BALANCED) default_routing [] = (Inr (d, x), tr')
      \<and> gr_citations x = [citation_of ''S1'' \<lparr>se_source = ''S1'', se_candidate = c, se_tokens = 1\<rparr>]"
    apply (simp add: generate_answer_def op_simps lift_exn_def assemble_messages_def load_system_prompt_def prompt_versions_def cite_profile_def cite_env_def
      resolve_route_def default_routing_def try_local_def local_ready_def local_availability_def reach_def Let_def provider_generate_def local_generate_def check_reply_def
      finish_reply_def extend_system_def
      finalize_generation_result_def parse_answerability_def marker_at_def starts_marker_def
      marker_start_def same_letter_def valid_prefix_def after_colon_def closed_by_def starts_with_def blank_def
      blank_or_newline_def validate_and_map_citations_def parse_citation_ids_def citation_at_def digit_def Let_def
      available_sources_def char_of_49 pkg)
    done
  with p pkg show ?thesis by (auto simp: answer_split then_op_apply return_op_def)
qed


theorem answer_cites_stored_witness:
  "\<exists>resp tr' c query docs mp plan res pkg.
    answer cite_env cite_world cite_profile [105] (Some [65]) No_Ids None No_Mode [] = (Inr resp, tr')
    \<and> c \<in> set (gr_citations (an_result resp)) \<and> validate_request (Some [65]) No_Ids = Inr (query, docs)
    \<and> prepare_answer cite_env cite_world cite_profile [105] (Some [65]) No_Ids No_Mode = Inr (mp, plan, res, pkg)
    \<and> cites_stored cite_world (set (requested_ids (w_catalog cite_world) docs)) pkg c"
proof -
  obtain resp tr' c where run: "answer cite_env cite_world cite_profile [105] (Some [65]) No_Ids None No_Mode [] = (Inr resp, tr')"
    "c \<in> set (gr_citations (an_result resp))"
    using cite_answer by blast
  from answer_cites_stored [OF run] run show ?thesis by blast
qed

theorem answer_contacts_witness:
  "\<exists>new. snd (answer cite_env cite_world cite_profile [105] (Some [65]) No_Ids None No_Mode []) = [] @ new
    \<and> length (filter is_chat new) \<le> 1"
  using answer_contacts [of cite_env cite_world cite_profile "[105]" "Some [65]" No_Ids None No_Mode "[]"] by blast

section \<open>A configured cloud\<close>

definition cite_cloud :: cloud_config where
  "cite_cloud = \<lparr>cc_id = sample_uuid, cc_endpoint = \<lparr>ur_scheme = ''https'', ur_host = ''h'', ur_user = False, ur_password = False,
     ur_query = False, ur_fragment = False\<rparr>, cc_model = ''m'', cc_credential = ''k'', cc_transport = ''OPENAI_COMPATIBLE'', cc_enabled = True\<rparr>"

definition bare_registry :: registry where
  "bare_registry = \<lparr>rg_secure = True, rg_memory = False, rg_development = False, rg_secrets = (\<lambda>_. Some ''s''), rg_providers = []\<rparr>"

definition cloud_env :: "unit gen_env" where
  "cloud_env = cite_env\<lparr>ge_registry := foldl registry_step bare_registry [cite_cloud]\<rparr>"

definition cloud_request :: routing_request where
  "cloud_request = \<lparr>rt_policy = USER_CLOUD_ONLY, rt_config = Some sample_uuid, rt_allow_cloud = False, rt_allow_local = False\<rparr>"

lemma cloud_registered: "foldl registry_step bare_registry [cite_cloud] = bare_registry\<lparr>rg_providers := [(sample_uuid, cite_cloud)]\<rparr>"
  using sample_is_uuid
  by (simp add: registry_step_def configure_def bare_registry_def validate_config_def cite_cloud_def strip_by_def py_space_def)

lemma cloud_env_simps: "ge_registry cloud_env = bare_registry\<lparr>rg_providers := [(sample_uuid, cite_cloud)]\<rparr>"
  "ge_cloud_health cloud_env = (\<lambda>_. None)"
  using cloud_registered by (simp_all add: cloud_env_def cite_env_def)

lemma sample_uuid_nonempty: "sample_uuid \<noteq> []"
  by (simp add: sample_uuid_def)

theorem production_route_https_witness:
  "\<exists>d tr' c. resolve_route cloud_env cite_profile cloud_request [] = (Inr d, tr') \<and> rd_provider d = Cloud_Provider c
    \<and> ur_scheme (cc_endpoint c) = ''https'' \<and> tr' = [Cloud_Health sample_uuid]"
proof -
  have run: "resolve_route cloud_env cite_profile cloud_request [] = (Inr \<lparr>rd_provider = Cloud_Provider cite_cloud,
      rd_policy = USER_CLOUD_ONLY, rd_fallback = False\<rparr>, [Cloud_Health sample_uuid])"
    by (simp add: resolve_route_def cloud_request_def try_cloud_def cloud_ready_def op_simps lift_exn_def registry_provider_def
        cloud_env_simps bare_registry_def sample_uuid_nonempty cloud_availability_def cite_cloud_def has_secret_def reach_def Let_def)
  have "rg_providers bare_registry = []" "\<not> rg_development bare_registry" "ge_registry cloud_env = foldl registry_step bare_registry [cite_cloud]"
    by (simp_all add: bare_registry_def cloud_env_def)
  from production_route_https [OF this run, of cite_cloud] run show ?thesis by simp
qed

section \<open>The plan takes the place of the mode\<close>

definition two_part_question :: pytext where
  "two_part_question = ascii ''%;aaaaaaaaaaaa''"

lemma two_part_plan: "\<exists>p. plan_query sample_unicode two_part_question = Some p \<and> length (qp_queries p) = 2"
  apply (simp add: plan_query_def two_part_question_def strip_by_def py_space_def sample_unicode_def plan_kind_def numeric_rx_def rx_any_def numeric_words_def clause_rx_def
    rx_split_from.simps scaffold_def in_chars_def make_plan_def and_word_def whole_word_def slice_def Let_def parse_run)
  done

text \<open>C8. When no answer mode is given, a question whose plan has a second query is never answered: the queries stand where the retrieval
  expects the mode, and every such request ends in INVALID_REQUEST, before anything is read or anybody is contacted.\<close>

theorem plan_takes_mode_place:
  assumes "plan_query (qe_tables (ge_query env)) (py_strip q) = Some plan" and "1 < length (qp_queries plan)"
  shows "answer env w p request (Some q) ids routing No_Mode tr = (Inl (compute_exn INVALID_REQUEST), tr)"
proof -
  have "prepare_answer env w p request (Some q) ids No_Mode = Inl (compute_exn INVALID_REQUEST)"
    using assms by (auto simp: prepare_answer_def validate_request_def answer_mode_profile_def mode_from_value_def retrieval_args_def
        query_document_set_def split: ids_arg.split)
  then show ?thesis by (simp add: answer_split)
qed

theorem plan_takes_mode_place_witness:
  "answer cite_env cite_world cite_profile [105] (Some two_part_question) No_Ids None No_Mode [] = (Inl (compute_exn INVALID_REQUEST), [])"
proof -
  have s: "py_strip two_part_question = two_part_question" by (simp add: two_part_question_def strip_by_def py_space_def)
  have e: "qe_tables (ge_query cite_env) = sample_unicode" by (simp add: cite_env_def plain_env_def)
  obtain p where "plan_query sample_unicode two_part_question = Some p" "1 < length (qp_queries p)" using two_part_plan by fastforce
  then show ?thesis by (intro plan_takes_mode_place [where plan = p]) (simp_all only: s e)
qed

end
