(* ===== verification/ControlChannel.thy ===== *)
theory ControlChannel
  imports Runtime
begin

text \<open>
  The control channel to the platform (\<open>app/local_compute/control_channel.py\<close>): signed heartbeats and manifests, retries with
  growing delays, revocation. The clock, the nonces, the transport, the signature, JSON and the credential store are
  parameters, which may answer differently at every call; other threads may queue manifests while a request is on its way.
\<close>

section \<open>State\<close>

datatype channel_state = CH_DISCONNECTED | CH_CONNECTING | CH_CONNECTED | CH_BACKING_OFF | CH_REVOKED | CH_UPDATE_REQUIRED

definition forbidden_fields :: "string list" where
  "forbidden_fields = [''pdf_bytes'', ''page_text'', ''reconstructed_text'', ''chunk_text'', ''chunks'', ''embedding'', ''embeddings'',
     ''vector'', ''prompt'', ''context'', ''answer'', ''query'', ''credential'', ''secret'', ''private_key'']"

definition int_str :: "int \<Rightarrow> string" where
  "int_str n = (if n < 0 then CHR ''-'' # nat_str (nat (- n)) else nat_str (nat n))"

text \<open>\<open>int(x)\<close> of a float cuts off the fraction.\<close>

definition cut_off :: "rat \<Rightarrow> int" where
  "cut_off x = (if x < 0 then \<lceil>x\<rceil> else \<lfloor>x\<rfloor>)"

definition canonical_device_request :: "(string \<Rightarrow> string) \<Rightarrow> string \<Rightarrow> string \<Rightarrow> int \<Rightarrow> string \<Rightarrow> string \<Rightarrow> string \<Rightarrow> string" where
  "canonical_device_request sha method path epoch ts nonce body =
     join_with ''|'' [map to_upper method, path, int_str epoch, ts, nonce, sha body]"

record device_request =
  dq_path :: string
  dq_payload :: payload
  dq_device :: ident
  dq_epoch :: int
  dq_timestamp :: string
  dq_nonce :: string
  dq_signature :: string

record channel_world =
  cw_runtime :: runtime
  cw_state :: channel_state
  cw_next :: rat
  cw_backoff :: rat
  cw_reads :: nat
  cw_sent :: "device_request list"

text \<open>The clock, the jitter and the key are read at the \<open>cw_reads\<close>-th reading; the nonce, the reply and what other threads queue
  belong to the request with that number. A reply is a status and a JSON value; an exception of the transport is an error.\<close>

record channel_env =
  ce_clock :: "nat \<Rightarrow> rat"
  ce_jitter :: "nat \<Rightarrow> rat"
  ce_key :: "nat \<Rightarrow> py_exn + string option"
  ce_nonce :: "nat \<Rightarrow> string"
  ce_json :: "payload \<Rightarrow> string"
  ce_sha :: "string \<Rightarrow> string"
  ce_sign :: "string \<Rightarrow> string \<Rightarrow> string"
  ce_reply :: "nat \<Rightarrow> py_exn + int \<times> json"
  ce_others :: "nat \<Rightarrow> (ident \<times> payload \<times> seconds) list"

type_synonym 'a cop = "(channel_world, py_exn, 'a) op"

abbreviation cw_catalog :: "channel_world \<Rightarrow> catalog" where
  "cw_catalog w \<equiv> rt_catalog (cw_runtime w)"

definition on_catalog :: "(catalog \<Rightarrow> catalog) \<Rightarrow> channel_world \<Rightarrow> channel_world" where
  "on_catalog f w = w\<lparr>cw_runtime := (cw_runtime w)\<lparr>rt_catalog := f (cw_catalog w)\<rparr>\<rparr>"

definition read_clock :: "channel_env \<Rightarrow> rat cop" where
  "read_clock env = (\<lambda>w. (Inr (ce_clock env (cw_reads w)), w\<lparr>cw_reads := Suc (cw_reads w)\<rparr>))"

section \<open>Requests\<close>

fun json_truthy :: "json \<Rightarrow> bool" where
  "json_truthy JNull = False"
| "json_truthy (JBool b) = b"
| "json_truthy (JInt n) = (n \<noteq> 0)"
| "json_truthy (JFloat q) = (q \<noteq> 0)"
| "json_truthy (JStr s) = (s \<noteq> [])"
| "json_truthy (JArray xs) = (xs \<noteq> [])"
| "json_truthy (JObject m) = (m \<noteq> [])"

definition code_of_text :: "string \<Rightarrow> error_code" where
  "code_of_text s = (if s = ''DEVICE_REVOKED'' then DEVICE_REVOKED
     else if s = ''PROTOCOL_VERSION_UNSUPPORTED'' then PROTOCOL_VERSION_UNSUPPORTED
     else if s = ''DEVICE_AUTH_INVALID'' then CREDENTIAL_EPOCH_MISMATCH
     else if s = ''MANIFEST_INVALID'' then MANIFEST_INVALID
     else if s = ''FORBIDDEN_MANIFEST_CONTENT'' then FORBIDDEN_MANIFEST_CONTENT else CONTROL_CHANNEL_UNAVAILABLE)"

text \<open>The error of a refused request. A \<open>detail\<close> that is no object has no \<open>get\<close>; a list or an object cannot be looked up.\<close>

definition refusal :: "payload \<Rightarrow> py_exn" where
  "refusal r = (let pick = \<lambda>m otherwise. (case map_of m ''error_code'' of Some v \<Rightarrow> if json_truthy v then v else otherwise | None \<Rightarrow> otherwise);
       top = pick r (JStr ''CONTROL_CHANNEL_UNAVAILABLE'');
       find_code = \<lambda>v. (case v of JStr s \<Rightarrow> compute_exn (code_of_text s) | JArray _ \<Rightarrow> TypeError | JObject _ \<Rightarrow> TypeError
         | _ \<Rightarrow> compute_exn CONTROL_CHANNEL_UNAVAILABLE)
     in case map_of r ''detail'' of None \<Rightarrow> find_code top | Some (JObject d) \<Rightarrow> find_code (pick d top) | Some _ \<Rightarrow> OtherException)"

definition sign_request :: "channel_env \<Rightarrow> paired_device \<Rightarrow> string \<Rightarrow> string \<Rightarrow> payload \<Rightarrow> rat \<Rightarrow> nat \<Rightarrow> device_request" where
  "sign_request env paired key path payload t n = (let ts = int_str (cut_off t); nonce = ce_nonce env n in
     \<lparr>dq_path = path, dq_payload = payload, dq_device = pd_device_id paired, dq_epoch = pd_credential_epoch paired,
      dq_timestamp = ts, dq_nonce = nonce,
      dq_signature = ce_sign env key (canonical_device_request (ce_sha env) ''POST'' path (pd_credential_epoch paired) ts nonce
        (ce_json env payload))\<rparr>)"

definition queue_others :: "(ident \<times> payload \<times> seconds) list \<Rightarrow> catalog \<Rightarrow> catalog" where
  "queue_others qs c = fold (\<lambda>(d, p, now). enqueue_control_manifest d p now) qs c"

definition exchange :: "channel_env \<Rightarrow> device_request \<Rightarrow> (int \<times> json) cop" where
  "exchange env q = (\<lambda>w. (ce_reply env (length (cw_sent w)),
     on_catalog (queue_others (ce_others env (length (cw_sent w)))) (w\<lparr>cw_sent := cw_sent w @ [q]\<rparr>)))"

definition send_request :: "channel_env \<Rightarrow> paired_device \<Rightarrow> string \<Rightarrow> string \<Rightarrow> payload \<Rightarrow> unit cop" where
  "send_request env paired key path payload = then_op (read_clock env) (\<lambda>t.
     then_op (gets_op (\<lambda>w. length (cw_sent w))) (\<lambda>n.
     then_op (exchange env (sign_request env paired key path payload t n)) (\<lambda>(status, reply).
       case reply of JObject r \<Rightarrow> if 200 \<le> status \<and> status < 300 then return_op () else raise_op (refusal r)
       | _ \<Rightarrow> raise_op (compute_exn CONTROL_CHANNEL_UNAVAILABLE))))"

definition presence_path :: string where "presence_path = ''/api/v1/compute/control/presence''"

definition manifest_path :: string where "manifest_path = ''/api/v1/compute/control/manifests''"

definition has_forbidden :: "payload \<Rightarrow> bool" where
  "has_forbidden p \<longleftrightarrow> (\<exists>k \<in> set (map fst p). k \<in> set forbidden_fields)"

definition publish_manifest :: "channel_env \<Rightarrow> paired_device \<Rightarrow> string \<Rightarrow> payload \<Rightarrow> unit cop" where
  "publish_manifest env paired key p = (if has_forbidden p then raise_op (compute_exn FORBIDDEN_MANIFEST_CONTENT)
     else send_request env paired key manifest_path p)"

definition presence_payload :: "runtime \<Rightarrow> payload" where
  "presence_payload r = [(''state'', JStr (state_value (rt_state r))), (''protocol_version'', JStr (cf_protocol_version (rt_settings r))),
     (''runtime_version'', JStr (cf_runtime_version (rt_settings r))), (''endpoint_generation'', JStr (rt_generation r)),
     (''endpoint_port'', case rt_bound_port r of None \<Rightarrow> JNull | Some n \<Rightarrow> JInt n),
     (''capabilities'', JObject (map (\<lambda>(k, v). (k, JStr v)) (capabilities r))),
     (''provider_metadata'', JObject [(''LOCAL'', JStr (rt_capability r)), (''USER_CLOUD'', JStr ''NOT_CONFIGURED''),
        (''PLATFORM_CLOUD'', JStr ''DISABLED'')])]"

section \<open>The channel\<close>

definition load_key :: "channel_env \<Rightarrow> string option cop" where
  "load_key env = (\<lambda>w. (ce_key env (cw_reads w), w\<lparr>cw_reads := Suc (cw_reads w)\<rparr>))"

definition load_client :: "channel_env \<Rightarrow> (paired_device \<times> string) cop" where
  "load_client env = then_op (gets_op (\<lambda>w. get_paired_device_state (cw_catalog w))) (\<lambda>p. case p of
     None \<Rightarrow> raise_op (compute_exn NOT_PAIRED)
   | Some paired \<Rightarrow> then_op (load_key env) (\<lambda>k. case k of
       None \<Rightarrow> raise_op (compute_exn CONTROL_CHANNEL_UNAVAILABLE) | Some key \<Rightarrow> return_op (paired, key)))"

fun deliver :: "channel_env \<Rightarrow> paired_device \<Rightarrow> string \<Rightarrow> outbox_row list \<Rightarrow> unit cop" where
  "deliver env paired key [] = return_op ()"
| "deliver env paired key (r # rs) = seq_op (publish_manifest env paired key (ob_payload r))
     (then_op (read_clock env) (\<lambda>t.
       seq_op (modify_op (on_catalog (mark_control_manifest_delivered (ob_document r) (cut_off t)))) (deliver env paired key rs)))"

definition set_connected :: "channel_env \<Rightarrow> unit cop" where
  "set_connected env = seq_op (modify_op (\<lambda>w. w\<lparr>cw_state := CH_CONNECTED, cw_backoff := cf_backoff_min (rt_settings (cw_runtime w))\<rparr>))
     (then_op (read_clock env) (\<lambda>t. modify_op (\<lambda>w. w\<lparr>cw_next := t + rat_of_int (cf_heartbeat (rt_settings (cw_runtime w)))\<rparr>)))"

definition schedule_retry :: "channel_env \<Rightarrow> unit cop" where
  "schedule_retry env = (\<lambda>w. let delay = cw_backoff w * (1 + ce_jitter env (cw_reads w) * (1 / 5)) in
     (Inr (), w\<lparr>cw_state := CH_BACKING_OFF, cw_next := ce_clock env (cw_reads w) + delay,
        cw_backoff := min (cw_backoff w * 2) (cf_backoff_max (rt_settings (cw_runtime w))), cw_reads := Suc (cw_reads w)\<rparr>))"

definition publish_all :: "channel_env \<Rightarrow> unit cop" where
  "publish_all env = then_op (load_client env) (\<lambda>(paired, key).
     then_op (gets_op (\<lambda>w. presence_payload (cw_runtime w))) (\<lambda>p.
     seq_op (send_request env paired key presence_path p)
       (then_op (gets_op (\<lambda>w. pending_control_manifests (cw_catalog w))) (\<lambda>rows.
         seq_op (deliver env paired key rows) (set_connected env)))))"

definition tick_failed :: "channel_env \<Rightarrow> py_exn \<Rightarrow> unit cop" where
  "tick_failed env e = (case e of
     Compute x \<Rightarrow>
       if err_code x \<in> {DEVICE_REVOKED, CREDENTIAL_EPOCH_MISMATCH}
       then modify_op (\<lambda>w. w\<lparr>cw_state := CH_REVOKED, cw_runtime := revoke_runtime (cw_runtime w)\<rparr>)
       else if err_code x = PROTOCOL_VERSION_UNSUPPORTED
       then modify_op (\<lambda>w. w\<lparr>cw_state := CH_UPDATE_REQUIRED, cw_runtime := set_update_required (cw_runtime w)\<rparr>)
       else schedule_retry env
   | _ \<Rightarrow> schedule_retry env)"

definition stopped :: "channel_world \<Rightarrow> bool" where
  "stopped w \<longleftrightarrow> cw_state w \<in> {CH_REVOKED, CH_UPDATE_REQUIRED}"

definition tick :: "channel_env \<Rightarrow> unit cop" where
  "tick env = (\<lambda>w. if stopped w then (Inr (), w)
     else then_op (read_clock env) (\<lambda>t. then_op (gets_op cw_next) (\<lambda>next.
       if t < next then return_op ()
       else seq_op (modify_op (\<lambda>w. w\<lparr>cw_state := CH_CONNECTING\<rparr>)) (catch_op (publish_all env) (tick_failed env)))) w)"

section \<open>Pairing and queueing\<close>

definition new_channel :: "runtime \<Rightarrow> channel_world" where
  "new_channel r = \<lparr>cw_runtime = r, cw_state = CH_DISCONNECTED, cw_next = 0, cw_backoff = cf_backoff_min (rt_settings r), cw_reads = 0, cw_sent = []\<rparr>"

definition should_run :: "channel_world \<Rightarrow> bool" where
  "should_run w \<longleftrightarrow> get_paired_device_state (cw_catalog w) \<noteq> None \<and> \<not> stopped w"

definition complete_pairing_state :: "channel_env \<Rightarrow> ident \<Rightarrow> ident option \<Rightarrow> int \<Rightarrow> unit cop" where
  "complete_pairing_state env d owner epoch = then_op (load_key env) (\<lambda>k. case k of
     None \<Rightarrow> raise_op (compute_exn CREDENTIAL_STORE_UNAVAILABLE)
   | Some _ \<Rightarrow> modify_op (\<lambda>w. on_catalog (set_paired_device_state \<lparr>pd_device_id = d, pd_owner_user_id = owner, pd_credential_epoch = epoch,
       pd_platform_base_url = cf_platform_base_url (rt_settings (cw_runtime w)),
       pd_protocol_version = cf_protocol_version (rt_settings (cw_runtime w)), pd_pairing_state = ''PAIRED'',
       pd_revocation_state = ''ACTIVE''\<rparr>) w))"

definition required_fields :: "string list" where
  "required_fields = [''document_id'', ''preparation_state'', ''index_state'', ''local_availability'']"

definition allowed_fields :: "string list" where
  "allowed_fields = [''document_id'', ''filename'', ''size_bytes'', ''preparation_state'', ''index_state'', ''chunk_count'', ''artifact_id'',
     ''artifact_version'', ''artifact_profile_fingerprint'', ''local_availability'', ''error_code'', ''error_message'']"

text \<open>A document id that is no text is left out.\<close>

definition enqueue_manifest :: "channel_env \<Rightarrow> payload \<Rightarrow> unit cop" where
  "enqueue_manifest env p = (if has_forbidden p then raise_op (compute_exn FORBIDDEN_MANIFEST_CONTENT)
     else if \<not> set (map fst p) \<subseteq> set allowed_fields \<or> \<not> set required_fields \<subseteq> set (map fst p) then raise_op (compute_exn MANIFEST_INVALID)
     else then_op (read_clock env) (\<lambda>t. case map_of p ''document_id'' of
         Some (JStr d) \<Rightarrow> modify_op (on_catalog (enqueue_control_manifest d p (cut_off t))) | _ \<Rightarrow> raise_op OtherException))"

section \<open>What every step keeps\<close>

text \<open>Operations that only move along a preorder of states.\<close>

locale along_order =
  fixes R :: "'s \<Rightarrow> 's \<Rightarrow> bool"
  assumes refl: "R s s" and trans: "R s t \<Longrightarrow> R t u \<Longrightarrow> R s u"
begin

definition along :: "('s, 'e, 'a) op \<Rightarrow> bool" where
  "along m \<longleftrightarrow> (\<forall>s. R s (snd (m s)))"

lemma along_pure: "along (return_op x)" "along (raise_op e)" "along (gets_op f)"
  by (simp_all add: along_def op_simps refl)

lemma along_modify: "(\<And>s. R s (f s)) \<Longrightarrow> along (modify_op f)"
  by (simp add: along_def op_simps)

lemma along_then:
  assumes "along m" and "\<And>x. along (f x)"
  shows "along (then_op m f)"
  unfolding along_def
proof
  fix s
  show "R s (snd (then_op m f s))"
    using assms trans unfolding along_def by (cases "m s"; cases "fst (m s)") (auto simp: then_op_apply intro: trans dest: spec [of _ s])
qed

lemma along_seq: "along m \<Longrightarrow> along k \<Longrightarrow> along (seq_op m k)"
  by (simp add: seq_op_def along_then)

lemma along_catch:
  assumes "along m" and "\<And>e. along (h e)"
  shows "along (catch_op m h)"
  unfolding along_def
proof
  fix s
  show "R s (snd (catch_op m h s))"
    using assms unfolding along_def by (cases "m s"; cases "fst (m s)") (auto simp: catch_op_def intro: trans dest: spec [of _ s])
qed

lemma along_gets: "(\<And>s. along (f (g s))) \<Longrightarrow> along (then_op (gets_op g) f)"
  by (simp add: along_def op_simps)

lemmas along_steps = along_pure along_then along_seq along_catch

end

text \<open>The settings and the pairing stay as they are; requests are only added, and the added ones satisfy a predicate.\<close>

definition keeps_base :: "(device_request \<Rightarrow> bool) \<Rightarrow> channel_world \<Rightarrow> channel_world \<Rightarrow> bool" where
  "keeps_base P w w' \<longleftrightarrow> rt_settings (cw_runtime w') = rt_settings (cw_runtime w)
     \<and> get_paired_device_state (cw_catalog w') = get_paired_device_state (cw_catalog w)
     \<and> (\<exists>new. cw_sent w' = cw_sent w @ new \<and> (\<forall>q \<in> set new. P q))"

interpretation base: along_order "keeps_base P" for P
proof
  show "keeps_base P s s" for s by (simp add: keeps_base_def)
  show "keeps_base P s u" if st: "keeps_base P s t" and tu: "keeps_base P t u" for s t u
  proof -
    obtain a b where "cw_sent t = cw_sent s @ a" "\<forall>q \<in> set a. P q" "cw_sent u = cw_sent t @ b" "\<forall>q \<in> set b. P q"
      using st tu unfolding keeps_base_def by blast
    then have "cw_sent u = cw_sent s @ (a @ b) \<and> (\<forall>q \<in> set (a @ b). P q)" by auto
    then show ?thesis using st tu unfolding keeps_base_def by metis
  qed
qed

lemma paired_queue [simp]: "cat_paired (queue_others qs c) = cat_paired c"
proof -
  have "cat_paired (enqueue_control_manifest d p now c) = cat_paired c" for d p now c
    by (simp add: enqueue_control_manifest_def Let_def)
  then show ?thesis by (induction qs arbitrary: c) (simp_all add: queue_others_def case_prod_beta)
qed

lemma on_catalog_simps [simp]:
  "cw_state (on_catalog f w) = cw_state w" "cw_backoff (on_catalog f w) = cw_backoff w" "cw_sent (on_catalog f w) = cw_sent w"
  "rt_settings (cw_runtime (on_catalog f w)) = rt_settings (cw_runtime w)" "cw_catalog (on_catalog f w) = f (cw_catalog w)"
  "rt_sessions (cw_runtime (on_catalog f w)) = rt_sessions (cw_runtime w)"
  by (simp_all add: on_catalog_def)

lemma base_reads: "base.along P (read_clock env)" "base.along P (load_key env)"
  by (simp_all add: base.along_def keeps_base_def read_clock_def load_key_def)

lemma base_exchange: "P q \<Longrightarrow> base.along P (exchange env q)"
  by (simp add: base.along_def keeps_base_def exchange_def get_paired_device_state_def)

lemma base_modify: "(\<And>w. rt_settings (cw_runtime (f w)) = rt_settings (cw_runtime w) \<and> cat_paired (cw_catalog (f w)) = cat_paired (cw_catalog w)
    \<and> cw_sent (f w) = cw_sent w) \<Longrightarrow> base.along P (modify_op f)"
  by (intro base.along_modify) (simp add: keeps_base_def get_paired_device_state_def)

section \<open>What the channel sends\<close>

definition signed :: "channel_env \<Rightarrow> paired_device \<Rightarrow> string \<Rightarrow> device_request \<Rightarrow> bool" where
  "signed env paired key q \<longleftrightarrow> dq_device q = pd_device_id paired \<and> dq_epoch q = pd_credential_epoch paired
     \<and> dq_signature q = ce_sign env key (canonical_device_request (ce_sha env) ''POST'' (dq_path q) (dq_epoch q) (dq_timestamp q)
         (dq_nonce q) (ce_json env (dq_payload q)))"

definition discreet :: "device_request \<Rightarrow> bool" where
  "discreet q \<longleftrightarrow> dq_path q \<in> {presence_path, manifest_path} \<and> \<not> has_forbidden (dq_payload q)"

lemma signed_request: "signed env paired key (sign_request env paired key path p t n)"
  by (simp add: signed_def sign_request_def Let_def)

lemma send_along:
  assumes "path \<in> {presence_path, manifest_path}" and "\<not> has_forbidden p"
  shows "base.along (\<lambda>q. signed env paired key q \<and> discreet q) (send_request env paired key path p)"
proof -
  have q: "signed env paired key (sign_request env paired key path p t n) \<and> discreet (sign_request env paired key path p t n)" for t n
    using assms signed_request by (simp add: discreet_def) (simp add: sign_request_def Let_def)
  show ?thesis
    unfolding send_request_def
    by (intro base.along_steps base_reads base_exchange q) (auto split: prod.split json.split intro: base.along_steps)
qed

lemma presence_harmless: "\<not> has_forbidden (presence_payload r)"
  by (simp add: has_forbidden_def presence_payload_def forbidden_fields_def)

lemma deliver_along: "base.along (\<lambda>q. signed env paired key q \<and> discreet q) (deliver env paired key rows)"
proof (induction rows)
  case (Cons r rows)
  have "base.along (\<lambda>q. signed env paired key q \<and> discreet q) (publish_manifest env paired key (ob_payload r))"
    by (auto simp: publish_manifest_def intro: send_along base.along_steps)
  with Cons show ?case
    by (auto simp: mark_control_manifest_delivered_def intro!: base.along_steps base_reads base_modify)
qed (simp only: deliver.simps base.along_pure)

lemma set_connected_along: "base.along P (set_connected env)"
  unfolding set_connected_def by (intro base.along_steps base_reads base_modify) simp_all

definition paired_request :: "channel_env \<Rightarrow> catalog \<Rightarrow> device_request \<Rightarrow> bool" where
  "paired_request env c q \<longleftrightarrow> discreet q \<and> (\<exists>paired key. get_paired_device_state c = Some paired \<and> signed env paired key q)"

lemma load_client_Inr:
  "load_client env w = (Inr (paired, key), w1) \<Longrightarrow> get_paired_device_state (cw_catalog w) = Some paired"
  by (auto simp: load_client_def op_simps load_key_def split: option.splits prod.splits sum.splits)

lemma load_client_along: "base.along P (load_client env)"
  unfolding load_client_def by (auto intro!: base.along_steps base_reads split: option.split)

lemma base_weaken: "keeps_base P w w' \<Longrightarrow> (\<And>q. P q \<Longrightarrow> Q q) \<Longrightarrow> keeps_base Q w w'"
  unfolding keeps_base_def by blast

lemma publish_all_base: "keeps_base (paired_request env (cw_catalog w)) w (snd (publish_all env w))"
proof -
  have first: "keeps_base P w (snd (load_client env w))" for P
    using load_client_along unfolding base.along_def by blast
  show ?thesis
  proof (cases "fst (load_client env w)")
    case (Inl e)
    then show ?thesis using first by (cases "load_client env w") (simp add: publish_all_def then_op_apply)
  next
    case (Inr x)
    obtain paired key w1 where l: "load_client env w = (Inr (paired, key), w1)" using Inr by (cases "load_client env w"; cases x) auto
    let ?rest = "then_op (gets_op (\<lambda>w. presence_payload (cw_runtime w))) (\<lambda>p. seq_op (send_request env paired key presence_path p)
       (then_op (gets_op (\<lambda>w. pending_control_manifests (cw_catalog w))) (\<lambda>rows. seq_op (deliver env paired key rows) (set_connected env))))"
    have "publish_all env w = ?rest w1" by (simp add: publish_all_def then_op_apply l)
    moreover have "keeps_base (\<lambda>q. signed env paired key q \<and> discreet q) w1 (snd (?rest w1))"
    proof -
      have "base.along (\<lambda>q. signed env paired key q \<and> discreet q) ?rest"
        by (intro base.along_gets base.along_seq send_along deliver_along set_connected_along) (simp_all add: presence_harmless)
      then show ?thesis by (simp add: base.along_def)
    qed
    ultimately have "keeps_base (\<lambda>q. signed env paired key q \<and> discreet q) w (snd (publish_all env w))"
      using first [of "\<lambda>q. signed env paired key q \<and> discreet q"] l base.trans by simp
    then show ?thesis
      by (rule base_weaken) (use load_client_Inr [OF l] in \<open>auto simp: paired_request_def\<close>)
  qed
qed

lemma tick_failed_along: "base.along P (tick_failed env e)"
proof -
  have "base.along P (schedule_retry env)"
    by (simp add: base.along_def schedule_retry_def Let_def keeps_base_def)
  then show ?thesis
    unfolding tick_failed_def
    by (auto simp: revoke_runtime_def set_update_required_def intro!: base_modify split: py_exn.split)
qed

definition due :: "channel_env \<Rightarrow> channel_world \<Rightarrow> bool" where
  "due env w \<longleftrightarrow> \<not> stopped w \<and> cw_next w \<le> ce_clock env (cw_reads w)"

definition begun :: "channel_world \<Rightarrow> channel_world" where
  "begun w = w\<lparr>cw_reads := Suc (cw_reads w), cw_state := CH_CONNECTING\<rparr>"

lemma tick_due: "due env w \<Longrightarrow> tick env w = catch_op (publish_all env) (tick_failed env) (begun w)"
  by (simp add: tick_def due_def op_simps read_clock_def begun_def)

lemma tick_idle: "\<not> due env w \<Longrightarrow> tick env w = (Inr (), if stopped w then w else w\<lparr>cw_reads := Suc (cw_reads w)\<rparr>)"
  by (auto simp: tick_def due_def op_simps read_clock_def)

lemma tick_failed_Inr: "fst (tick_failed env e w) = Inr ()"
  by (simp add: tick_failed_def schedule_retry_def op_simps Let_def split: py_exn.split)

text \<open>How a tick that is due ends.\<close>

lemma tick_cases:
  assumes "due env w"
  obtains (published) w1 where "publish_all env (begun w) = (Inr (), w1)" "tick env w = (Inr (), w1)"
  | (failed) e w1 where "publish_all env (begun w) = (Inl e, w1)" "tick env w = (Inr (), snd (tick_failed env e w1))"
proof (cases "publish_all env (begun w)")
  case (Pair r w1)
  show thesis
  proof (cases r)
    case (Inl e)
    then show thesis using Pair assms tick_failed_Inr [of env e w1]
      by (intro failed [of e w1]) (simp_all add: tick_due catch_op_def prod_eq_iff case_prod_beta)
  next
    case (Inr x)
    then show thesis using Pair assms by (intro published [of w1]) (simp_all add: tick_due catch_op_def)
  qed
qed

lemma requests_of_tick:
  "\<exists>w'. tick env w = (Inr (), w') \<and> keeps_base (paired_request env (cw_catalog w)) w w'
    \<and> (cw_sent w' = cw_sent w \<or> due env w \<and> (\<exists>p. get_paired_device_state (cw_catalog w) = Some p))"
proof (cases "due env w")
  case False
  then show ?thesis by (simp add: tick_idle keeps_base_def)
next
  case True
  have b: "keeps_base (paired_request env (cw_catalog w)) w (snd (publish_all env (begun w)))"
    using publish_all_base [of env "begun w"] by (simp add: begun_def keeps_base_def)
  have f: "keeps_base P w1 (snd (tick_failed env e w1))" for P e w1
    using tick_failed_along unfolding base.along_def by blast
  have k: "\<exists>w'. tick env w = (Inr (), w') \<and> keeps_base (paired_request env (cw_catalog w)) w w'"
    using True
  proof (cases rule: tick_cases)
    case (published w1)
    then show ?thesis using b by simp
  next
    case (failed e w1)
    then show ?thesis using b base.trans [OF _ f] by simp
  qed
  then obtain w' new where w': "tick env w = (Inr (), w')" "keeps_base (paired_request env (cw_catalog w)) w w'"
    "cw_sent w' = cw_sent w @ new" "\<forall>q \<in> set new. paired_request env (cw_catalog w) q"
    unfolding keeps_base_def by blast
  have "get_paired_device_state (cw_catalog w) \<noteq> None" if "new \<noteq> []"
    using that w'(4) unfolding paired_request_def by (cases new) auto
  then show ?thesis using w' True by auto
qed


section \<open>Retries\<close>

text \<open>Everything before the end of a successful round leaves the delay as it is.\<close>

definition same_backoff :: "channel_world \<Rightarrow> channel_world \<Rightarrow> bool" where
  "same_backoff w w' \<longleftrightarrow> cw_backoff w' = cw_backoff w \<and> cw_state w' = cw_state w
     \<and> rt_settings (cw_runtime w') = rt_settings (cw_runtime w)"

interpretation steady: along_order same_backoff
  by unfold_locales (auto simp: same_backoff_def)

lemma steady_parts: "steady.along (read_clock env)" "steady.along (load_key env)" "steady.along (exchange env q)"
  "steady.along (modify_op (on_catalog f))"
  by (simp_all add: steady.along_def same_backoff_def read_clock_def load_key_def exchange_def op_simps)

lemma steady_send: "steady.along (send_request env paired key path p)"
  unfolding send_request_def by (intro steady.along_steps steady_parts) (auto split: prod.split json.split intro: steady.along_steps)

lemma steady_deliver: "steady.along (deliver env paired key rows)"
proof (induction rows)
  case Nil
  then show ?case by (simp only: deliver.simps steady.along_pure)
next
  case (Cons r rows)
  have "steady.along (publish_manifest env paired key (ob_payload r))"
    by (auto simp: publish_manifest_def intro: steady_send steady.along_steps)
  with Cons show ?case by (auto intro!: steady.along_steps steady_parts)
qed

lemma steady_client: "steady.along (load_client env)"
  unfolding load_client_def by (auto intro!: steady.along_steps steady_parts split: option.split)

lemma set_connected_run: "fst (set_connected env w) = Inr () \<and> cw_state (snd (set_connected env w)) = CH_CONNECTED
    \<and> cw_backoff (snd (set_connected env w)) = cf_backoff_min (rt_settings (cw_runtime w))
    \<and> cw_catalog (snd (set_connected env w)) = cw_catalog w \<and> cw_sent (snd (set_connected env w)) = cw_sent w"
  by (simp add: set_connected_def op_simps read_clock_def)

text \<open>A round that raised did so before the end; a round that returned set the delay to its minimum.\<close>

lemma publish_all_end:
  "case publish_all env w of (Inl e, w1) \<Rightarrow> same_backoff w w1
     | (Inr x, w1) \<Rightarrow> cw_state w1 = CH_CONNECTED \<and> cw_backoff w1 = cf_backoff_min (rt_settings (cw_runtime w))"
proof -
  let ?round = "\<lambda>paired key. then_op (gets_op (\<lambda>w. presence_payload (cw_runtime w))) (\<lambda>p. seq_op (send_request env paired key presence_path p)
       (then_op (gets_op (\<lambda>w. pending_control_manifests (cw_catalog w))) (\<lambda>rows. deliver env paired key rows)))"
  let ?all = "then_op (load_client env) (\<lambda>(paired, key). ?round paired key)"
  have split: "publish_all env w = seq_op ?all (set_connected env) w"
    by (auto simp: publish_all_def op_simps seq_op_apply split: prod.split sum.split)
  have "steady.along ?all"
    by (auto intro!: steady.along_steps steady_client steady.along_gets steady_send steady_deliver)
  then have "same_backoff w (snd (?all w))" unfolding steady.along_def by blast
  then show ?thesis
    using set_connected_run [of env "snd (?all w)"] unfolding split seq_op_apply same_backoff_def
    by (cases "?all w"; cases "fst (?all w)") (auto split: prod.split sum.split)
qed

definition cadence :: "channel_world \<Rightarrow> bool" where
  "cadence w \<longleftrightarrow> settings_error (rt_settings (cw_runtime w)) = None
     \<and> cf_backoff_min (rt_settings (cw_runtime w)) \<le> cw_backoff w \<and> cw_backoff w \<le> cf_backoff_max (rt_settings (cw_runtime w))"

definition after_tick :: "channel_world \<Rightarrow> channel_env \<Rightarrow> channel_world" where
  "after_tick w env = snd (tick env w)"

lemma after_tick_settings [simp]: "rt_settings (cw_runtime (after_tick w env)) = rt_settings (cw_runtime w)"
proof -
  obtain w' where "tick env w = (Inr (), w')" "keeps_base (paired_request env (cw_catalog w)) w w'"
    using requests_of_tick [of env w] by blast
  then show ?thesis by (simp add: after_tick_def keeps_base_def)
qed

text \<open>A tick that is due connects with the shortest delay, stops, or doubles the delay up to the longest one.\<close>

lemma after_tick_due:
  assumes "due env w"
  shows "cw_state (after_tick w env) = CH_CONNECTED \<and> cw_backoff (after_tick w env) = cf_backoff_min (rt_settings (cw_runtime w))
    \<or> stopped (after_tick w env) \<and> cw_backoff (after_tick w env) = cw_backoff w
        \<and> sm_sessions (rt_sessions (cw_runtime (after_tick w env))) = []
    \<or> cw_state (after_tick w env) = CH_BACKING_OFF
        \<and> cw_backoff (after_tick w env) = min (cw_backoff w * 2) (cf_backoff_max (rt_settings (cw_runtime w)))"
  using assms
proof (cases rule: tick_cases)
  case (published w1)
  then show ?thesis using publish_all_end [where env = env and w = "begun w"] by (simp add: after_tick_def begun_def)
next
  case (failed e w1)
  then have "same_backoff (begun w) w1" using publish_all_end [where env = env and w = "begun w"] by simp
  then show ?thesis
    unfolding after_tick_def failed(2)
    by (simp add: tick_failed_def op_simps schedule_retry_def same_backoff_def begun_def stopped_def revoke_runtime_def
        set_update_required_def revoke_sessions_def invalidate_all_def Let_def split: py_exn.split)
qed

lemma after_tick_idle: "\<not> due env w \<Longrightarrow> cw_state (after_tick w env) = cw_state w \<and> cw_backoff (after_tick w env) = cw_backoff w"
  by (simp add: after_tick_def tick_idle)

lemma cadence_tick: "cadence w \<Longrightarrow> cadence (after_tick w env)"
  using after_tick_due [of env w] after_tick_idle [of env w] settings_error_bounds [of "rt_settings (cw_runtime w)"]
  by (cases "due env w") (auto simp: cadence_def)

interpretation ticking: transition_invariant after_tick cadence
  by unfold_locales (rule cadence_tick)

fun failing :: "channel_env list \<Rightarrow> channel_world \<Rightarrow> bool" where
  "failing [] w \<longleftrightarrow> True"
| "failing (env # envs) w \<longleftrightarrow> due env w \<and> cw_state (after_tick w env) = CH_BACKING_OFF \<and> failing envs (after_tick w env)"

lemma min_scaled:
  assumes "1 \<le> k" and "0 \<le> (m::rat)"
  shows "min (min b m * k) m = min (b * k) m"
proof (cases "b \<le> m")
  case False
  have "m \<le> m * k" using mult_left_mono [OF assms(1), of m] assms(2) by simp
  moreover have "m * k \<le> b * k" using False assms(1) by (intro mult_right_mono) auto
  ultimately have "min (m * k) m = m" "min (b * k) m = m" by (auto intro: min_absorb2)
  then show ?thesis using False by simp
qed (simp add: min_def)

lemma failing_backoff:
  "cadence w \<Longrightarrow> failing envs w \<Longrightarrow> cw_backoff (foldl after_tick w envs)
     = min (cw_backoff w * 2 ^ length envs) (cf_backoff_max (rt_settings (cw_runtime w)))"
proof (induction envs arbitrary: w)
  case Nil
  then show ?case by (simp add: cadence_def min_def)
next
  case (Cons env envs)
  let ?b = "cw_backoff w" and ?m = "cf_backoff_max (rt_settings (cw_runtime w))"
  have pos: "0 < ?b" using Cons.prems(1) settings_error_bounds(1) [of "rt_settings (cw_runtime w)"] by (simp add: cadence_def)
  have "cw_backoff (after_tick w env) = min (?b * 2) ?m"
    using after_tick_due [of env w] Cons.prems(2) by (auto simp: stopped_def)
  then have "cw_backoff (foldl after_tick w (env # envs)) = min (min (?b * 2) ?m * 2 ^ length envs) ?m"
    using Cons.IH [OF cadence_tick [OF Cons.prems(1)]] Cons.prems(2) by simp
  also have "\<dots> = min (?b * 2 ^ length (env # envs)) ?m"
    using min_scaled [of "2 ^ length envs" ?m "?b * 2"] pos Cons.prems(1) by (simp add: cadence_def mult.assoc)
  finally show ?case .
qed

text \<open>C18. The delay between attempts doubles with every failure and stays within its bounds. From a new channel with checked settings
  the delay is between the two limits after any sequence of ticks, however the clock and the platform behave; after a
  number of failures in a row it is the shortest one times that power of two, cut at the longest.\<close>

theorem backoff_schedule:
  assumes "settings_error (rt_settings r) = None"
  shows "cf_backoff_min (rt_settings r) \<le> cw_backoff (foldl after_tick (new_channel r) envs)
    \<and> cw_backoff (foldl after_tick (new_channel r) envs) \<le> cf_backoff_max (rt_settings r)
    \<and> (failing envs (new_channel r) \<longrightarrow> cw_backoff (foldl after_tick (new_channel r) envs)
         = min (cf_backoff_min (rt_settings r) * 2 ^ length envs) (cf_backoff_max (rt_settings r)))"
proof -
  have start: "cadence (new_channel r)"
    using assms settings_error_bounds(2) by (simp add: cadence_def new_channel_def)
  have "rt_settings (cw_runtime (foldl after_tick w envs)) = rt_settings (cw_runtime w)" for w
    by (induction envs arbitrary: w) simp_all
  then have "rt_settings (cw_runtime (foldl after_tick (new_channel r) envs)) = rt_settings r" by (simp add: new_channel_def)
  then show ?thesis
    using ticking.run_inv [OF start, of envs] failing_backoff [OF start, of envs]
    unfolding cadence_def by (simp add: new_channel_def)
qed

text \<open>Revocation ends the channel and every session.\<close>

lemma stopped_stays: "stopped w \<Longrightarrow> foldl after_tick w envs = w"
  by (induction envs) (simp_all add: after_tick_def tick_idle due_def)

section \<open>Delivery of manifests\<close>

definition acknowledged :: "channel_env \<Rightarrow> nat \<Rightarrow> bool" where
  "acknowledged env n \<longleftrightarrow> (\<exists>status r. ce_reply env n = Inr (status, JObject r) \<and> 200 \<le> status \<and> status < 300)"

definition accepted_between :: "channel_env \<Rightarrow> channel_world \<Rightarrow> channel_world \<Rightarrow> payload \<Rightarrow> bool" where
  "accepted_between env w w' p \<longleftrightarrow> (\<exists>n. length (cw_sent w) \<le> n \<and> n < length (cw_sent w') \<and> dq_path (cw_sent w' ! n) = manifest_path
     \<and> dq_payload (cw_sent w' ! n) = p \<and> acknowledged env n)"

definition no_queueing :: "channel_env \<Rightarrow> bool" where
  "no_queueing env \<longleftrightarrow> ce_others env = (\<lambda>_. [])"

text \<open>A row changes only when its payload was sent and accepted.\<close>

definition honest :: "channel_env \<Rightarrow> channel_world \<Rightarrow> channel_world \<Rightarrow> bool" where
  "honest env w w' \<longleftrightarrow> (\<exists>new. cw_sent w' = cw_sent w @ new) \<and> (\<forall>r' \<in> set (cat_outbox (cw_catalog w')).
     r' \<in> set (cat_outbox (cw_catalog w)) \<or> (\<exists>r \<in> set (cat_outbox (cw_catalog w)). ob_document r = ob_document r'
        \<and> ob_payload r = ob_payload r' \<and> accepted_between env w w' (ob_payload r')))"

lemma accepted_between_mono:
  assumes "accepted_between env w w' p" and "cw_sent w'' = cw_sent w' @ new"
  shows "accepted_between env w w'' p"
proof -
  obtain n where "length (cw_sent w) \<le> n" "n < length (cw_sent w')" "dq_path (cw_sent w' ! n) = manifest_path"
    "dq_payload (cw_sent w' ! n) = p" "acknowledged env n"
    using assms(1) unfolding accepted_between_def by blast
  then show ?thesis using assms(2) unfolding accepted_between_def by (intro exI [of _ n]) (simp add: nth_append)
qed

lemma accepted_between_earlier:
  assumes "accepted_between env w' w'' p" and "cw_sent w' = cw_sent w @ new"
  shows "accepted_between env w w'' p"
proof -
  obtain n where "length (cw_sent w') \<le> n" "n < length (cw_sent w'')" "dq_path (cw_sent w'' ! n) = manifest_path"
    "dq_payload (cw_sent w'' ! n) = p" "acknowledged env n"
    using assms(1) unfolding accepted_between_def by blast
  then show ?thesis using assms(2) unfolding accepted_between_def by (intro exI [of _ n]) simp
qed

interpretation honest: along_order "honest env" for env
proof
  show "honest env s s" for s by (simp add: honest_def)
  show "honest env s u" if st: "honest env s t" and tu: "honest env t u" for s t u
    unfolding honest_def
  proof (intro conjI ballI)
    obtain a b where sent: "cw_sent t = cw_sent s @ a" "cw_sent u = cw_sent t @ b" using st tu unfolding honest_def by blast
    then show "\<exists>new. cw_sent u = cw_sent s @ new" by simp
    fix r' assume "r' \<in> set (cat_outbox (cw_catalog u))"
    then consider "r' \<in> set (cat_outbox (cw_catalog t))"
      | r where "r \<in> set (cat_outbox (cw_catalog t))" "ob_document r = ob_document r'" "ob_payload r = ob_payload r'"
          "accepted_between env t u (ob_payload r')"
      using tu unfolding honest_def by blast
    then show "r' \<in> set (cat_outbox (cw_catalog s)) \<or> (\<exists>r \<in> set (cat_outbox (cw_catalog s)). ob_document r = ob_document r'
        \<and> ob_payload r = ob_payload r' \<and> accepted_between env s u (ob_payload r'))"
    proof cases
      case 1
      then show ?thesis using st accepted_between_mono [OF _ sent(2)] unfolding honest_def by blast
    next
      case (2 r)
      have "accepted_between env s u (ob_payload r')" by (rule accepted_between_earlier [OF 2(4) sent(1)])
      moreover have "r \<in> set (cat_outbox (cw_catalog s)) \<or> (\<exists>r0 \<in> set (cat_outbox (cw_catalog s)). ob_document r0 = ob_document r
        \<and> ob_payload r0 = ob_payload r)"
        using st 2(1) unfolding honest_def by blast
      ultimately show ?thesis using 2(2,3) by metis
    qed
  qed
qed

lemma send_result:
  assumes "no_queueing env" and "send_request env paired key path p w = (res, w')"
  shows "cw_catalog w' = cw_catalog w \<and> (\<exists>q. cw_sent w' = cw_sent w @ [q] \<and> dq_path q = path \<and> dq_payload q = p)
    \<and> (res = Inr () \<longrightarrow> acknowledged env (length (cw_sent w)))"
  using assms
  by (auto simp: send_request_def op_simps read_clock_def exchange_def no_queueing_def queue_others_def acknowledged_def sign_request_def Let_def
      split: sum.splits prod.splits json.splits if_splits)

lemma mark_rows: "set (cat_outbox (mark_control_manifest_delivered d t c))
    = (\<lambda>r. if ob_document r = d then r\<lparr>ob_delivered := Some t, ob_attempts := ob_attempts r + 1\<rparr> else r) ` set (cat_outbox c)"
  by (simp add: mark_control_manifest_delivered_def update_where_def)

lemma deliver_honest:
  assumes "no_queueing env" and "distinct (map ob_document (cat_outbox (cw_catalog w)))" and "set rows \<subseteq> set (cat_outbox (cw_catalog w))"
    and "distinct (map ob_document rows)" and "deliver env paired key rows w = (res, w')"
  shows "honest env w w' \<and> (res = Inr () \<longrightarrow> (\<forall>r' \<in> set (cat_outbox (cw_catalog w')). ob_delivered r' = None \<longrightarrow>
      r' \<in> set (cat_outbox (cw_catalog w)) \<and> ob_document r' \<notin> ob_document ` set rows))"
  using assms(2-)
proof (induction rows arbitrary: w)
  case Nil
  then show ?case by (simp add: honest.refl)
next
  case (Cons r rows)
  obtain res1 w1 where p: "publish_manifest env paired key (ob_payload r) w = (res1, w1)" by fastforce
  have sent: "cw_catalog w1 = cw_catalog w \<and> (res1 = Inr () \<longrightarrow> accepted_between env w w1 (ob_payload r))
      \<and> (\<exists>new. cw_sent w1 = cw_sent w @ new)"
  proof (cases "has_forbidden (ob_payload r)")
    case True
    then show ?thesis using p by (auto simp: publish_manifest_def)
  next
    case False
    then have "send_request env paired key manifest_path (ob_payload r) w = (res1, w1)" using p by (simp add: publish_manifest_def)
    from send_result [OF assms(1) this] show ?thesis
      by (auto simp: accepted_between_def intro!: exI [of _ "length (cw_sent w)"])
  qed
  show ?case
  proof (cases res1)
    case (Inl e)
    then show ?thesis using Cons.prems(4) p sent by (auto simp: seq_op_apply honest_def)
  next
    case (Inr x)
    define w2 where "w2 = on_catalog (mark_control_manifest_delivered (ob_document r) (cut_off (ce_clock env (cw_reads w1))))
        (w1\<lparr>cw_reads := Suc (cw_reads w1)\<rparr>)"
    have rest: "deliver env paired key rows w2 = (res, w')"
      using Cons.prems(4) p Inr by (simp add: seq_op_apply op_simps read_clock_def w2_def)
    have box: "set (cat_outbox (cw_catalog w2)) = (\<lambda>x. if ob_document x = ob_document r
        then x\<lparr>ob_delivered := Some (cut_off (ce_clock env (cw_reads w1))), ob_attempts := ob_attempts x + 1\<rparr> else x)
        ` set (cat_outbox (cw_catalog w))"
      using sent by (simp add: w2_def mark_rows)
    have only: "x = r" if "x \<in> set (cat_outbox (cw_catalog w))" "ob_document x = ob_document r" for x
      using that Cons.prems(1,2) by (metis (no_types, lifting) distinct_map inj_onD list.set_intros(1) subsetD)
    have sent2: "cw_sent w2 = cw_sent w1" by (simp add: w2_def)
    have acc: "accepted_between env w w2 (ob_payload r)"
      using sent Inr sent2 unfolding accepted_between_def by auto
    have h: "honest env w w2"
      unfolding honest_def box
    proof (intro conjI ballI)
      show "\<exists>new. cw_sent w2 = cw_sent w @ new" using sent sent2 by auto
      fix r' assume "r' \<in> (\<lambda>x. if ob_document x = ob_document r
        then x\<lparr>ob_delivered := Some (cut_off (ce_clock env (cw_reads w1))), ob_attempts := ob_attempts x + 1\<rparr> else x)
        ` set (cat_outbox (cw_catalog w))"
      then obtain x where x: "x \<in> set (cat_outbox (cw_catalog w))" "r' = (if ob_document x = ob_document r
        then x\<lparr>ob_delivered := Some (cut_off (ce_clock env (cw_reads w1))), ob_attempts := ob_attempts x + 1\<rparr> else x)" by blast
      show "r' \<in> set (cat_outbox (cw_catalog w)) \<or> (\<exists>r \<in> set (cat_outbox (cw_catalog w)). ob_document r = ob_document r'
        \<and> ob_payload r = ob_payload r' \<and> accepted_between env w w2 (ob_payload r'))"
      proof (cases "ob_document x = ob_document r")
        case True
        then have "x = r" using only x(1) by blast
        then show ?thesis using x acc by (intro disjI2 bexI [of _ x]) simp_all
      qed (use x in simp)
    qed
    have "distinct (map ob_document (cat_outbox (cw_catalog w2)))"
      using Cons.prems(1) sent by (simp add: w2_def outbox_documents_mark)
    moreover have "set rows \<subseteq> set (cat_outbox (cw_catalog w2))"
    proof
      fix x assume x: "x \<in> set rows"
      then have "ob_document x \<noteq> ob_document r" "x \<in> set (cat_outbox (cw_catalog w))" using Cons.prems(2,3) by (auto simp: rev_image_eqI)
      then show "x \<in> set (cat_outbox (cw_catalog w2))" unfolding box by (intro image_eqI [of _ _ x]) simp_all
    qed
    moreover have "distinct (map ob_document rows)" using Cons.prems(3) by simp
    ultimately have ih: "honest env w2 w' \<and> (res = Inr () \<longrightarrow> (\<forall>r' \<in> set (cat_outbox (cw_catalog w')). ob_delivered r' = None \<longrightarrow>
      r' \<in> set (cat_outbox (cw_catalog w2)) \<and> ob_document r' \<notin> ob_document ` set rows))"
      using Cons.IH rest by blast
    have "r' \<in> set (cat_outbox (cw_catalog w)) \<and> ob_document r' \<noteq> ob_document r"
      if "r' \<in> set (cat_outbox (cw_catalog w2))" "ob_delivered r' = None" for r'
      using that unfolding box by (auto split: if_splits)
    with ih honest.trans [OF h] show ?thesis by auto
  qed
qed

lemma set_connected_honest: "honest env w w1 \<Longrightarrow> honest env w (snd (set_connected env w1))"
  using set_connected_run [of env w1] unfolding honest_def accepted_between_def by simp

lemma load_client_keeps: "load_client env w = (r, w1) \<Longrightarrow> cw_catalog w1 = cw_catalog w \<and> cw_sent w1 = cw_sent w"
  by (auto simp: load_client_def op_simps load_key_def split: option.splits prod.splits sum.splits)

lemma same_box_honest: "cat_outbox (cw_catalog w1) = cat_outbox (cw_catalog w) \<Longrightarrow> cw_sent w1 = cw_sent w @ new \<Longrightarrow> honest env w w1"
  by (simp add: honest_def)

lemma pending_distinct:
  assumes "distinct (map ob_document (cat_outbox c))"
  shows "set (pending_control_manifests c) \<subseteq> set (cat_outbox c) \<and> distinct (map ob_document (pending_control_manifests c))"
  using assms by (auto simp: pending_control_manifests_def distinct_map inj_on_def)

lemma publish_all_honest:
  assumes "no_queueing env" and d: "distinct (map ob_document (cat_outbox (cw_catalog w)))" and "publish_all env w = (res, w')"
  shows "honest env w w' \<and> (res = Inr () \<longrightarrow> pending_control_manifests (cw_catalog w') = [])"
proof -
  obtain l w1 where l: "load_client env w = (l, w1)" by fastforce
  note k = load_client_keeps [OF l]
  show ?thesis
  proof (cases l)
    case (Inl e)
    then show ?thesis using assms(3) l k by (auto simp: publish_all_def then_op_apply intro!: same_box_honest [where new = "[]"])
  next
    case (Inr x)
    obtain paired key where x: "x = (paired, key)" by (cases x)
    obtain s w2 where s: "send_request env paired key presence_path (presence_payload (cw_runtime w1)) w1 = (s, w2)" by fastforce
    from send_result [OF assms(1) s] obtain q where q: "cw_catalog w2 = cw_catalog w" "cw_sent w2 = cw_sent w @ [q]" using k by auto
    then have h2: "honest env w w2" by (intro same_box_honest) simp_all
    show ?thesis
    proof (cases s)
      case (Inl e)
      then show ?thesis using assms(3) l Inr x s h2 by (auto simp: publish_all_def op_simps seq_op_apply)
    next
      case (Inr u)
      let ?rows = "pending_control_manifests (cw_catalog w2)"
      obtain v w3 where v: "deliver env paired key ?rows w2 = (v, w3)" by fastforce
      have d2: "distinct (map ob_document (cat_outbox (cw_catalog w2)))" using d q(1) by simp
      have dl: "honest env w2 w3 \<and> (v = Inr () \<longrightarrow> (\<forall>r' \<in> set (cat_outbox (cw_catalog w3)). ob_delivered r' = None \<longrightarrow>
          r' \<in> set (cat_outbox (cw_catalog w2)) \<and> ob_document r' \<notin> ob_document ` set ?rows))"
        using deliver_honest [OF assms(1) d2 _ _ v] pending_distinct [OF d2] by blast
      have h3: "honest env w w3" using honest.trans [OF h2] dl by blast
      show ?thesis
      proof (cases v)
        case (Inl e)
        then show ?thesis using assms(3) l \<open>l = Inr x\<close> x s \<open>s = Inr u\<close> v h3 by (auto simp: publish_all_def op_simps seq_op_apply)
      next
        case (Inr y)
        then have run: "publish_all env w = set_connected env w3"
          using l \<open>l = Inr x\<close> x s \<open>s = Inr u\<close> v by (simp add: publish_all_def op_simps seq_op_apply)
        have "pending_control_manifests (cw_catalog w3) = []"
        proof -
          have "r \<notin> set (pending_control_manifests (cw_catalog w3))" for r
          proof
            have vu: "v = Inr ()" using Inr by simp
            assume "r \<in> set (pending_control_manifests (cw_catalog w3))"
            then have r: "r \<in> set (cat_outbox (cw_catalog w3))" "ob_delivered r = None" "ob_terminal r = None"
              by (simp_all add: pending_control_manifests_def)
            then have "r \<in> set (cat_outbox (cw_catalog w2))" "ob_document r \<notin> ob_document ` set ?rows" using dl vu by blast+
            moreover from this(1) r have "r \<in> set ?rows" by (simp add: pending_control_manifests_def)
            ultimately show False by blast
          qed
          then show ?thesis by (metis list.set_intros(1) neq_Nil_conv)
        qed
        moreover have "w' = snd (set_connected env w3)" using run assms(3) by (metis snd_conv)
        ultimately show ?thesis using set_connected_honest [OF h3] set_connected_run [of env w3] by simp
      qed
    qed
  qed
qed


section \<open>Runs\<close>

definition channel_runtime :: runtime where
  "channel_runtime = (new_runtime default_settings empty_catalog ''g'')\<lparr>rt_catalog := empty_catalog\<lparr>cat_paired := Some \<lparr>pd_device_id = ''d'',
     pd_owner_user_id = None, pd_credential_epoch = 1, pd_platform_base_url = ''u'', pd_protocol_version = ''p'',
     pd_pairing_state = ''PAIRED'', pd_revocation_state = ''ACTIVE''\<rparr>,
     cat_outbox := [\<lparr>ob_document = ''a'', ob_payload = [(''document_id'', JStr ''a'')], ob_revision = 1, ob_created = 0, ob_updated = 0,
       ob_attempts = 0, ob_delivered = None, ob_terminal = None\<rparr>]\<rparr>\<rparr>"

definition sample_channel :: channel_world where
  "sample_channel = new_channel channel_runtime"

definition calm_channel :: channel_env where
  "calm_channel = \<lparr>ce_clock = rat_of_nat, ce_jitter = (\<lambda>_. 0), ce_key = (\<lambda>_. Inr (Some ''k'')), ce_nonce = (\<lambda>_. ''n''),
     ce_json = (\<lambda>_. ''{}''), ce_sha = (\<lambda>s. s), ce_sign = (\<lambda>k s. s), ce_reply = (\<lambda>_. Inr (200, JObject [])), ce_others = (\<lambda>_. [])\<rparr>"

text \<open>Another thread queues a newer manifest of the document while the manifest is on its way.\<close>

definition newer_manifest :: payload where
  "newer_manifest = [(''document_id'', JStr ''a''), (''index_state'', JStr ''DELETED'')]"

definition racing_channel :: channel_env where
  "racing_channel = calm_channel\<lparr>ce_others := (\<lambda>n. if n = 1 then [(''a'', newer_manifest, 9)] else [])\<rparr>"

definition refusing_channel :: channel_env where
  "refusing_channel = calm_channel\<lparr>ce_reply := (\<lambda>_. Inr (503, JObject []))\<rparr>"

lemmas channel_run_defs = tick_def stopped_def sample_channel_def new_channel_def channel_runtime_def new_runtime_def op_simps read_clock_def
  publish_all_def load_client_def load_key_def get_paired_device_state_def send_request_def exchange_def on_catalog_def queue_others_def
  pending_control_manifests_def empty_catalog_def set_connected_def catch_op_def seq_op_apply deliver.simps publish_manifest_def
  mark_control_manifest_delivered_def update_where_def calm_channel_def has_forbidden_def forbidden_fields_def

lemma calm_tick: "\<exists>w'. tick calm_channel sample_channel = (Inr (), w') \<and> cw_state w' = CH_CONNECTED"
  by (simp add: channel_run_defs)

text \<open>A manifest that another thread queues while the previous one of its document is on its way is lost: the row is marked as
  delivered though the platform never got its payload.\<close>

lemma manifest_lost:
  "\<exists>w'. tick racing_channel sample_channel = (Inr (), w') \<and> cw_state w' = CH_CONNECTED \<and> pending_control_manifests (cw_catalog w') = []
    \<and> newer_manifest \<in> ob_payload ` set (cat_outbox (cw_catalog w')) \<and> newer_manifest \<notin> dq_payload ` set (cw_sent w')"
  by (simp add: racing_channel_def channel_run_defs enqueue_control_manifest_def newer_manifest_def sign_request_def presence_payload_def Let_def)


theorem backoff_schedule_witness:
  "cw_backoff (foldl after_tick (new_channel channel_runtime) [refusing_channel]) = 2"
proof -
  have "settings_error (rt_settings channel_runtime) = None"
    using default_settings_accepted by (simp add: channel_runtime_def new_runtime_def)
  moreover have "failing [refusing_channel] (new_channel channel_runtime)"
    by (simp add: due_def after_tick_def refusing_channel_def channel_run_defs tick_failed_def schedule_retry_def refusal_def compute_exn_def
        code_of_text_def Let_def)
  ultimately show ?thesis
    using backoff_schedule [of channel_runtime "[refusing_channel]"] by (simp add: channel_runtime_def new_runtime_def default_settings_def)
qed

end
