(* ===== verification/Spec2Isabelle.thy ===== *)
theory Spec2Isabelle
  imports Prelude PyText Errors Catalog Jobs Sessions Runtime Grants Reconstruction Chunker Documents
    Artifacts Indexing Preparation Pipeline Lifecycle Liveness Ranking Expansion Evidence Answers PyRegex Parser Metadata LegalPaths QueryPlan Retrieval Answering AnswerRuns ControlChannel
begin

text \<open>
  The local compute runtime of a legal question-answering system: a service on the user's own
  machine that pairs with a control platform, admits browser sessions, prepares and indexes PDF
  documents and answers questions from them. Paths are relative to \<open>src/app/\<close>.

  \<^bold>\<open>Theories.\<close>
  \<^item> \<open>Prelude\<close>, \<open>PyText\<close>: lists, tables, result values, operations that may fail, Python text.
  \<^item> \<open>Errors\<close> (\<open>local_compute/errors.py\<close>): the typed errors and their statuses.
  \<^item> \<open>Catalog\<close> (\<open>catalog.py\<close>), \<open>Jobs\<close> (\<open>jobs.py\<close>): the durable state and the job queue. A connection
    block is one function of the clock and the catalog.
  \<^item> \<open>Sessions\<close> (\<open>sessions.py\<close>), \<open>Runtime\<close> (\<open>runtime.py\<close>, \<open>settings.py\<close>), \<open>Grants\<close>
    (\<open>grants.py\<close>): who may talk to the service.
  \<^item> \<open>Reconstruction\<close> (\<open>processing/cleaner.py\<close>, \<open>header_footer.py\<close>, \<open>reconstruction.py\<close>) and
    \<open>Chunker\<close> (\<open>processing/chunker.py\<close>, \<open>indexing/input_contract.py\<close>): from pages to chunks.
  \<^item> \<open>PyRegex\<close>: the backtracking matcher that runs the patterns of the program. \<open>Parser\<close>
    (\<open>processing/parser.py\<close>), \<open>Metadata\<close> (\<open>processing/metadata_extractor.py\<close>): the stack machine that builds
    the tree of legal units, the shape of the tree, and which text its units cover.
  \<^item> \<open>Documents\<close> (\<open>documents.py\<close>, \<open>pdf/admission.py\<close>, the enqueueing handler of \<open>api.py\<close>): the world of
    catalog and files, and the boundaries at which other threads act, a step fails or the process dies.
  \<^item> \<open>Artifacts\<close>: what a complete index is, the gate that only complete indexes may be queryable, and
    the locale \<open>boundary_assertion\<close> that gives the proof rules for assertions stable under the
    boundaries; its interpretations \<open>gate\<close> and \<open>owned\<close> carry the proofs of the services.
  \<^item> \<open>Indexing\<close> (\<open>indexing.py\<close>, \<open>indexing/embedder.py\<close>), \<open>Preparation\<close> (\<open>preparation.py\<close>,
    \<open>pdf/extractor.py\<close>, \<open>indexing/artifact.py\<close>), \<open>Pipeline\<close> (\<open>pipeline.py\<close>): the services and the worker
    that drives them over any number of process lives.
  \<^item> \<open>Lifecycle\<close>: acceptance and deletion under every schedule. \<open>Liveness\<close>: the worker settles its jobs in
    a world without faults, by the rules of the locale \<open>calm_assertion\<close>.
  \<^item> \<open>Ranking\<close> (\<open>retrieval/rrf.py\<close>, \<open>retrieval/schemas.py\<close>): candidates and rank fusion.
  \<^item> \<open>Expansion\<close> (\<open>retrieval/hierarchy_expander.py\<close>): the bounded expansion by children, for any repository.
  \<^item> \<open>LegalPaths\<close> (\<open>local_compute/legal_paths.py\<close>): the ancestors of a stored unit, and the repair of a legacy table.
  \<^item> \<open>Evidence\<close> (\<open>context/service.py\<close>, \<open>dedup.py\<close>, \<open>formatter.py\<close>): the evidence a prompt shows, within its token budget.
  \<^item> \<open>Answers\<close> (\<open>generation/answerability.py\<close>, \<open>citations.py\<close>, \<open>finalization.py\<close>, \<open>local_compute/structured_claims.py\<close>): markers, citations and claims.
  \<^item> \<open>QueryPlan\<close>: \<open>query_plan.py\<close>, the retrieval queries of a question. The lemmas: planning is total, at most four different queries, the first is the question and the others are clauses of it.
  \<^item> \<open>Retrieval\<close>: \<open>retrieval.py\<close>, \<open>hierarchy.py\<close>, \<open>answer_modes.py\<close>, \<open>reranker.py\<close> and \<open>query_embedder.py\<close>: a query over the indexed artifacts, from the request to the enriched results. The lemmas: every result is a stored chunk of an active artifact that was requested, the shape of the window of results, the best dense hit of every query is shown, and a query over complete artifacts is answered.
  \<^item> \<open>Answering\<close> (\<open>local_compute/generation.py\<close>, \<open>context_adapter.py\<close>, \<open>generation/profile.py\<close>, \<open>prompting.py\<close>): a question from the request to the answer: plan, retrieval, context, routing, provider, citations. The trace of contacts is the state. The lemmas: a cloud is contacted only as the routing permits, and an answer cites only stored text that its context shows.
  \<^item> \<open>AnswerRuns\<close>: runs of the answer path on concrete worlds: a cited answer, a route to a configured cloud, a question of two parts that fails.
  \<^item> \<open>ControlChannel\<close> (\<open>local_compute/control_channel.py\<close>): signed heartbeats and manifests to the platform, retries, revocation. Operations that move along a preorder of states are the locale \<open>along_order\<close>, interpreted for the requests, the delay and the delivery. The lemmas: what is sent, at-least-once delivery, the bounds of the delay, and the lost update of a manifest queued meanwhile.

  \<^bold>\<open>Parameters.\<close> Code that is not in the repository is an argument: the Unicode tables, the tokenizer,
  the encoder, the FTS5 match, the reranker, the language models, PyMuPDF, Ed25519, SHA-256, base64 and JSON. Time is an input of every operation; identifiers
  of \<open>uuid4\<close> are read from a stream.

  \<^bold>\<open>Schedules.\<close> The catalog and the files are shared with the threads that serve the browser. Every
  catalog access and every file step of the worker is a boundary. The schedule of a world says for
  each boundary what the clock shows, which requests run first (cancel, enqueue, reindex, delete; the
  ones that need the lock of the document wait) and whether the step fails or the process dies.
  The theorems hold for every schedule. A query reads a world that stays as it is while it runs.

  \<^bold>\<open>Not modelled.\<close> Sockets, HTTP framing and the other routes of \<open>api.py\<close>; waits, threads and the
  polling interval; the server's own API and its databases; deployment scripts and the evaluation
  experiments.
\<close>

end
